(* ===== verification/Prelude.thy ===== *)
theory Prelude
  imports
    "HOL-Library.Word"
    "HOL-Library.Finite_Map"
    "HOL-Library.Char_ord"
    "HOL-Library.List_Lexorder"
    "HOL-Library.Multiset"
begin

unbundle bit_operations_syntax

text \<open>
  What every component shares: the fixed-width integer types of Go, the result of running
  a piece of Go code (a value, a panic, or a call that never returns because it waits for a
  lock), Go slices and maps with the panics of their out-of-range uses, and the few
  functions of the standard library that the sources call everywhere: big-endian
  integers of \<^verbatim>\<open>encoding/binary\<close>, and the \<^verbatim>\<open>%x\<close>, \<^verbatim>\<open>%d\<close> and \<^verbatim>\<open>%02x\<close> verbs of
  \<^verbatim>\<open>fmt\<close>. The generic lemmas about them are collected in \<open>go_simps\<close>.
\<close>

named_theorems go_simps
  "evaluation of Go results, slices and maps"

section \<open>Integers, bytes and strings\<close>

text \<open>
  A Go \<open>string\<close> is an immutable sequence of bytes, which is what \<open>char list\<close> is;
  \<open>[]byte\<close> is a list of 8-bit words. \<open>str\<close> and \<open>bytes\<close> are the two conversions.
\<close>

type_synonym u8 = "8 word"
type_synonym u32 = "32 word"
type_synonym u64 = "64 word"
type_synonym i32 = "32 word"
type_synonym i64 = "64 word"
type_synonym byte_slice = "u8 list"

definition str :: "byte_slice \<Rightarrow> string" where
  "str bs = map (\<lambda>b. char_of (unat b)) bs"

definition bytes :: "string \<Rightarrow> byte_slice" where
  "bytes s = map (\<lambda>c. of_nat (of_char c)) s"

section \<open>Results of running Go code\<close>

text \<open>
  \<open>Ret\<close> is a normal return, \<open>Panic\<close> a panic with its message, \<open>Blocked\<close> a call that
  waits forever for a mutex nobody will release.
\<close>

datatype 'a go = Ret 'a | Panic string | Blocked

fun go_bind :: "'a go \<Rightarrow> ('a \<Rightarrow> 'b go) \<Rightarrow> 'b go" where
  "go_bind (Ret a) f = f a"
| "go_bind (Panic m) f = Panic m"
| "go_bind Blocked f = Blocked"

text \<open>The same for code that also changes a state, which a panic leaves as it is then.\<close>

fun then_do :: "'a go \<times> 's \<Rightarrow> ('a \<Rightarrow> 's \<Rightarrow> 'b go \<times> 't) \<Rightarrow> ('s \<Rightarrow> 't) \<Rightarrow> 'b go \<times> 't" where
  "then_do (Ret a, s) f k = f a s"
| "then_do (Panic m, s) f k = (Panic m, k s)"
| "then_do (Blocked, s) f k = (Blocked, k s)"

abbreviation and_then :: "'a go \<times> 's \<Rightarrow> ('a \<Rightarrow> 's \<Rightarrow> 'b go \<times> 's) \<Rightarrow> 'b go \<times> 's" where
  "and_then m f \<equiv> then_do m f (\<lambda>s. s)"

fun returns :: "'a go \<Rightarrow> bool" where
  "returns (Ret a) = True"
| "returns _ = False"

fun panics :: "'a go \<Rightarrow> bool" where
  "panics (Panic m) = True"
| "panics _ = False"

section \<open>Slices and maps\<close>

text \<open>\<open>go_slice i j xs\<close> is \<open>xs[i:j]\<close> and \<open>go_index xs i\<close> is \<open>xs[i]\<close>.\<close>

definition go_slice :: "nat \<Rightarrow> nat \<Rightarrow> 'a list \<Rightarrow> 'a list go" where
  "go_slice i j xs =
     (if i \<le> j \<and> j \<le> length xs then Ret (take (j - i) (drop i xs))
      else Panic ''runtime error: slice bounds out of range'')"

definition go_index :: "'a list \<Rightarrow> nat \<Rightarrow> 'a go" where
  "go_index xs i =
     (if i < length xs then Ret (xs ! i) else Panic ''runtime error: index out of range'')"

text \<open>
  A slice whose nil value the program can tell from an empty one (because it is
  encoded as JSON, or compared with nil) is an \<open>option\<close>; all others are plain lists.
\<close>

type_synonym 'a slice = "'a list option"

definition elems :: "'a slice \<Rightarrow> 'a list" where
  "elems s = (case s of None \<Rightarrow> [] | Some xs \<Rightarrow> xs)"

definition append_slice :: "'a slice \<Rightarrow> 'a list \<Rightarrow> 'a slice" where
  "append_slice s ys = (if ys = [] then s else Some (elems s @ ys))"

text \<open>A Go map: reading a nil map gives the zero value, assigning to it panics.\<close>

datatype ('k, 'v) gomap = NilMap | MkMap "('k, 'v) fmap"

fun gm_fmap :: "('k, 'v) gomap \<Rightarrow> ('k, 'v) fmap" where
  "gm_fmap NilMap = fmempty"
| "gm_fmap (MkMap m) = m"

definition gm_get :: "('k, 'v) gomap \<Rightarrow> 'k \<Rightarrow> 'v option" where
  "gm_get m k = fmlookup (gm_fmap m) k"

fun gm_set :: "('k, 'v) gomap \<Rightarrow> 'k \<Rightarrow> 'v \<Rightarrow> ('k, 'v) gomap go" where
  "gm_set NilMap k v = Panic ''assignment to entry in nil map''"
| "gm_set (MkMap m) k v = Ret (MkMap (fmupd k v m))"

fun gm_delete :: "('k, 'v) gomap \<Rightarrow> 'k \<Rightarrow> ('k, 'v) gomap" where
  "gm_delete NilMap k = NilMap"
| "gm_delete (MkMap m) k = MkMap (fmdrop k m)"

definition gm_make :: "('k, 'v) gomap" where
  "gm_make = MkMap fmempty"

definition gm_keys :: "('k::linorder, 'v) gomap \<Rightarrow> 'k list" where
  "gm_keys m = sorted_list_of_fset (fmdom (gm_fmap m))"

definition gm_len :: "('k::linorder, 'v) gomap \<Rightarrow> nat" where
  "gm_len m = length (gm_keys m)"

text \<open>
  \<open>range\<close> over a map visits the keys in an order that the language leaves open. The
  order is a parameter of every function that ranges over a map: \<open>ord l ks\<close> is the order
  in which the loop named \<open>l\<close> visits the keys \<open>ks\<close>, any permutation of them.
\<close>

type_synonym range_order = "string \<Rightarrow> string list \<Rightarrow> string list"

definition valid_order :: "range_order \<Rightarrow> bool" where
  "valid_order ord \<longleftrightarrow> (\<forall>l ks. mset (ord l ks) = mset ks)"

section \<open>Big-endian integers and number formatting\<close>

text \<open>\<open>binary.BigEndian.PutUint64\<close> into a fresh 8-byte buffer, and \<open>Uint64\<close>.\<close>

definition PutUint64 :: "u64 \<Rightarrow> byte_slice" where
  "PutUint64 v =
     [ucast (drop_bit 56 v), ucast (drop_bit 48 v), ucast (drop_bit 40 v), ucast (drop_bit 32 v),
      ucast (drop_bit 24 v), ucast (drop_bit 16 v), ucast (drop_bit 8 v), ucast v]"

fun Uint64 :: "byte_slice \<Rightarrow> u64 go" where
  "Uint64 (b0 # b1 # b2 # b3 # b4 # b5 # b6 # b7 # _) =
     Ret (ucast b7 OR push_bit 8 (ucast b6) OR push_bit 16 (ucast b5) OR push_bit 24 (ucast b4) OR
          push_bit 32 (ucast b3) OR push_bit 40 (ucast b2) OR push_bit 48 (ucast b1) OR
          push_bit 56 (ucast b0))"
| "Uint64 _ = Panic ''runtime error: index out of range''"

text \<open>\<open>fmt\<close>: \<open>%d\<close> of an unsigned integer, \<open>%x\<close> of a byte slice, \<open>%02x\<close> of a byte.\<close>

definition digit_char :: "nat \<Rightarrow> char" where
  "digit_char n = char_of (48 + n)"

fun dec_nat :: "nat \<Rightarrow> string" where
  "dec_nat n = (if n < 10 then [digit_char n] else dec_nat (n div 10) @ [digit_char (n mod 10)])"

declare dec_nat.simps [simp del]

definition hex_char :: "nat \<Rightarrow> char" where
  "hex_char n = (if n < 10 then char_of (48 + n) else char_of (87 + n))"

definition hex_byte :: "u8 \<Rightarrow> string" where
  "hex_byte b = [hex_char (unat b div 16), hex_char (unat b mod 16)]"

definition hex_bytes :: "byte_slice \<Rightarrow> string" where
  "hex_bytes bs = concat (map hex_byte bs)"

section \<open>Lemmas\<close>

subsection \<open>Bytes and strings\<close>

lemma unat_u8_less [simp]: "unat (b :: u8) < 256"
  using unsigned_less [of b] by simp

lemma str_bytes [simp]: "str (bytes s) = s"
  by (induction s) (auto simp: str_def bytes_def unsigned_of_nat take_bit_eq_mod)

lemma bytes_str [simp]: "bytes (str bs) = bs"
  by (induction bs) (simp_all add: str_def bytes_def)

lemma str_inject [simp]: "str a = str b \<longleftrightarrow> a = b"
  by (metis bytes_str)

lemma bytes_inject [simp]: "bytes a = bytes b \<longleftrightarrow> a = b"
  by (metis str_bytes)

lemma length_str [simp]: "length (str bs) = length bs"
  by (simp add: str_def)

lemma length_bytes [simp]: "length (bytes s) = length s"
  by (simp add: bytes_def)

lemma str_append [simp]: "str (a @ b) = str a @ str b"
  by (simp add: str_def)

lemma str_Nil [simp]: "str [] = []" and str_eq_Nil [simp]: "str a = [] \<longleftrightarrow> a = []"
  by (simp_all add: str_def)

lemma bytes_append [simp]: "bytes (a @ b) = bytes a @ bytes b"
  by (simp add: bytes_def)

subsection \<open>Big-endian integers and number formatting\<close>

lemma length_PutUint64 [simp]: "length (PutUint64 v) = 8"
  by (simp add: PutUint64_def)

lemma take_bit_join:
  "take_bit m v OR push_bit m (take_bit n (drop_bit m v)) = take_bit (m + n) (v :: 'a::len word)"
  by (rule bit_word_eqI) (auto simp: bit_simps)

lemma ucast_u8_u64: "(ucast (ucast (v :: u64) :: u8) :: u64) = take_bit 8 v"
  by (rule bit_word_eqI) (auto simp: bit_simps)

lemma Uint64_PutUint64 [simp]: "Uint64 (PutUint64 v @ rest) = Ret v"
proof -
  have full: "take_bit 64 v = v" by (rule bit_word_eqI) (auto simp: bit_simps)
  show ?thesis using take_bit_join [of 8 v 8] take_bit_join [of 16 v 8] take_bit_join [of 24 v 8]
     take_bit_join [of 32 v 8] take_bit_join [of 40 v 8] take_bit_join [of 48 v 8] take_bit_join [of 56 v 8]
    by (simp add: PutUint64_def ucast_u8_u64 full or.assoc [symmetric] del: take_bit_of_1)
qed

lemma go_slice_Ret [simp, go_simps]: "i \<le> j \<Longrightarrow> j \<le> length xs \<Longrightarrow> go_slice i j xs = Ret (take (j - i) (drop i xs))"
  by (simp add: go_slice_def)

lemma digit: "n < 10 \<Longrightarrow> of_char (digit_char n) = 48 + n"
  by (simp add: digit_char_def)

lemma of_char_hex_char: "n < 16 \<Longrightarrow> of_char (hex_char n) = (if n < 10 then 48 + n else 87 + n)"
  by (simp add: hex_char_def)

lemma hex_char_inject: "m < 16 \<Longrightarrow> n < 16 \<Longrightarrow> hex_char m = hex_char n \<longleftrightarrow> m = n"
  by (auto dest: arg_cong [where f = "of_char :: char \<Rightarrow> nat"] simp: of_char_hex_char split: if_splits)

lemma hex_byte_inject [simp]: "hex_byte a = hex_byte b \<longleftrightarrow> a = b"
proof -
  have "hex_byte a = hex_byte b \<longleftrightarrow> unat a div 16 = unat b div 16 \<and> unat a mod 16 = unat b mod 16"
    by (simp add: hex_byte_def hex_char_inject div_less_iff_less_mult)
  also have "\<dots> \<longleftrightarrow> unat a = unat b"
    by (metis div_mult_mod_eq)
  finally show ?thesis by (simp add: word_unat_eq_iff)
qed

lemma hex_bytes_Nil [simp]: "hex_bytes [] = []"
  by (simp add: hex_bytes_def)

lemma hex_bytes_Cons: "hex_bytes (x # xs) = hex_byte x @ hex_bytes xs"
  by (simp add: hex_bytes_def)

lemma length_hex_byte [simp]: "length (hex_byte b) = 2"
  by (simp add: hex_byte_def)

lemma length_hex_bytes [simp]: "length (hex_bytes bs) = 2 * length bs"
  by (induction bs) (auto simp: hex_bytes_Cons)

lemma hex_bytes_inject [simp]: "hex_bytes a = hex_bytes b \<longleftrightarrow> a = b"
proof (induction a arbitrary: b)
  case Nil
  show ?case using length_hex_bytes [of b] by (cases b) (auto simp del: length_hex_bytes)
next
  case (Cons x xs)
  show ?case
  proof (cases b)
    case Nil
    then show ?thesis using length_hex_bytes [of "x # xs"] by (auto simp del: length_hex_bytes)
  next
    case (Cons y ys)
    then show ?thesis using Cons.IH [of ys] by (simp add: hex_bytes_Cons)
  qed
qed

lemma PutUint64_inject [simp]: "PutUint64 v = PutUint64 w \<longleftrightarrow> v = w"
  by (metis Uint64_PutUint64 append_Nil2 go.inject(1))

lemma go_slice_Panic: "\<not> (i \<le> j \<and> j \<le> length xs) \<Longrightarrow> panics (go_slice i j xs)"
  by (simp add: go_slice_def)

lemma go_index_Ret [simp, go_simps]: "i < length xs \<Longrightarrow> go_index xs i = Ret (xs ! i)"
  by (simp add: go_index_def)

subsection \<open>Results\<close>

lemma go_bind_Ret_iff: "go_bind m f = Ret b \<longleftrightarrow> (\<exists>a. m = Ret a \<and> f a = Ret b)"
  by (cases m) auto

lemma go_bind_assoc: "go_bind (go_bind m f) g = go_bind m (\<lambda>a. go_bind (f a) g)"
  by (cases m) auto

lemma go_bind_if: "go_bind (if P then a else b) f = (if P then go_bind a f else go_bind b f)"
  by simp

text \<open>What holds of the result, if there is one: a rule per construct of a function body.\<close>

definition post :: "('a \<Rightarrow> bool) \<Rightarrow> 'a go \<Rightarrow> bool" where
  "post P m \<longleftrightarrow> (\<forall>a. m = Ret a \<longrightarrow> P a)"

lemma post_intros:
  "P a \<Longrightarrow> post P (Ret a)"
  "(\<And>b. post P (f b)) \<Longrightarrow> post P (go_bind r f)"
  "(c \<Longrightarrow> post P m) \<Longrightarrow> (\<not> c \<Longrightarrow> post P n) \<Longrightarrow> post P (if c then m else n)"
  by (auto simp: post_def go_bind_Ret_iff)

lemma postD: "post P m \<Longrightarrow> m = Ret a \<Longrightarrow> P a"
  by (simp add: post_def)

lemma returns_iff: "returns m \<longleftrightarrow> (\<exists>a. m = Ret a)"
  by (cases m) auto

subsection \<open>Maps\<close>

lemma gm_get_simps [simp, go_simps]:
  "gm_get NilMap k = None"
  "gm_get (MkMap m) k = fmlookup m k"
  "gm_get gm_make k = None"
  by (simp_all add: gm_get_def gm_make_def)

lemma gm_set_get: "gm_set m k v = Ret m' \<Longrightarrow> gm_get m' k' = (if k' = k then Some v else gm_get m k')"
  by (cases m) auto

lemma gm_set_not_nil: "m \<noteq> NilMap \<Longrightarrow> \<exists>m'. gm_set m k v = Ret (MkMap m')"
  by (cases m) auto

lemma gm_delete_get [simp]: "gm_get (gm_delete m k) k' = (if k' = k then None else gm_get m k')"
  by (cases m) auto

lemma fmupd_twice: "fmupd k v (fmupd k w m) = fmupd k v m"
  by (rule fmap_ext) simp

lemma set_gm_keys [simp]: "set (gm_keys m) = fset (fmdom (gm_fmap m))"
  by (simp add: gm_keys_def)

lemma in_gm_keys: "k \<in> set (gm_keys m) \<longleftrightarrow> gm_get m k \<noteq> None"
  by (simp add: gm_get_def fmlookup_dom_iff)

lemma distinct_gm_keys [simp]: "distinct (gm_keys m)"
  by (simp add: gm_keys_def sorted_list_of_fset.rep_eq)

lemma sorted_gm_keys [simp]: "sorted (gm_keys m)"
  by (simp add: gm_keys_def sorted_list_of_fset.rep_eq)

lemma gm_len_0: "gm_len m = 0 \<longleftrightarrow> (\<forall>k. gm_get m k = None)"
proof -
  have "gm_len m = 0 \<longleftrightarrow> set (gm_keys m) = {}" by (simp add: gm_len_def del: set_gm_keys)
  then show ?thesis using in_gm_keys [of _ m] by (metis all_not_in_conv)
qed

lemma valid_orderD: "valid_order ord \<Longrightarrow> mset (ord l ks) = mset ks"
  by (simp add: valid_order_def)

lemma valid_order_set [simp]: "valid_order ord \<Longrightarrow> set (ord l ks) = set ks"
  by (metis valid_orderD set_mset_mset)

lemma valid_order_distinct: "valid_order ord \<Longrightarrow> distinct (ord l ks) \<longleftrightarrow> distinct ks"
  by (metis valid_orderD mset_eq_imp_distinct_iff)

lemma valid_order_sort: "valid_order ord \<Longrightarrow> sort (ord l ks) = sort ks"
  by (metis valid_orderD properties_for_sort sorted_sort mset_sort)

end
