(* ===== verification/Types.thy ===== *)
theory Types
  imports Prelude "HOL-Library.Signed_Division"
begin

text \<open>
  The data types of \<^verbatim>\<open>types/\<close>: one record per struct, with the source's field names under a
  short prefix (fields of different records may not share a name here), pointers as
  \<open>option\<close>, slices as lists, the fixed-size arrays \<open>Hash\<close>, \<open>AppHash\<close> and
  \<open>ValidatorAddress\<close> as byte lists with their zero values and length predicates, and the
  enumerations kept as the integers they are. The operations on them: the capability
  bit field, the two success tests, and the conversions between wire time and Go time.
\<close>

section \<open>types.go, time.go\<close>

type_synonym Hash = byte_slice
type_synonym AppHash = byte_slice
type_synonym Tx = byte_slice
type_synonym QueryPath = string

definition is_hash :: "byte_slice \<Rightarrow> bool" where
  "is_hash h \<longleftrightarrow> length h = 32"

definition zero_hash :: Hash where
  "zero_hash = replicate 32 0"

record BlockID =
  bid_Height :: u64
  bid_Hash :: Hash

record Timestamp =
  ts_Seconds :: i64
  ts_Nanos :: i32

record Duration =
  dur_Nanos :: i64

text \<open>
  A \<open>time.Time\<close> in UTC: its Unix second count (an \<open>int64\<close>, \<open>t.Unix()\<close>) and its
  nanosecond within the second (\<open>t.Nanosecond()\<close>, always in \<open>[0, 999999999]\<close>).
  \<open>time_Unix\<close> is \<open>time.Unix\<close>, with its truncating division and its carry.
\<close>

record go_time =
  tm_Unix :: i64
  tm_Nanosecond :: int

definition valid_time :: "go_time \<Rightarrow> bool" where
  "valid_time t \<longleftrightarrow> 0 \<le> tm_Nanosecond t \<and> tm_Nanosecond t < 1000000000"

definition time_Unix :: "i64 \<Rightarrow> int \<Rightarrow> go_time" where
  "time_Unix sec nsec =
     (if nsec < 0 \<or> nsec \<ge> 1000000000 then
        (let n = nsec sdiv 1000000000;
             sec' = sec + of_int n;
             nsec' = nsec - n * 1000000000
         in if nsec' < 0 then \<lparr>tm_Unix = sec' - 1, tm_Nanosecond = nsec' + 1000000000\<rparr>
            else \<lparr>tm_Unix = sec', tm_Nanosecond = nsec'\<rparr>)
      else \<lparr>tm_Unix = sec, tm_Nanosecond = nsec\<rparr>)"

text \<open>
  \<open>t.Add(d)\<close>, for the times the code adds to (its saturation at the ends of the year
  range is out of reach of a 64-bit duration from 2024 on).
\<close>

definition time_Add :: "go_time \<Rightarrow> i64 \<Rightarrow> go_time" where
  "time_Add t d =
     (let dsec = sint d sdiv 1000000000;
          nsec = tm_Nanosecond t + sint d smod 1000000000
      in if nsec \<ge> 1000000000 then
           \<lparr>tm_Unix = tm_Unix t + of_int (dsec + 1), tm_Nanosecond = nsec - 1000000000\<rparr>
         else if nsec < 0 then
           \<lparr>tm_Unix = tm_Unix t + of_int (dsec - 1), tm_Nanosecond = nsec + 1000000000\<rparr>
         else \<lparr>tm_Unix = tm_Unix t + of_int dsec, tm_Nanosecond = nsec\<rparr>)"

definition TimeToTimestamp :: "go_time \<Rightarrow> Timestamp" where
  "TimeToTimestamp t = \<lparr>ts_Seconds = tm_Unix t, ts_Nanos = of_int (tm_Nanosecond t)\<rparr>"

definition ToTime :: "Timestamp \<Rightarrow> go_time" where
  "ToTime ts = time_Unix (ts_Seconds ts) (sint (ts_Nanos ts))"

text \<open>A \<open>time.Duration\<close> is an \<open>int64\<close> of nanoseconds.\<close>

definition DurationFromGo :: "i64 \<Rightarrow> Duration" where
  "DurationFromGo d = \<lparr>dur_Nanos = d\<rparr>"

definition ToGo :: "Duration \<Rightarrow> i64" where
  "ToGo d = dur_Nanos d"

section \<open>event.go, validator.go, evidence.go, params.go, vote.go\<close>

record EventAttribute =
  ea_Key :: string
  ea_Value :: string
  ea_Index :: bool

record Event =
  ev_Kind :: string
  ev_Attributes :: "EventAttribute list"

type_synonym ValidatorAddress = byte_slice

definition is_address :: "byte_slice \<Rightarrow> bool" where
  "is_address a \<longleftrightarrow> length a = 20"

definition zero_address :: ValidatorAddress where
  "zero_address = replicate 20 0"

type_synonym KeyType = u8

definition KeyTypeEd25519 :: KeyType where "KeyTypeEd25519 = 1"
definition KeyTypeSecp256k1 :: KeyType where "KeyTypeSecp256k1 = 2"

record PublicKey =
  pk_Type :: KeyType
  pk_Data :: byte_slice

record ValidatorUpdate =
  vu_PubKey :: PublicKey
  vu_Power :: u64

type_synonym EvidenceType = u8

definition EvidenceTypeDuplicateVote :: EvidenceType where "EvidenceTypeDuplicateVote = 1"
definition EvidenceTypeLightClient :: EvidenceType where "EvidenceTypeLightClient = 2"

record Evidence =
  evd_Type :: EvidenceType
  evd_Validator :: ValidatorAddress
  evd_Height :: u64
  evd_Time :: Timestamp
  evd_TotalVotingPower :: u64

record ConsensusParams =
  cp_MaxBlockBytes :: u64
  cp_MaxEvidenceAge :: Duration
  cp_MaxTxBytes :: u64

record VoteContext =
  vc_Height :: u64
  vc_Round :: u32
  vc_BlockHash :: Hash

record ReceivedExtension =
  re_Height :: u64
  re_Round :: u32
  re_Validator :: ValidatorAddress
  re_Extension :: byte_slice

type_synonym ExtensionVerdict = u8

definition ExtensionAccept :: ExtensionVerdict where "ExtensionAccept = 1"
definition ExtensionReject :: ExtensionVerdict where "ExtensionReject = 2"

record CommittedVoteExtension =
  cve_Validator :: ValidatorAddress
  cve_Extension :: byte_slice

section \<open>block.go\<close>

record TxOutcome =
  txo_Index :: u32
  txo_Code :: u32
  txo_Info :: string
  txo_Data :: byte_slice
  txo_Events :: "Event list"

definition TxOutcome_OK :: "TxOutcome \<Rightarrow> bool" where
  "TxOutcome_OK t \<longleftrightarrow> txo_Code t = 0"

definition zero_TxOutcome :: TxOutcome where
  "zero_TxOutcome = \<lparr>txo_Index = 0, txo_Code = 0, txo_Info = [], txo_Data = [], txo_Events = []\<rparr>"

record BlockOutcome =
  bo_TxOutcomes :: "TxOutcome list"
  bo_BlockEvents :: "Event list"
  bo_AppHash :: AppHash
  bo_ValidatorUpdates :: "ValidatorUpdate list"
  bo_ParamsUpdate :: "ConsensusParams option"

definition zero_BlockOutcome :: BlockOutcome where
  "zero_BlockOutcome = \<lparr>bo_TxOutcomes = [], bo_BlockEvents = [], bo_AppHash = zero_hash,
     bo_ValidatorUpdates = [], bo_ParamsUpdate = None\<rparr>"

record FinalizedBlock =
  fb_Height :: u64
  fb_Time :: Timestamp
  fb_Proposer :: ValidatorAddress
  fb_Txs :: "Tx list"
  fb_LastBlockHash :: Hash
  fb_Evidence :: "Evidence list"
  fb_VoteExtensions :: "CommittedVoteExtension list"

record CommitResult =
  cr_RetainHeight :: u64

section \<open>capability.go\<close>

type_synonym Capabilities = u8

definition CapProposalControl :: Capabilities where "CapProposalControl = push_bit 0 1"
definition CapVoteExtensions :: Capabilities where "CapVoteExtensions = push_bit 1 1"
definition CapStateSync :: Capabilities where "CapStateSync = push_bit 2 1"
definition CapSimulation :: Capabilities where "CapSimulation = push_bit 3 1"
definition CapMempoolObserver :: Capabilities where "CapMempoolObserver = push_bit 4 1"

definition Capabilities_Has :: "Capabilities \<Rightarrow> Capabilities \<Rightarrow> bool" where
  "Capabilities_Has c cap \<longleftrightarrow> c AND cap = cap"

fun strings_Join :: "string list \<Rightarrow> string \<Rightarrow> string" where
  "strings_Join [] sep = []"
| "strings_Join [x] sep = x"
| "strings_Join (x # y # zs) sep = x @ sep @ strings_Join (y # zs) sep"

definition Capabilities_String :: "Capabilities \<Rightarrow> string" where
  "Capabilities_String c =
     (let caps = [];
          caps = (if Capabilities_Has c CapProposalControl then caps @ [''ProposalControl''] else caps);
          caps = (if Capabilities_Has c CapVoteExtensions then caps @ [''VoteExtensions''] else caps);
          caps = (if Capabilities_Has c CapStateSync then caps @ [''StateSync''] else caps);
          caps = (if Capabilities_Has c CapSimulation then caps @ [''Simulation''] else caps);
          caps = (if Capabilities_Has c CapMempoolObserver then caps @ [''MempoolObserver''] else caps)
      in if length caps = 0 then ''none'' else strings_Join caps ''|'')"

section \<open>genesis.go, handshake.go, mempool.go, mempool\_observer.go\<close>

record GenesisDoc =
  gd_ChainID :: string
  gd_GenesisTime :: Timestamp
  gd_InitialHeight :: u64
  gd_ConsensusParams :: ConsensusParams
  gd_Validators :: "ValidatorUpdate list"
  gd_AppState :: byte_slice

record HandshakeRequest =
  hq_LastCommitted :: "BlockID option"
  hq_Genesis :: "GenesisDoc option"

record HandshakeResponse =
  hr_LastBlock :: "BlockID option"
  hr_AppHash :: "AppHash option"
  hr_Capabilities :: Capabilities

definition zero_HandshakeResponse :: HandshakeResponse where
  "zero_HandshakeResponse = \<lparr>hr_LastBlock = None, hr_AppHash = None, hr_Capabilities = 0\<rparr>"

type_synonym MempoolContext = u8

definition MempoolFirstSeen :: MempoolContext where "MempoolFirstSeen = 1"
definition MempoolRevalidation :: MempoolContext where "MempoolRevalidation = 2"

record GateVerdict =
  gv_Code :: u32
  gv_Info :: string
  gv_Priority :: i64
  gv_Sender :: string

definition GateVerdict_Accepted :: "GateVerdict \<Rightarrow> bool" where
  "GateVerdict_Accepted v \<longleftrightarrow> gv_Code v = 0"

definition zero_GateVerdict :: GateVerdict where
  "zero_GateVerdict = \<lparr>gv_Code = 0, gv_Info = [], gv_Priority = 0, gv_Sender = []\<rparr>"

record BatchCertifiedEvent =
  bce_Validator :: ValidatorAddress
  bce_BatchHash :: Hash
  bce_Round :: u64
  bce_TxCount :: u32
  bce_ByteCount :: u64

record BlockConstructedEvent =
  bke_Leader :: ValidatorAddress
  bke_Height :: u64
  bke_IncludedBatchHashes :: "Hash list"

section \<open>proposal.go, query.go, snapshot.go\<close>

record ProposalContext =
  pc_Height :: u64
  pc_Time :: Timestamp
  pc_Proposer :: ValidatorAddress
  pc_MempoolTxs :: "Tx list"
  pc_MaxTxBytes :: u64
  pc_VoteExtensions :: "CommittedVoteExtension list"

record BuiltProposal =
  bp_Txs :: "Tx list"

record ReceivedProposal =
  rp_Height :: u64
  rp_Time :: Timestamp
  rp_Proposer :: ValidatorAddress
  rp_Txs :: "Tx list"
  rp_VoteExtensions :: "CommittedVoteExtension list"

record ProposalVerdict =
  pv_Accept :: bool
  pv_RejectReason :: string

record StateQuery =
  sq_Path :: QueryPath
  sq_Data :: byte_slice
  sq_Height :: "u64 option"
  sq_Prove :: bool

record ProofOp =
  po_Type :: string
  po_Key :: byte_slice
  po_Data :: byte_slice

record MerkleProof =
  mp_Ops :: "ProofOp list"

record StateQueryResult =
  sr_Code :: u32
  sr_Key :: byte_slice
  sr_Value :: byte_slice
  sr_Height :: u64
  sr_Proof :: "MerkleProof option"
  sr_Info :: string

definition zero_StateQueryResult :: StateQueryResult where
  "zero_StateQueryResult = \<lparr>sr_Code = 0, sr_Key = [], sr_Value = [], sr_Height = 0,
     sr_Proof = None, sr_Info = []\<rparr>"

record SnapshotDescriptor =
  sd_Height :: u64
  sd_Format :: u32
  sd_Chunks :: u32
  sd_Hash :: Hash
  sd_Metadata :: byte_slice

record SnapshotChunk =
  sc_Index :: u32
  sc_Data :: byte_slice

type_synonym ImportStatus = u8

definition ImportOK :: ImportStatus where "ImportOK = 1"
definition ImportReject :: ImportStatus where "ImportReject = 2"
definition ImportRetryChunks :: ImportStatus where "ImportRetryChunks = 3"

record ImportResult =
  ir_Status :: ImportStatus
  ir_AppHash :: "AppHash option"
  ir_Reason :: string
  ir_RetryIndices :: "u32 list"

definition zero_ImportResult :: ImportResult where
  "zero_ImportResult = \<lparr>ir_Status = 0, ir_AppHash = None, ir_Reason = [], ir_RetryIndices = []\<rparr>"

section \<open>Properties\<close>

lemma sdiv_1e9:
  fixes n :: int
  shows "n sdiv 1000000000 = n div 1000000000 + (if n < 0 \<and> n mod 1000000000 \<noteq> 0 then 1 else 0)"
  by (auto simp: signed_divide_int_eq_divide_int sgn_if dvd_eq_mod_eq_0)

lemma time_Unix_floor:
  "time_Unix sec n = \<lparr>tm_Unix = sec + of_int (n div 1000000000), tm_Nanosecond = n mod 1000000000\<rparr>"
proof (cases "n < 0 \<or> n \<ge> 1000000000")
  case False
  then show ?thesis by (simp add: time_Unix_def)
next
  case True
  have m: "n - n div 1000000000 * 1000000000 = n mod 1000000000" "n mod 1000000000 < 1000000000" "0 \<le> n mod 1000000000"
    by (simp_all add: minus_div_mult_eq_mod)
  have neg: "n - (n div 1000000000 + 1) * 1000000000 = n mod 1000000000 - 1000000000"
    using m(1) by (simp add: algebra_simps)
  show ?thesis using True m neg
    by (simp add: time_Unix_def sdiv_1e9 Let_def) (use m in linarith)
qed

text \<open>
  A Go time survives the trip through its wire form.
\<close>

theorem time_roundtrip:
  assumes "valid_time t"
  shows "ToTime (TimeToTimestamp t) = t"
proof -
  have "sint (of_int (tm_Nanosecond t) :: i32) = tm_Nanosecond t"
    using assms by (simp add: valid_time_def signed_of_int signed_take_bit_int_eq_self)
  then show ?thesis using assms by (simp add: ToTime_def TimeToTimestamp_def time_Unix_def valid_time_def)
qed

theorem time_roundtrip_witness:
  "ToTime (TimeToTimestamp \<lparr>tm_Unix = - 1, tm_Nanosecond = 999999999\<rparr>) = \<lparr>tm_Unix = - 1, tm_Nanosecond = 999999999\<rparr>"
  by (rule time_roundtrip) (simp add: valid_time_def)

text \<open>
  Any wire timestamp, also one whose nanoseconds are negative or exceed a second, becomes
  the Go time of the same instant in normal form: whole seconds are carried (rounding
  towards minus infinity) and the nanoseconds end up within the second.
\<close>

theorem ToTime_normalises:
  "ToTime ts = \<lparr>tm_Unix = ts_Seconds ts + of_int (sint (ts_Nanos ts) div 1000000000),
     tm_Nanosecond = sint (ts_Nanos ts) mod 1000000000\<rparr> \<and> valid_time (ToTime ts)"
  by (simp add: ToTime_def time_Unix_floor valid_time_def)

text \<open>
  Capability sets: a set has a union of capabilities exactly when it has each of them,
  so declaring capabilities joined by \<^verbatim>\<open>|\<close> declares each one.
\<close>

theorem Capabilities_Has_or:
  "Capabilities_Has c (a OR b) \<longleftrightarrow> Capabilities_Has c a \<and> Capabilities_Has c b"
  unfolding Capabilities_Has_def by (auto simp: bit_eq_iff bit_simps)

end
