(* ===== verification/Errors.thy ===== *)
theory Errors
  imports Prelude
begin

text \<open>
  \<^verbatim>\<open>errors.go\<close>: the error by which an application asks for a chain halt, and the test that
  finds it in an error chain. A Go error is either a halt error, an error of any other
  type (only its text can be observed), or an error that wraps others (\<open>fmt.Errorf\<close>
  with one or more \<open>%w\<close>, \<open>errors.Join\<close>). \<open>errors_As\<close> is \<open>errors.As\<close> at the type
  \<open>*HaltError\<close>: a depth-first walk of that tree which stops at the first match.
\<close>

record HaltError =
  he_Reason :: string
  he_Height :: u64

datatype go_error =
    ErrorString string
  | Halt HaltError
  | Wrapped string "go_error list"

definition NewHaltError :: "u64 \<Rightarrow> string \<Rightarrow> HaltError" where
  "NewHaltError height reason = \<lparr>he_Reason = reason, he_Height = height\<rparr>"

definition HaltError_Error :: "HaltError \<Rightarrow> string" where
  "HaltError_Error e = ''HALT at height '' @ dec_nat (unat (he_Height e)) @ '': '' @ he_Reason e"

fun Error_text :: "go_error \<Rightarrow> string" where
  "Error_text (ErrorString m) = m"
| "Error_text (Halt h) = HaltError_Error h"
| "Error_text (Wrapped m es) = m"

fun errors_As :: "go_error \<Rightarrow> HaltError option"
  and errors_As_list :: "go_error list \<Rightarrow> HaltError option" where
  "errors_As (ErrorString m) = None"
| "errors_As (Halt h) = Some h"
| "errors_As (Wrapped m es) = errors_As_list es"
| "errors_As_list [] = None"
| "errors_As_list (e # es) = (case errors_As e of Some h \<Rightarrow> Some h | None \<Rightarrow> errors_As_list es)"

definition IsHalt :: "go_error option \<Rightarrow> HaltError option \<times> bool" where
  "IsHalt err =
     (case err of
        None \<Rightarrow> (None, False)
      | Some e \<Rightarrow> (case errors_As e of Some h \<Rightarrow> (Some h, True) | None \<Rightarrow> (None, False)))"

text \<open>The halt errors of an error chain, in the order of the walk.\<close>

fun halts :: "go_error \<Rightarrow> HaltError list"
  and halts_list :: "go_error list \<Rightarrow> HaltError list" where
  "halts (ErrorString m) = []"
| "halts (Halt h) = [h]"
| "halts (Wrapped m es) = halts_list es"
| "halts_list [] = []"
| "halts_list (e # es) = halts e @ halts_list es"

lemma errors_As_first:
  "errors_As e = (case halts e of [] \<Rightarrow> None | h # _ \<Rightarrow> Some h)"
  "errors_As_list es = (case halts_list es of [] \<Rightarrow> None | h # _ \<Rightarrow> Some h)"
  by (induction e and es rule: errors_As_errors_As_list.induct) (auto split: list.splits option.splits)

text \<open>
  \<open>IsHalt\<close> finds a halt error wherever it is wrapped: it succeeds exactly when the error
  chain holds one, and hands out the first in the depth-first order of \<open>errors.As\<close>.
\<close>

theorem IsHalt_first:
  "IsHalt (Some e) = (case halts e of [] \<Rightarrow> (None, False) | h # _ \<Rightarrow> (Some h, True))"
  by (simp add: IsHalt_def errors_As_first split: list.splits)

end
