(* ===== verification/Interfaces.thy ===== *)
theory Interfaces
  imports Types Errors
begin

text \<open>
  \<^verbatim>\<open>bapi.go\<close>: the interfaces between the consensus engine and an application. A Go
  interface value is a method table over the state \<open>'a\<close> of the value behind it; a
  method takes that state and gives the result of the call and the new state. Which
  optional interfaces an application implements, that is, what the type assertion
  \<open>app.(ProposalControl)\<close> answers, is an \<open>option\<close> field of the table. A channel of
  snapshot chunks is the list of chunks it yields before it is closed.

  The contexts that every method takes are not modelled: no code of the repository reads
  one, they are only handed on.
\<close>

section \<open>Method tables\<close>

type_synonym ('a, 'r) meth = "'a \<Rightarrow> ('r \<times> go_error option) go \<times> 'a"

record 'a ProposalControl =
  m_BuildProposal :: "ProposalContext \<Rightarrow> ('a, BuiltProposal) meth"
  m_VerifyProposal :: "ReceivedProposal \<Rightarrow> ('a, ProposalVerdict) meth"

record 'a VoteExtender =
  m_ExtendVote :: "VoteContext \<Rightarrow> ('a, byte_slice) meth"
  m_VerifyExtension :: "ReceivedExtension \<Rightarrow> ('a, ExtensionVerdict) meth"

type_synonym chunk_chan = "SnapshotChunk list"

record 'a StateSync =
  m_AvailableSnapshots :: "('a, SnapshotDescriptor list) meth"
  m_ExportSnapshot ::
    "u64 \<Rightarrow> u32 \<Rightarrow> ('a, chunk_chan option \<times> SnapshotDescriptor option) meth"
  m_ImportSnapshot :: "SnapshotDescriptor \<Rightarrow> chunk_chan \<Rightarrow> ('a, ImportResult) meth"

record 'a Simulator =
  m_Simulate :: "Tx \<Rightarrow> ('a, TxOutcome) meth"

record 'a MempoolObserver =
  m_OnBatchCertified :: "BatchCertifiedEvent \<Rightarrow> ('a, unit) meth"
  m_OnBlockConstructed :: "BlockConstructedEvent \<Rightarrow> ('a, unit) meth"

record 'a Lifecycle =
  m_Handshake :: "HandshakeRequest \<Rightarrow> ('a, HandshakeResponse) meth"
  m_CheckTx :: "Tx \<Rightarrow> MempoolContext \<Rightarrow> ('a, GateVerdict) meth"
  m_ExecuteBlock :: "FinalizedBlock \<Rightarrow> ('a, BlockOutcome) meth"
  m_Commit :: "('a, CommitResult) meth"
  m_Query :: "StateQuery \<Rightarrow> ('a, StateQueryResult) meth"
  as_ProposalControl :: "'a ProposalControl option"
  as_VoteExtender :: "'a VoteExtender option"
  as_StateSync :: "'a StateSync option"
  as_Simulator :: "'a Simulator option"
  as_MempoolObserver :: "'a MempoolObserver option"

section \<open>The contract of an application\<close>

text \<open>
  What the comments of \<^verbatim>\<open>Lifecycle\<close> ask of an application, over a view of its state:
  \<open>committed\<close> is its last committed state, \<open>staged\<close> what the last \<open>ExecuteBlock\<close> left
  for \<open>Commit\<close>, and \<open>invar\<close> what the application keeps true. Execution is a function
  \<open>exec\<close> of the committed state and the block (all correct nodes get the same outcome),
  it leaves the committed state alone, one outcome per transaction in block order comes
  back, \<open>Commit\<close> installs exactly what was staged, and the concurrent methods change
  nothing and answer from the committed state.
\<close>

locale lifecycle_app =
  fixes app :: "'a Lifecycle"
    and invar :: "'a \<Rightarrow> bool"
    and committed :: "'a \<Rightarrow> 'c"
    and staged :: "'a \<Rightarrow> 'c option"
    and exec :: "'c \<Rightarrow> FinalizedBlock \<Rightarrow> BlockOutcome \<times> 'c"
    and answer :: "'c \<Rightarrow> StateQuery \<Rightarrow> StateQueryResult"
  assumes handshake_spec: "invar a \<Longrightarrow>
      \<exists>resp a'. m_Handshake app req a = (Ret (resp, None), a') \<and> invar a' \<and>
        committed a' = committed a \<and> staged a' = staged a \<and> hr_AppHash resp \<noteq> None \<and>
        (hq_LastCommitted req = None \<longrightarrow> hr_LastBlock resp = None)"
    and checktx_spec: "invar a \<Longrightarrow> \<exists>v. m_CheckTx app tx mctx a = (Ret (v, None), a)"
    and execute_spec: "invar a \<Longrightarrow>
      \<exists>a'. m_ExecuteBlock app b a = (Ret (fst (exec (committed a) b), None), a') \<and> invar a' \<and>
        committed a' = committed a \<and> staged a' = Some (snd (exec (committed a) b))"
    and outcomes_spec: "map txo_Index (bo_TxOutcomes (fst (exec c b))) =
        map of_nat [0..<length (fb_Txs b)]"
    and commit_spec: "invar a \<Longrightarrow> staged a = Some c \<Longrightarrow>
      \<exists>r a'. m_Commit app a = (Ret (r, None), a') \<and> invar a' \<and> committed a' = c"
    and query_spec: "invar a \<Longrightarrow> m_Query app q a = (Ret (answer (committed a) q, None), a)"

end
