(* ===== verification/Grpc_Wire.thy ===== *)
theory Grpc_Wire
  imports Interfaces
begin

text \<open>
  \<^verbatim>\<open>grpc/wire.go\<close> and \<^verbatim>\<open>grpc/codec.go\<close>: the messages that cross the network and the codec. A Go
  value of type \<open>any\<close> that is handed to the codec or to the transport is a \<open>message\<close>, and the
  static type of the pointer it is decoded into is a \<open>kind\<close>; the selector \<open>un_T\<close> reads a
  message of kind \<open>KT\<close>. The encoder and decoder of the third-party package cramberry are
  parameters; what they produce is never looked into, so the type of encoded data is one too.
\<close>

section \<open>wire.go\<close>

record CheckTxRequest =
  cq_Tx :: Tx
  cq_Context :: MempoolContext

datatype CommitRequest = CommitRequest

record ExtendVoteResponse =
  xr_Extension :: byte_slice

record ExtensionVerdictResponse =
  xv_Verdict :: ExtensionVerdict

datatype AvailableSnapshotsRequest = AvailableSnapshotsRequest

record AvailableSnapshotsResponse =
  as_Snapshots :: "SnapshotDescriptor list"

record ExportSnapshotRequest =
  eq_Height :: u64
  eq_Format :: u32

record ImportSnapshotMessage =
  im_Descriptor :: "SnapshotDescriptor option"
  im_Chunk :: "SnapshotChunk option"

record SimulateRequest =
  sq_Tx :: Tx

section \<open>Messages\<close>

datatype message =
    MHandshakeRequest (un_HandshakeRequest: HandshakeRequest)
  | MHandshakeResponse (un_HandshakeResponse: HandshakeResponse)
  | MCheckTxRequest (un_CheckTxRequest: CheckTxRequest)
  | MGateVerdict (un_GateVerdict: GateVerdict)
  | MFinalizedBlock (un_FinalizedBlock: FinalizedBlock)
  | MBlockOutcome (un_BlockOutcome: BlockOutcome)
  | MCommitRequest (un_CommitRequest: CommitRequest)
  | MCommitResult (un_CommitResult: CommitResult)
  | MStateQuery (un_StateQuery: StateQuery)
  | MStateQueryResult (un_StateQueryResult: StateQueryResult)
  | MProposalContext (un_ProposalContext: ProposalContext)
  | MBuiltProposal (un_BuiltProposal: BuiltProposal)
  | MReceivedProposal (un_ReceivedProposal: ReceivedProposal)
  | MProposalVerdict (un_ProposalVerdict: ProposalVerdict)
  | MVoteContext (un_VoteContext: VoteContext)
  | MExtendVoteResponse (un_ExtendVoteResponse: ExtendVoteResponse)
  | MReceivedExtension (un_ReceivedExtension: ReceivedExtension)
  | MExtensionVerdictResponse (un_ExtensionVerdictResponse: ExtensionVerdictResponse)
  | MAvailableSnapshotsRequest (un_AvailableSnapshotsRequest: AvailableSnapshotsRequest)
  | MAvailableSnapshotsResponse (un_AvailableSnapshotsResponse: AvailableSnapshotsResponse)
  | MExportSnapshotRequest (un_ExportSnapshotRequest: ExportSnapshotRequest)
  | MSnapshotChunk (un_SnapshotChunk: SnapshotChunk)
  | MImportSnapshotMessage (un_ImportSnapshotMessage: ImportSnapshotMessage)
  | MImportResult (un_ImportResult: ImportResult)
  | MSimulateRequest (un_SimulateRequest: SimulateRequest)
  | MTxOutcome (un_TxOutcome: TxOutcome)

datatype kind = KHandshakeRequest | KHandshakeResponse | KCheckTxRequest | KGateVerdict
  | KFinalizedBlock | KBlockOutcome | KCommitRequest | KCommitResult | KStateQuery | KStateQueryResult
  | KProposalContext | KBuiltProposal | KReceivedProposal | KProposalVerdict | KVoteContext
  | KExtendVoteResponse | KReceivedExtension | KExtensionVerdictResponse | KAvailableSnapshotsRequest
  | KAvailableSnapshotsResponse | KExportSnapshotRequest | KSnapshotChunk | KImportSnapshotMessage
  | KImportResult | KSimulateRequest | KTxOutcome

fun kind_of :: "message \<Rightarrow> kind" where
  "kind_of (MHandshakeRequest x) = KHandshakeRequest"
| "kind_of (MHandshakeResponse x) = KHandshakeResponse"
| "kind_of (MCheckTxRequest x) = KCheckTxRequest"
| "kind_of (MGateVerdict x) = KGateVerdict"
| "kind_of (MFinalizedBlock x) = KFinalizedBlock"
| "kind_of (MBlockOutcome x) = KBlockOutcome"
| "kind_of (MCommitRequest x) = KCommitRequest"
| "kind_of (MCommitResult x) = KCommitResult"
| "kind_of (MStateQuery x) = KStateQuery"
| "kind_of (MStateQueryResult x) = KStateQueryResult"
| "kind_of (MProposalContext x) = KProposalContext"
| "kind_of (MBuiltProposal x) = KBuiltProposal"
| "kind_of (MReceivedProposal x) = KReceivedProposal"
| "kind_of (MProposalVerdict x) = KProposalVerdict"
| "kind_of (MVoteContext x) = KVoteContext"
| "kind_of (MExtendVoteResponse x) = KExtendVoteResponse"
| "kind_of (MReceivedExtension x) = KReceivedExtension"
| "kind_of (MExtensionVerdictResponse x) = KExtensionVerdictResponse"
| "kind_of (MAvailableSnapshotsRequest x) = KAvailableSnapshotsRequest"
| "kind_of (MAvailableSnapshotsResponse x) = KAvailableSnapshotsResponse"
| "kind_of (MExportSnapshotRequest x) = KExportSnapshotRequest"
| "kind_of (MSnapshotChunk x) = KSnapshotChunk"
| "kind_of (MImportSnapshotMessage x) = KImportSnapshotMessage"
| "kind_of (MImportResult x) = KImportResult"
| "kind_of (MSimulateRequest x) = KSimulateRequest"
| "kind_of (MTxOutcome x) = KTxOutcome"

section \<open>codec.go\<close>

definition codecName :: string where
  "codecName = ''cramberry''"

text \<open>\<open>fmt.Errorf(prefix + ": %w", err)\<close>.\<close>

definition Errorf_w :: "string \<Rightarrow> go_error \<Rightarrow> go_error" where
  "Errorf_w prefix err = Wrapped (prefix @ '': '' @ Error_text err) [err]"

text \<open>The package cramberry: \<open>Marshal\<close>, and \<open>Unmarshal\<close> into a fresh value of a kind.\<close>

record 'd cramberry =
  cram_Marshal :: "message \<Rightarrow> go_error + 'd"
  cram_Unmarshal :: "'d \<Rightarrow> kind \<Rightarrow> go_error + message"

definition CramberryCodec_Marshal :: "'d cramberry \<Rightarrow> message \<Rightarrow> go_error + 'd" where
  "CramberryCodec_Marshal lib v =
     (case cram_Marshal lib v of
        Inl err \<Rightarrow> Inl (Errorf_w ''cramberry marshal'' err)
      | Inr data \<Rightarrow> Inr data)"

definition CramberryCodec_Unmarshal :: "'d cramberry \<Rightarrow> 'd \<Rightarrow> kind \<Rightarrow> go_error + message" where
  "CramberryCodec_Unmarshal lib data k =
     (case cram_Unmarshal lib data k of
        Inl err \<Rightarrow> Inl (Errorf_w ''cramberry unmarshal'' err)
      | Inr v \<Rightarrow> Inr v)"

definition CramberryCodec_Name :: string where
  "CramberryCodec_Name = codecName"

section \<open>What is relied on\<close>

text \<open>
  The contract of cramberry: every message of the service can be encoded, and decoding gives
  it back (the repository's own round-trip tests of \<^verbatim>\<open>types/\<close> exercise exactly this).
\<close>

definition faithful :: "'d cramberry \<Rightarrow> bool" where
  "faithful lib \<longleftrightarrow> (\<forall>v. \<exists>d. cram_Marshal lib v = Inr d \<and> cram_Unmarshal lib d (kind_of v) = Inr v)"

lemma codec_roundtrip:
  assumes "faithful lib"
  obtains d where "CramberryCodec_Marshal lib v = Inr d" and "CramberryCodec_Unmarshal lib d (kind_of v) = Inr v"
  using assms by (auto simp: faithful_def CramberryCodec_Marshal_def CramberryCodec_Unmarshal_def) (metis sum.simps(6))

end
