(* ===== verification/Guard.thy ===== *)
theory Guard
  imports Prelude
begin

text \<open>
  \<^verbatim>\<open>server/state_machine.go\<close>: the \<open>LifecycleGuard\<close>, its state word, its sequential-call mutex
  and its handshake flag, with one definition per method. A method that panics leaves the
  guard as it found it; \<open>Lock\<close> on a held mutex is \<open>Blocked\<close> and \<open>Unlock\<close> of a free
  one is the runtime's fatal error. The theory then gives the guard an abstract reading
  (a \<open>phase\<close>) and states, as the locale \<open>lifecycle_protocol\<close>, the transition law that
  the callers of a guard rely on; the guard of the code is an instance of it.
\<close>

section \<open>Definitions\<close>

type_synonym lifecycleState = u32

definition stateInit :: lifecycleState where "stateInit = 0"
definition stateReady :: lifecycleState where "stateReady = 1"
definition stateExecuting :: lifecycleState where "stateExecuting = 2"
definition stateExecuted :: lifecycleState where "stateExecuted = 3"
definition stateCommitting :: lifecycleState where "stateCommitting = 4"

definition lifecycleState_String :: "lifecycleState \<Rightarrow> string" where
  "lifecycleState_String s =
     (if s = stateInit then ''Init''
      else if s = stateReady then ''Ready''
      else if s = stateExecuting then ''Executing''
      else if s = stateExecuted then ''Executed''
      else if s = stateCommitting then ''Committing''
      else ''unknown('' @ dec_nat (unat s) @ '')'')"

record LifecycleGuard =
  g_state :: lifecycleState
  g_seqMu :: bool
  g_handshakeDone :: bool

definition NewLifecycleGuard :: LifecycleGuard where
  "NewLifecycleGuard = \<lparr>g_state = stateInit, g_seqMu = False, g_handshakeDone = False\<rparr>"

definition LifecycleGuard_State :: "LifecycleGuard \<Rightarrow> string" where
  "LifecycleGuard_State g = lifecycleState_String (g_state g)"

definition seqMu_Lock :: "LifecycleGuard \<Rightarrow> unit go \<times> LifecycleGuard" where
  "seqMu_Lock g = (if g_seqMu g then (Blocked, g) else (Ret (), g\<lparr>g_seqMu := True\<rparr>))"

definition seqMu_Unlock :: "LifecycleGuard \<Rightarrow> unit go \<times> LifecycleGuard" where
  "seqMu_Unlock g =
     (if g_seqMu g then (Ret (), g\<lparr>g_seqMu := False\<rparr>)
      else (Panic ''fatal error: sync: unlock of unlocked mutex'', g))"

definition AcquireHandshake :: "LifecycleGuard \<Rightarrow> unit go \<times> LifecycleGuard" where
  "AcquireHandshake g =
     (if g_state g = stateInit then (Ret (), g\<lparr>g_state := stateReady\<rparr>)
      else (Panic (''github.com/blockberries/bapi: Handshake called in state '' @
              lifecycleState_String (g_state g) @ '' (expected Init)''), g))"

definition CompleteHandshake :: "LifecycleGuard \<Rightarrow> unit go \<times> LifecycleGuard" where
  "CompleteHandshake g = (Ret (), g\<lparr>g_handshakeDone := True\<rparr>)"

definition FailHandshake :: "LifecycleGuard \<Rightarrow> unit go \<times> LifecycleGuard" where
  "FailHandshake g = (Ret (), g\<lparr>g_state := stateInit\<rparr>)"

definition AcquireExecute :: "LifecycleGuard \<Rightarrow> unit go \<times> LifecycleGuard" where
  "AcquireExecute g =
     and_then (seqMu_Lock g) (\<lambda>_ g.
       if g_state g \<noteq> stateReady then
         and_then (seqMu_Unlock g) (\<lambda>_ g.
           (Panic (''github.com/blockberries/bapi: ExecuteBlock called in state '' @
              lifecycleState_String (g_state g) @ '' (expected Ready)''), g))
       else (Ret (), g\<lparr>g_state := stateExecuting\<rparr>))"

definition CompleteExecute :: "LifecycleGuard \<Rightarrow> unit go \<times> LifecycleGuard" where
  "CompleteExecute g = seqMu_Unlock (g\<lparr>g_state := stateExecuted\<rparr>)"

definition FailExecute :: "LifecycleGuard \<Rightarrow> unit go \<times> LifecycleGuard" where
  "FailExecute g = seqMu_Unlock (g\<lparr>g_state := stateReady\<rparr>)"

definition AcquireCommit :: "LifecycleGuard \<Rightarrow> unit go \<times> LifecycleGuard" where
  "AcquireCommit g =
     and_then (seqMu_Lock g) (\<lambda>_ g.
       if g_state g \<noteq> stateExecuted then
         and_then (seqMu_Unlock g) (\<lambda>_ g.
           (Panic (''github.com/blockberries/bapi: Commit called in state '' @
              lifecycleState_String (g_state g) @ '' (expected Executed)''), g))
       else (Ret (), g\<lparr>g_state := stateCommitting\<rparr>))"

definition CompleteCommit :: "LifecycleGuard \<Rightarrow> unit go \<times> LifecycleGuard" where
  "CompleteCommit g = seqMu_Unlock (g\<lparr>g_state := stateReady\<rparr>)"

definition CheckConcurrent :: "LifecycleGuard \<Rightarrow> unit go \<times> LifecycleGuard" where
  "CheckConcurrent g =
     (if \<not> g_handshakeDone g
      then (Panic ''github.com/blockberries/bapi: concurrent call before Handshake completed'', g)
      else (Ret (), g))"

definition IsReady :: "LifecycleGuard \<Rightarrow> bool" where
  "IsReady g \<longleftrightarrow> g_state g = stateReady"

lemmas guard_states = stateInit_def stateReady_def stateExecuting_def stateExecuted_def
  stateCommitting_def

lemmas guard_ops = AcquireHandshake_def CompleteHandshake_def FailHandshake_def
  AcquireExecute_def CompleteExecute_def FailExecute_def AcquireCommit_def CompleteCommit_def
  CheckConcurrent_def seqMu_Lock_def seqMu_Unlock_def

section \<open>The abstract protocol\<close>

text \<open>
  What a guard stands for. \<open>Handshaking\<close> and \<open>Ready\<close> share the state word
  \<open>stateReady\<close> and are told apart by the handshake flag.
\<close>

datatype phase = PInit | PHandshaking | PReady | PExecuting | PExecuted | PCommitting

datatype guard_op = OpAcquireHandshake | OpCompleteHandshake | OpFailHandshake
  | OpAcquireExecute | OpCompleteExecute | OpFailExecute | OpAcquireCommit | OpCompleteCommit

text \<open>The phase in which a caller may issue an operation, and the phase it leads to.\<close>

fun op_source :: "guard_op \<Rightarrow> phase" where
  "op_source OpAcquireHandshake = PInit"
| "op_source OpCompleteHandshake = PHandshaking"
| "op_source OpFailHandshake = PHandshaking"
| "op_source OpAcquireExecute = PReady"
| "op_source OpCompleteExecute = PExecuting"
| "op_source OpFailExecute = PExecuting"
| "op_source OpAcquireCommit = PExecuted"
| "op_source OpCompleteCommit = PCommitting"

fun op_target :: "guard_op \<Rightarrow> phase" where
  "op_target OpAcquireHandshake = PHandshaking"
| "op_target OpCompleteHandshake = PReady"
| "op_target OpFailHandshake = PInit"
| "op_target OpAcquireExecute = PExecuting"
| "op_target OpCompleteExecute = PExecuted"
| "op_target OpFailExecute = PReady"
| "op_target OpAcquireCommit = PCommitting"
| "op_target OpCompleteCommit = PReady"

fun is_acquire :: "guard_op \<Rightarrow> bool" where
  "is_acquire OpAcquireHandshake = True"
| "is_acquire OpAcquireExecute = True"
| "is_acquire OpAcquireCommit = True"
| "is_acquire _ = False"

text \<open>A phase between two calls of the engine: no call is running.\<close>

fun quiescent :: "phase \<Rightarrow> bool" where
  "quiescent PInit = True"
| "quiescent PReady = True"
| "quiescent PExecuted = True"
| "quiescent _ = False"

fun guard_do :: "guard_op \<Rightarrow> LifecycleGuard \<Rightarrow> unit go \<times> LifecycleGuard" where
  "guard_do OpAcquireHandshake = AcquireHandshake"
| "guard_do OpCompleteHandshake = CompleteHandshake"
| "guard_do OpFailHandshake = FailHandshake"
| "guard_do OpAcquireExecute = AcquireExecute"
| "guard_do OpCompleteExecute = CompleteExecute"
| "guard_do OpFailExecute = FailExecute"
| "guard_do OpAcquireCommit = AcquireCommit"
| "guard_do OpCompleteCommit = CompleteCommit"

definition phase_of :: "LifecycleGuard \<Rightarrow> phase" where
  "phase_of g =
     (if g_state g = stateInit then PInit
      else if g_state g = stateReady then (if g_handshakeDone g then PReady else PHandshaking)
      else if g_state g = stateExecuting then PExecuting
      else if g_state g = stateExecuted then PExecuted
      else PCommitting)"

text \<open>
  The mutex is held exactly while a block executes or commits, the handshake flag is set
  exactly from the end of the handshake on, and the state word is one of the five.
\<close>

definition guard_invar :: "LifecycleGuard \<Rightarrow> bool" where
  "guard_invar g \<longleftrightarrow>
     g_state g \<in> {stateInit, stateReady, stateExecuting, stateExecuted, stateCommitting} \<and>
     (g_seqMu g \<longleftrightarrow> phase_of g \<in> {PExecuting, PCommitting}) \<and>
     (g_handshakeDone g \<longleftrightarrow> phase_of g \<notin> {PInit, PHandshaking})"

text \<open>Runs of operations, and the phases they go through.\<close>

fun run_ops :: "(guard_op \<Rightarrow> 'g \<Rightarrow> unit go \<times> 'g) \<Rightarrow> guard_op list \<Rightarrow> 'g \<Rightarrow> unit go \<times> 'g" where
  "run_ops f [] g = (Ret (), g)"
| "run_ops f (c # cs) g = and_then (f c g) (\<lambda>_ g. run_ops f cs g)"

fun legal_from :: "phase \<Rightarrow> guard_op list \<Rightarrow> bool" where
  "legal_from p [] = True"
| "legal_from p (c # cs) = (p = op_source c \<and> legal_from (op_target c) cs)"

fun final_phase :: "phase \<Rightarrow> guard_op list \<Rightarrow> phase" where
  "final_phase p [] = p"
| "final_phase p (c # cs) = final_phase (op_target c) cs"

text \<open>
  The interface a caller of a guard uses: issuing an operation in its source phase leads
  to its target phase; acquiring in any other quiescent phase panics and changes nothing;
  acquiring a sequential call while one runs blocks; the concurrent calls are open exactly
  from the end of the handshake on.
\<close>

locale lifecycle_protocol =
  fixes do_op :: "guard_op \<Rightarrow> 'g \<Rightarrow> unit go \<times> 'g"
    and check :: "'g \<Rightarrow> unit go \<times> 'g"
    and phase :: "'g \<Rightarrow> phase"
    and invar :: "'g \<Rightarrow> bool"
    and init :: 'g
  assumes init_invar: "invar init"
    and init_phase: "phase init = PInit"
    and op_ok: "invar g \<Longrightarrow> phase g = op_source c \<Longrightarrow>
          \<exists>g'. do_op c g = (Ret (), g') \<and> invar g' \<and> phase g' = op_target c"
    and acquire_refused: "invar g \<Longrightarrow> quiescent (phase g) \<Longrightarrow> is_acquire c \<Longrightarrow>
          phase g \<noteq> op_source c \<Longrightarrow> \<exists>m. do_op c g = (Panic m, g)"
    and acquire_blocks: "invar g \<Longrightarrow> phase g \<in> {PExecuting, PCommitting} \<Longrightarrow>
          c \<in> {OpAcquireExecute, OpAcquireCommit} \<Longrightarrow> do_op c g = (Blocked, g)"
    and check_open: "invar g \<Longrightarrow> phase g \<notin> {PInit, PHandshaking} \<Longrightarrow> check g = (Ret (), g)"
    and check_closed: "invar g \<Longrightarrow> phase g \<in> {PInit, PHandshaking} \<Longrightarrow> \<exists>m. check g = (Panic m, g)"
begin

lemma legal_run:
  assumes "invar g" and "legal_from (phase g) cs"
  shows "\<exists>g'. run_ops do_op cs g = (Ret (), g') \<and> invar g' \<and> phase g' = final_phase (phase g) cs"
  using assms
proof (induction cs arbitrary: g)
  case Nil
  then show ?case by simp
next
  case (Cons c cs)
  then obtain g1 where g1: "do_op c g = (Ret (), g1)" "invar g1" "phase g1 = op_target c"
    using op_ok [of g c] by auto
  then show ?case using Cons.IH [of g1] Cons.prems by auto
qed

text \<open>Whatever an acquire returns, it keeps the invariant.\<close>

lemma acquire_invar:
  assumes "invar g" and "quiescent (phase g)" and "is_acquire c" and "do_op c g = (r, g')"
  shows "invar g' \<and> (r = Ret () \<longleftrightarrow> phase g = op_source c)"
  using assms op_ok [of g c] acquire_refused [of g c] by (cases "phase g = op_source c") auto

lemma check_iff:
  assumes "invar g"
  shows "check g = (Ret (), g) \<longleftrightarrow> phase g \<notin> {PInit, PHandshaking}"
  using assms check_open [of g] check_closed [of g] by (cases "phase g \<in> {PInit, PHandshaking}") auto

end

section \<open>The guard of the code is an instance\<close>

lemma guard_op_ok:
  assumes "guard_invar g" and "phase_of g = op_source c"
  shows "\<exists>g'. guard_do c g = (Ret (), g') \<and> guard_invar g' \<and> phase_of g' = op_target c"
  using assms
  by (cases c) (auto simp: guard_invar_def phase_of_def guard_ops guard_states split: if_splits)

lemma guard_acquire_refused:
  assumes "guard_invar g" and "quiescent (phase_of g)" and "is_acquire c"
    and "phase_of g \<noteq> op_source c"
  shows "\<exists>m. guard_do c g = (Panic m, g)"
  using assms
  by (cases c) (auto simp: guard_invar_def phase_of_def guard_ops guard_states split: if_splits)

lemma guard_acquire_blocks:
  assumes "guard_invar g" and "phase_of g \<in> {PExecuting, PCommitting}"
    and "c \<in> {OpAcquireExecute, OpAcquireCommit}"
  shows "guard_do c g = (Blocked, g)"
  using assms by (auto simp: guard_invar_def guard_ops)

lemma guard_new: "guard_invar NewLifecycleGuard" "phase_of NewLifecycleGuard = PInit"
  by (simp_all add: guard_invar_def phase_of_def NewLifecycleGuard_def)

lemma guard_check_open:
  "guard_invar g \<Longrightarrow> phase_of g \<notin> {PInit, PHandshaking} \<Longrightarrow> CheckConcurrent g = (Ret (), g)"
  by (simp add: guard_invar_def CheckConcurrent_def)

lemma guard_check_closed:
  "guard_invar g \<Longrightarrow> phase_of g \<in> {PInit, PHandshaking} \<Longrightarrow> \<exists>m. CheckConcurrent g = (Panic m, g)"
  by (simp add: guard_invar_def CheckConcurrent_def)

interpretation lg: lifecycle_protocol guard_do CheckConcurrent phase_of guard_invar NewLifecycleGuard
  by unfold_locales
    (assumption | rule guard_new guard_op_ok guard_acquire_refused guard_acquire_blocks
       guard_check_open guard_check_closed)+

section \<open>Properties\<close>

text \<open>
  The guard lets a lifecycle run: from a fresh guard any sequence of operations that
  follows the phases (handshake, failed handshake and retry, execute, failed execute and
  retry, commit, and so on, for any number of blocks) returns at every step, keeps the
  guard's invariant and ends in the phase the sequence leads to.
\<close>

theorem guard_legal_runs:
  assumes "legal_from PInit cs"
  shows "\<exists>g. run_ops guard_do cs NewLifecycleGuard = (Ret (), g) \<and> guard_invar g \<and>
           phase_of g = final_phase PInit cs"
  using lg.legal_run [OF lg.init_invar, of cs] assms lg.init_phase by simp

theorem guard_legal_runs_witness:
  "\<exists>g. run_ops guard_do [OpAcquireHandshake, OpFailHandshake, OpAcquireHandshake, OpCompleteHandshake,
          OpAcquireExecute, OpFailExecute, OpAcquireExecute, OpCompleteExecute, OpAcquireCommit,
          OpCompleteCommit, OpAcquireExecute] NewLifecycleGuard = (Ret (), g) \<and> guard_invar g \<and>
        phase_of g = PExecuting"
  using guard_legal_runs [of "[OpAcquireHandshake, OpFailHandshake, OpAcquireHandshake, OpCompleteHandshake,
          OpAcquireExecute, OpFailExecute, OpAcquireExecute, OpCompleteExecute, OpAcquireCommit,
          OpCompleteCommit, OpAcquireExecute]"] by simp

text \<open>
  C15. What the guard refuses: in every phase, also while a call is running, an acquire
  operation succeeds exactly in its own phase, and a refused one (by a panic, or by waiting)
  changes nothing. There is one exception: because \<open>AcquireHandshake\<close> already moves the
  state word to ready, \<open>AcquireExecute\<close> is also let through while the handshake is still
  running.
\<close>

theorem guard_acquire_iff:
  assumes "guard_invar g" and "is_acquire c"
  shows "(fst (guard_do c g) = Ret () \<longleftrightarrow>
            phase_of g = op_source c \<or> (c = OpAcquireExecute \<and> phase_of g = PHandshaking)) \<and>
         (fst (guard_do c g) \<noteq> Ret () \<longrightarrow> snd (guard_do c g) = g)"
  using assms by (cases c) (auto simp: guard_invar_def phase_of_def guard_ops guard_states split: if_splits)

theorem guard_acquire_iff_witness:
  "fst (AcquireExecute \<lparr>g_state = stateReady, g_seqMu = False, g_handshakeDone = False\<rparr>) = Ret ()"
  using guard_acquire_iff [of "\<lparr>g_state = stateReady, g_seqMu = False, g_handshakeDone = False\<rparr>" OpAcquireExecute]
  by (simp add: guard_invar_def phase_of_def guard_states)

end
