(* ===== verification/Server.thy ===== *)
theory Server
  imports Interfaces Guard
begin

text \<open>
  \<^verbatim>\<open>server/server.go\<close>: the wrapper through which the engine reaches an application. Its
  state is the method table and state of the application, the guard, the declared
  capabilities, the optional interfaces found at construction, and the outcome held between
  \<open>ExecuteBlock\<close> and \<open>Commit\<close>; what \<open>log.Println\<close> prints is collected in \<open>s_log\<close>.
  Each method is run from its call to its return; the theory \<open>Concurrency\<close> interleaves the
  steps of concurrent calls. The mutex \<open>s.mu\<close> protects single assignments only
  and is never held across a call, so it does not show here.
\<close>

section \<open>Definitions\<close>

record 'a Server =
  s_app :: "'a Lifecycle"
  s_state :: 'a
  s_guard :: LifecycleGuard
  s_caps :: Capabilities
  s_proposalCtl :: "'a ProposalControl option"
  s_voteExt :: "'a VoteExtender option"
  s_stateSync :: "'a StateSync option"
  s_simulator :: "'a Simulator option"
  s_mempoolObs :: "'a MempoolObserver option"
  s_lastOutcome :: "BlockOutcome option"
  s_lastExecHeight :: u64
  s_log :: "string list"

definition New :: "'a Lifecycle \<Rightarrow> 'a \<Rightarrow> 'a Server" where
  "New app a = \<lparr>s_app = app, s_state = a, s_guard = NewLifecycleGuard, s_caps = 0,
     s_proposalCtl = as_ProposalControl app, s_voteExt = as_VoteExtender app,
     s_stateSync = as_StateSync app, s_simulator = as_Simulator app,
     s_mempoolObs = as_MempoolObserver app,
     s_lastOutcome = None, s_lastExecHeight = 0, s_log = []\<rparr>"

text \<open>Calling a method of the guard or of the application from a method of the server.\<close>

definition with_guard ::
  "(LifecycleGuard \<Rightarrow> unit go \<times> LifecycleGuard) \<Rightarrow> 'a Server \<Rightarrow> unit go \<times> 'a Server" where
  "with_guard f s = (case f (s_guard s) of (r, g) \<Rightarrow> (r, s\<lparr>s_guard := g\<rparr>))"

definition call :: "('a, 'r) meth \<Rightarrow> ('a Server, 'r) meth" where
  "call m s = (case m (s_state s) of (r, a) \<Rightarrow> (r, s\<lparr>s_state := a\<rparr>))"

definition discoverCapabilities ::
  "'a Lifecycle \<Rightarrow> Capabilities \<Rightarrow> go_error option \<times> string list" where
  "discoverCapabilities app declared =
     (let hasProposal = as_ProposalControl app \<noteq> None;
          hasVoteExt = as_VoteExtender app \<noteq> None;
          hasStateSync = as_StateSync app \<noteq> None;
          hasSimulator = as_Simulator app \<noteq> None;
          hasMempoolObs = as_MempoolObserver app \<noteq> None
      in
      if Capabilities_Has declared CapProposalControl \<and> \<not> hasProposal then
        (Some (ErrorString ''github.com/blockberries/bapi: app declared CapProposalControl but does not implement ProposalControl''), [])
      else if Capabilities_Has declared CapVoteExtensions \<and> \<not> hasVoteExt then
        (Some (ErrorString ''github.com/blockberries/bapi: app declared CapVoteExtensions but does not implement VoteExtender''), [])
      else if Capabilities_Has declared CapStateSync \<and> \<not> hasStateSync then
        (Some (ErrorString ''github.com/blockberries/bapi: app declared CapStateSync but does not implement StateSync''), [])
      else if Capabilities_Has declared CapSimulation \<and> \<not> hasSimulator then
        (Some (ErrorString ''github.com/blockberries/bapi: app declared CapSimulation but does not implement Simulator''), [])
      else if Capabilities_Has declared CapMempoolObserver \<and> \<not> hasMempoolObs then
        (Some (ErrorString ''github.com/blockberries/bapi: app declared CapMempoolObserver but does not implement MempoolObserver''), [])
      else
        (None,
          (if \<not> Capabilities_Has declared CapProposalControl \<and> hasProposal then
             [''github.com/blockberries/bapi: WARNING: app implements ProposalControl but did not declare it; capability will not be used''] else []) @
          (if \<not> Capabilities_Has declared CapVoteExtensions \<and> hasVoteExt then
             [''github.com/blockberries/bapi: WARNING: app implements VoteExtender but did not declare it; capability will not be used''] else []) @
          (if \<not> Capabilities_Has declared CapStateSync \<and> hasStateSync then
             [''github.com/blockberries/bapi: WARNING: app implements StateSync but did not declare it; capability will not be used''] else []) @
          (if \<not> Capabilities_Has declared CapMempoolObserver \<and> hasMempoolObs then
             [''github.com/blockberries/bapi: WARNING: app implements MempoolObserver but did not declare it; capability will not be used''] else []) @
          (if \<not> Capabilities_Has declared CapSimulation \<and> hasSimulator then
             [''github.com/blockberries/bapi: WARNING: app implements Simulator but did not declare it; capability will not be used''] else [])))"

definition Handshake :: "HandshakeRequest \<Rightarrow> ('a Server, HandshakeResponse) meth" where
  "Handshake req s =
     and_then (with_guard AcquireHandshake s) (\<lambda>_ s.
     and_then (call (m_Handshake (s_app s) req) s) (\<lambda>(resp, err) s.
       case err of
         Some e \<Rightarrow> and_then (with_guard FailHandshake s) (\<lambda>_ s. (Ret (resp, Some e), s))
       | None \<Rightarrow>
           (case discoverCapabilities (s_app s) (hr_Capabilities resp) of
              (Some e, _) \<Rightarrow> and_then (with_guard FailHandshake s) (\<lambda>_ s. (Ret (resp, Some e), s))
            | (None, warnings) \<Rightarrow>
                and_then (with_guard CompleteHandshake
                    (s\<lparr>s_caps := hr_Capabilities resp, s_log := s_log s @ warnings\<rparr>))
                  (\<lambda>_ s. (Ret (resp, None), s)))))"

definition CheckTx :: "Tx \<Rightarrow> MempoolContext \<Rightarrow> ('a Server, GateVerdict) meth" where
  "CheckTx tx mctx s =
     and_then (with_guard CheckConcurrent s) (\<lambda>_ s. call (m_CheckTx (s_app s) tx mctx) s)"

definition ExecuteBlock :: "FinalizedBlock \<Rightarrow> ('a Server, BlockOutcome) meth" where
  "ExecuteBlock block s =
     and_then (with_guard AcquireExecute s) (\<lambda>_ s.
     and_then (call (m_ExecuteBlock (s_app s) block) s) (\<lambda>(outcome, err) s.
       case err of
         Some e \<Rightarrow> and_then (with_guard FailExecute s) (\<lambda>_ s. (Ret (outcome, Some e), s))
       | None \<Rightarrow>
           and_then (with_guard CompleteExecute
               (s\<lparr>s_lastOutcome := Some outcome, s_lastExecHeight := fb_Height block\<rparr>))
             (\<lambda>_ s. (Ret (outcome, None), s))))"

definition Commit :: "('a Server, CommitResult) meth" where
  "Commit s =
     and_then (with_guard AcquireCommit s) (\<lambda>_ s.
     and_then (call (m_Commit (s_app s)) s) (\<lambda>(result, err) s.
     and_then (with_guard CompleteCommit (s\<lparr>s_lastOutcome := None\<rparr>)) (\<lambda>_ s.
       (Ret (result, err), s))))"

definition Query :: "StateQuery \<Rightarrow> ('a Server, StateQueryResult) meth" where
  "Query req s =
     and_then (with_guard CheckConcurrent s) (\<lambda>_ s. call (m_Query (s_app s) req) s)"

definition Server_Capabilities :: "'a Server \<Rightarrow> Capabilities" where
  "Server_Capabilities s = s_caps s"

subsection \<open>Capability-gated methods\<close>

definition BuildProposal :: "ProposalContext \<Rightarrow> ('a Server, BuiltProposal) meth" where
  "BuildProposal pctx s =
     (case s_proposalCtl s of
        None \<Rightarrow> (Ret (\<lparr>bp_Txs = []\<rparr>,
                  Some (ErrorString ''github.com/blockberries/bapi: ProposalControl not supported'')), s)
      | Some p \<Rightarrow> call (m_BuildProposal p pctx) s)"

definition VerifyProposal :: "ReceivedProposal \<Rightarrow> ('a Server, ProposalVerdict) meth" where
  "VerifyProposal prop s =
     (case s_proposalCtl s of
        None \<Rightarrow> (Ret (\<lparr>pv_Accept = True, pv_RejectReason = []\<rparr>, None), s)
      | Some p \<Rightarrow> call (m_VerifyProposal p prop) s)"

definition ExtendVote :: "VoteContext \<Rightarrow> ('a Server, byte_slice) meth" where
  "ExtendVote vctx s =
     (case s_voteExt s of
        None \<Rightarrow> (Ret ([], Some (ErrorString ''github.com/blockberries/bapi: VoteExtender not supported'')), s)
      | Some v \<Rightarrow> call (m_ExtendVote v vctx) s)"

definition VerifyExtension :: "ReceivedExtension \<Rightarrow> ('a Server, ExtensionVerdict) meth" where
  "VerifyExtension ext s =
     (case s_voteExt s of
        None \<Rightarrow> (Ret (ExtensionAccept, None), s)
      | Some v \<Rightarrow> call (m_VerifyExtension v ext) s)"

definition AvailableSnapshots :: "('a Server, SnapshotDescriptor list) meth" where
  "AvailableSnapshots s =
     (case s_stateSync s of
        None \<Rightarrow> (Ret ([], Some (ErrorString ''github.com/blockberries/bapi: StateSync not supported'')), s)
      | Some y \<Rightarrow> call (m_AvailableSnapshots y) s)"

definition ExportSnapshot ::
  "u64 \<Rightarrow> u32 \<Rightarrow> ('a Server, chunk_chan option \<times> SnapshotDescriptor option) meth" where
  "ExportSnapshot height format s =
     (case s_stateSync s of
        None \<Rightarrow> (Ret ((None, None), Some (ErrorString ''github.com/blockberries/bapi: StateSync not supported'')), s)
      | Some y \<Rightarrow> call (m_ExportSnapshot y height format) s)"

definition ImportSnapshot ::
  "SnapshotDescriptor \<Rightarrow> chunk_chan \<Rightarrow> ('a Server, ImportResult) meth" where
  "ImportSnapshot desc chunks s =
     (case s_stateSync s of
        None \<Rightarrow> (Ret (zero_ImportResult, Some (ErrorString ''github.com/blockberries/bapi: StateSync not supported'')), s)
      | Some y \<Rightarrow> call (m_ImportSnapshot y desc chunks) s)"

definition Simulate :: "Tx \<Rightarrow> ('a Server, TxOutcome) meth" where
  "Simulate tx s =
     (case s_simulator s of
        None \<Rightarrow> (Ret (zero_TxOutcome, Some (ErrorString ''github.com/blockberries/bapi: Simulator not supported'')), s)
      | Some m \<Rightarrow>
          and_then (with_guard CheckConcurrent s) (\<lambda>_ s. call (m_Simulate m tx) s))"

definition AsProposalControl :: "'a Server \<Rightarrow> 'a ProposalControl option" where
  "AsProposalControl s = (if Capabilities_Has (s_caps s) CapProposalControl then s_proposalCtl s else None)"

definition AsVoteExtender :: "'a Server \<Rightarrow> 'a VoteExtender option" where
  "AsVoteExtender s = (if Capabilities_Has (s_caps s) CapVoteExtensions then s_voteExt s else None)"

definition AsStateSync :: "'a Server \<Rightarrow> 'a StateSync option" where
  "AsStateSync s = (if Capabilities_Has (s_caps s) CapStateSync then s_stateSync s else None)"

definition AsSimulator :: "'a Server \<Rightarrow> 'a Simulator option" where
  "AsSimulator s = (if Capabilities_Has (s_caps s) CapSimulation then s_simulator s else None)"

definition AsMempoolObserver :: "'a Server \<Rightarrow> 'a MempoolObserver option" where
  "AsMempoolObserver s = (if Capabilities_Has (s_caps s) CapMempoolObserver then s_mempoolObs s else None)"

definition OnBatchCertified :: "BatchCertifiedEvent \<Rightarrow> ('a Server, unit) meth" where
  "OnBatchCertified ev s =
     (if \<not> Capabilities_Has (s_caps s) CapMempoolObserver then (Ret ((), None), s)
      else case s_mempoolObs s of
             None \<Rightarrow> (Ret ((), None), s)
           | Some m \<Rightarrow>
               and_then (with_guard CheckConcurrent s) (\<lambda>_ s. call (m_OnBatchCertified m ev) s))"

definition OnBlockConstructed :: "BlockConstructedEvent \<Rightarrow> ('a Server, unit) meth" where
  "OnBlockConstructed ev s =
     (if \<not> Capabilities_Has (s_caps s) CapMempoolObserver then (Ret ((), None), s)
      else case s_mempoolObs s of
             None \<Rightarrow> (Ret ((), None), s)
           | Some m \<Rightarrow>
               and_then (with_guard CheckConcurrent s) (\<lambda>_ s. call (m_OnBlockConstructed m ev) s))"

definition LastOutcome :: "'a Server \<Rightarrow> BlockOutcome option" where
  "LastOutcome s = s_lastOutcome s"

definition Close :: "'a Server \<Rightarrow> go_error option" where
  "Close s = None"

section \<open>Invariant\<close>

text \<open>
  The guard is in one of its phases, the outcome is held exactly from a successful
  \<open>ExecuteBlock\<close> to the end of its \<open>Commit\<close>, no capability is declared before the
  handshake is over, every declared one is implemented, and the optional interfaces are
  the application's own.
\<close>

abbreviation server_phase :: "'a Server \<Rightarrow> phase" where
  "server_phase s \<equiv> phase_of (s_guard s)"

definition server_invar :: "'a Server \<Rightarrow> bool" where
  "server_invar s \<longleftrightarrow>
     guard_invar (s_guard s) \<and>
     (s_lastOutcome s \<noteq> None \<longleftrightarrow> server_phase s \<in> {PExecuted, PCommitting}) \<and>
     (server_phase s \<in> {PInit, PHandshaking} \<longrightarrow> s_caps s = 0) \<and>
     fst (discoverCapabilities (s_app s) (s_caps s)) = None \<and>
     s_proposalCtl s = as_ProposalControl (s_app s) \<and> s_voteExt s = as_VoteExtender (s_app s) \<and>
     s_stateSync s = as_StateSync (s_app s) \<and> s_simulator s = as_Simulator (s_app s) \<and>
     s_mempoolObs s = as_MempoolObserver (s_app s)"

lemma caps_none [simp]: "\<not> Capabilities_Has 0 CapProposalControl" "\<not> Capabilities_Has 0 CapVoteExtensions"
  "\<not> Capabilities_Has 0 CapStateSync" "\<not> Capabilities_Has 0 CapSimulation"
  "\<not> Capabilities_Has 0 CapMempoolObserver"
  by (simp_all add: Capabilities_Has_def CapProposalControl_def CapVoteExtensions_def
      CapStateSync_def CapSimulation_def CapMempoolObserver_def)

lemma discover_none [simp]: "fst (discoverCapabilities app 0) = None"
  by (simp add: discoverCapabilities_def)

lemma New_invar: "server_invar (New app a)" "server_phase (New app a) = PInit"
  using lg.init_invar lg.init_phase by (simp_all add: server_invar_def New_def)

text \<open>What a guard operation does to a server.\<close>

lemma with_guard_ok:
  assumes "guard_invar (s_guard s)" and "server_phase s = op_source c"
  obtains g where "with_guard (guard_do c) s = (Ret (), s\<lparr>s_guard := g\<rparr>)"
    and "guard_invar g" and "phase_of g = op_target c"
  using lg.op_ok [OF assms] by (auto simp: with_guard_def)

lemma with_guard_refused:
  assumes "guard_invar (s_guard s)" and "quiescent (server_phase s)" and "is_acquire c"
    and "server_phase s \<noteq> op_source c"
  obtains m where "with_guard (guard_do c) s = (Panic m, s)"
  using lg.acquire_refused [OF assms] by (auto simp: with_guard_def)

lemma with_guard_blocks:
  assumes "guard_invar (s_guard s)" and "server_phase s \<in> {PExecuting, PCommitting}"
    and "c \<in> {OpAcquireExecute, OpAcquireCommit}"
  shows "with_guard (guard_do c) s = (Blocked, s)"
  using lg.acquire_blocks [OF assms] by (simp add: with_guard_def)

lemma with_check:
  assumes "guard_invar (s_guard s)"
  shows "server_phase s \<notin> {PInit, PHandshaking} \<Longrightarrow> with_guard CheckConcurrent s = (Ret (), s)"
    and "server_phase s \<in> {PInit, PHandshaking} \<Longrightarrow> \<exists>m. with_guard CheckConcurrent s = (Panic m, s)"
  using lg.check_open [OF assms] lg.check_closed [OF assms] by (auto simp: with_guard_def)

text \<open>A successful handshake, with what it leaves behind.\<close>

lemma Handshake_ok:
  assumes inv: "server_invar s" and ph: "server_phase s = PInit"
    and app: "m_Handshake (s_app s) req (s_state s) = (Ret (resp, None), a)"
    and disc: "discoverCapabilities (s_app s) (hr_Capabilities resp) = (None, w)"
  obtains g where "Handshake req s = (Ret (resp, None),
      s\<lparr>s_state := a, s_guard := g, s_caps := hr_Capabilities resp, s_log := s_log s @ w\<rparr>)"
    and "guard_invar g" and "phase_of g = PReady"
proof -
  have gi: "guard_invar (s_guard s)" using inv by (simp add: server_invar_def)
  obtain g1 where g1: "AcquireHandshake (s_guard s) = (Ret (), g1)" "guard_invar g1" "phase_of g1 = PHandshaking"
    using lg.op_ok [OF gi, of OpAcquireHandshake] ph by auto
  obtain g2 where g2: "CompleteHandshake g1 = (Ret (), g2)" "guard_invar g2" "phase_of g2 = PReady"
    using lg.op_ok [OF g1(2), of OpCompleteHandshake] g1(3) by auto
  show ?thesis
    by (rule that [of g2]) (use g1 g2 app disc in \<open>simp_all add: Handshake_def with_guard_def call_def\<close>)
qed

section \<open>What each method does\<close>

lemma Handshake_refused:
  assumes "server_invar s" and "server_phase s \<noteq> PInit"
  shows "\<exists>m. Handshake req s = (Panic m, s)"
  using assms by (auto simp: server_invar_def Handshake_def with_guard_def AcquireHandshake_def phase_of_def)

lemma Handshake_failed:
  assumes inv: "server_invar s" and ph: "server_phase s = PInit"
    and app: "m_Handshake (s_app s) req (s_state s) = (Ret (resp, err), a)"
    and fail: "(case err of Some e' \<Rightarrow> Some e' | None \<Rightarrow> fst (discoverCapabilities (s_app s) (hr_Capabilities resp))) = Some e"
  shows "Handshake req s = (Ret (resp, Some e), s\<lparr>s_state := a\<rparr>)"
proof -
  have "s_guard s = NewLifecycleGuard"
    using inv ph by (auto simp: server_invar_def guard_invar_def phase_of_def NewLifecycleGuard_def split: if_splits)
  then show ?thesis using app fail
    by (auto simp: Handshake_def with_guard_def call_def guard_ops NewLifecycleGuard_def guard_states
        split: option.splits prod.splits)
qed

lemma ExecuteBlock_ready:
  assumes inv: "server_invar s" and ph: "server_phase s = PReady"
    and app: "m_ExecuteBlock (s_app s) b (s_state s) = (r, a)"
  obtains (ok) out g where "r = Ret (out, None)" "guard_invar g" "phase_of g = PExecuted"
      "ExecuteBlock b s = (Ret (out, None), s\<lparr>s_state := a, s_guard := g,
         s_lastOutcome := Some out, s_lastExecHeight := fb_Height b\<rparr>)"
  | (err) out e g where "r = Ret (out, Some e)" "guard_invar g" "phase_of g = PReady"
      "ExecuteBlock b s = (Ret (out, Some e), s\<lparr>s_state := a, s_guard := g\<rparr>)"
  | (stuck) q g where "\<not> returns r" "\<not> returns q" "guard_invar g" "phase_of g = PExecuting"
      "ExecuteBlock b s = (q, s\<lparr>s_state := a, s_guard := g\<rparr>)"
proof -
  have gi: "guard_invar (s_guard s)" using inv by (simp add: server_invar_def)
  obtain g1 where g1: "AcquireExecute (s_guard s) = (Ret (), g1)" "guard_invar g1" "phase_of g1 = PExecuting"
    using lg.op_ok [OF gi, of OpAcquireExecute] ph by auto
  obtain g2 where g2: "CompleteExecute g1 = (Ret (), g2)" "guard_invar g2" "phase_of g2 = PExecuted"
    using lg.op_ok [OF g1(2), of OpCompleteExecute] g1(3) by auto
  obtain g3 where g3: "FailExecute g1 = (Ret (), g3)" "guard_invar g3" "phase_of g3 = PReady"
    using lg.op_ok [OF g1(2), of OpFailExecute] g1(3) by auto
  note unf = ExecuteBlock_def with_guard_def call_def
  show ?thesis
  proof (cases r)
    case (Ret x)
    then show ?thesis
      by (cases x; cases "snd x")
        (use g1 g2 g3 app ok err in \<open>auto simp: unf\<close>)
  qed (use g1 app stuck in \<open>auto simp: unf\<close>)
qed

lemma Commit_executed:
  assumes inv: "server_invar s" and ph: "server_phase s = PExecuted"
    and app: "m_Commit (s_app s) (s_state s) = (r, a)"
  obtains (finished) res err g where "r = Ret (res, err)" "guard_invar g" "phase_of g = PReady"
      "Commit s = (Ret (res, err), s\<lparr>s_state := a, s_guard := g, s_lastOutcome := None\<rparr>)"
  | (stuck) q g where "\<not> returns r" "\<not> returns q" "guard_invar g" "phase_of g = PCommitting"
      "Commit s = (q, s\<lparr>s_state := a, s_guard := g\<rparr>)"
proof -
  have gi: "guard_invar (s_guard s)" using inv by (simp add: server_invar_def)
  obtain g1 where g1: "AcquireCommit (s_guard s) = (Ret (), g1)" "guard_invar g1" "phase_of g1 = PCommitting"
    using lg.op_ok [OF gi, of OpAcquireCommit] ph by auto
  obtain g2 where g2: "CompleteCommit g1 = (Ret (), g2)" "guard_invar g2" "phase_of g2 = PReady"
    using lg.op_ok [OF g1(2), of OpCompleteCommit] g1(3) by auto
  note unf = Commit_def with_guard_def call_def
  show ?thesis
  proof (cases r)
    case (Ret x)
    then show ?thesis by (cases x) (use g1 g2 app finished in \<open>auto simp: unf\<close>)
  qed (use g1 app stuck in \<open>auto simp: unf\<close>)
qed

lemma ExecuteBlock_refused:
  assumes "server_invar s" and "quiescent (server_phase s)" and "server_phase s \<noteq> PReady"
  shows "\<exists>m. ExecuteBlock b s = (Panic m, s)"
  by (rule with_guard_refused [of s OpAcquireExecute]) (use assms in \<open>auto simp: ExecuteBlock_def server_invar_def\<close>)

lemma Commit_refused:
  assumes "server_invar s" and "quiescent (server_phase s)" and "server_phase s \<noteq> PExecuted"
  shows "\<exists>m. Commit s = (Panic m, s)"
  by (rule with_guard_refused [of s OpAcquireCommit]) (use assms in \<open>auto simp: Commit_def server_invar_def\<close>)

lemma sequential_blocked:
  assumes "server_invar s" and "server_phase s \<in> {PExecuting, PCommitting}"
  shows "ExecuteBlock b s = (Blocked, s)" and "Commit s = (Blocked, s)"
  using assms with_guard_blocks [of s OpAcquireExecute] with_guard_blocks [of s OpAcquireCommit]
  by (auto simp: ExecuteBlock_def Commit_def server_invar_def)

lemma discover_ok_iff:
  "fst (discoverCapabilities app c) = None \<longleftrightarrow>
     (Capabilities_Has c CapProposalControl \<longrightarrow> as_ProposalControl app \<noteq> None) \<and>
     (Capabilities_Has c CapVoteExtensions \<longrightarrow> as_VoteExtender app \<noteq> None) \<and>
     (Capabilities_Has c CapStateSync \<longrightarrow> as_StateSync app \<noteq> None) \<and>
     (Capabilities_Has c CapSimulation \<longrightarrow> as_Simulator app \<noteq> None) \<and>
     (Capabilities_Has c CapMempoolObserver \<longrightarrow> as_MempoolObserver app \<noteq> None)"
  by (auto simp: discoverCapabilities_def Let_def)

lemma accessors_exact:
  assumes "server_invar s"
  shows "AsProposalControl s \<noteq> None \<longleftrightarrow> Capabilities_Has (Server_Capabilities s) CapProposalControl"
    and "AsVoteExtender s \<noteq> None \<longleftrightarrow> Capabilities_Has (Server_Capabilities s) CapVoteExtensions"
    and "AsStateSync s \<noteq> None \<longleftrightarrow> Capabilities_Has (Server_Capabilities s) CapStateSync"
    and "AsSimulator s \<noteq> None \<longleftrightarrow> Capabilities_Has (Server_Capabilities s) CapSimulation"
    and "AsMempoolObserver s \<noteq> None \<longleftrightarrow> Capabilities_Has (Server_Capabilities s) CapMempoolObserver"
  using assms
  by (auto simp: server_invar_def discover_ok_iff AsProposalControl_def AsVoteExtender_def
      AsStateSync_def AsSimulator_def AsMempoolObserver_def Server_Capabilities_def)

text \<open>The invariant is kept by every method, for any application that returns from its handshake.\<close>

lemma server_invar_call: "server_invar s \<Longrightarrow> server_invar (snd (call m s))"
  by (auto simp: server_invar_def call_def split: prod.splits)

lemma server_phase_call [simp]: "server_phase (snd (call m s)) = server_phase s"
  by (auto simp: call_def split: prod.splits)

lemma server_invar_update:
  assumes "server_invar s" "guard_invar g" "phase_of g \<notin> {PInit, PHandshaking}" "server_phase s \<notin> {PInit, PHandshaking}"
   "out \<noteq> None \<longleftrightarrow> phase_of g \<in> {PExecuted, PCommitting}"
  shows "server_invar (s\<lparr>s_state := a, s_guard := g, s_lastOutcome := out, s_lastExecHeight := h\<rparr>)"
  using assms by (auto simp: server_invar_def)

end
