(* ===== verification/Grpc_Server.thy ===== *)
theory Grpc_Server
  imports Grpc_Wire Server
begin

text \<open>
  \<^verbatim>\<open>grpc/server.go\<close> and \<^verbatim>\<open>grpc/service.go\<close>: the server side of the transport. A method of
  \<open>GRPCServer\<close> calls the method of the wrapped server and turns its two results into a pointer
  or an error, since gRPC sends one or the other. The service descriptor is the table by which
  the gRPC library finds the handler of a method or of a stream.

  A unary handler gets the function \<open>dec\<close> with which the library decodes the request. The
  server's end of a stream, a type of the library, is a parameter \<open>'ss\<close> with its two
  operations. A loop that receives until the stream reports an error may run forever; then
  the result is \<open>Blocked\<close>. The goroutine that reads the chunks of an import is run to its end
  before the application reads its channel.
\<close>

section \<open>server.go\<close>

record 'a GRPCServer =
  gs_srv :: "'a Server"

record 'ss ServerStream =
  ss_RecvMsg :: "kind \<Rightarrow> 'ss \<Rightarrow> (go_error + message) go \<times> 'ss"
  ss_SendMsg :: "message \<Rightarrow> 'ss \<Rightarrow> go_error option go \<times> 'ss"

definition NewGRPCServer :: "'a Lifecycle \<Rightarrow> 'a \<Rightarrow> 'a GRPCServer" where
  "NewGRPCServer app a = \<lparr>gs_srv = New app a\<rparr>"

definition GRPC_Server :: "'a GRPCServer \<Rightarrow> 'a Server" where
  "GRPC_Server s = gs_srv s"

definition on_srv :: "('a Server \<Rightarrow> 'r go \<times> 'a Server) \<Rightarrow> 'a GRPCServer \<Rightarrow> 'r go \<times> 'a GRPCServer" where
  "on_srv m s = (case m (gs_srv s) of (r, srv) \<Rightarrow> (r, s\<lparr>gs_srv := srv\<rparr>))"

text \<open>\<open>if err != nil { return nil, err }; return &v, nil\<close>, where \<open>v\<close> may be wrapped first.\<close>

definition pointer_or_error ::
  "('r \<Rightarrow> 'v) \<Rightarrow> ('r \<times> go_error option) go \<times> 's \<Rightarrow> ('v option \<times> go_error option) go \<times> 's" where
  "pointer_or_error wrap res =
     and_then res (\<lambda>(r, err) s.
       case err of
         Some e \<Rightarrow> (Ret (None, Some e), s)
       | None \<Rightarrow> (Ret (Some (wrap r), None), s))"

definition GRPC_Handshake :: "HandshakeRequest \<Rightarrow> ('a GRPCServer, HandshakeResponse option) meth" where
  "GRPC_Handshake req s = pointer_or_error (\<lambda>resp. resp) (on_srv (Handshake req) s)"

definition GRPC_CheckTx :: "CheckTxRequest \<Rightarrow> ('a GRPCServer, GateVerdict option) meth" where
  "GRPC_CheckTx req s = pointer_or_error (\<lambda>verdict. verdict) (on_srv (CheckTx (cq_Tx req) (cq_Context req)) s)"

definition GRPC_ExecuteBlock :: "FinalizedBlock \<Rightarrow> ('a GRPCServer, BlockOutcome option) meth" where
  "GRPC_ExecuteBlock block s = pointer_or_error (\<lambda>outcome. outcome) (on_srv (ExecuteBlock block) s)"

definition GRPC_Commit :: "CommitRequest \<Rightarrow> ('a GRPCServer, CommitResult option) meth" where
  "GRPC_Commit req s = pointer_or_error (\<lambda>result. result) (on_srv Commit s)"

definition GRPC_Query :: "StateQuery \<Rightarrow> ('a GRPCServer, StateQueryResult option) meth" where
  "GRPC_Query req s = pointer_or_error (\<lambda>result. result) (on_srv (Query req) s)"

definition GRPC_BuildProposal :: "ProposalContext \<Rightarrow> ('a GRPCServer, BuiltProposal option) meth" where
  "GRPC_BuildProposal pctx s = pointer_or_error (\<lambda>proposal. proposal) (on_srv (BuildProposal pctx) s)"

definition GRPC_VerifyProposal :: "ReceivedProposal \<Rightarrow> ('a GRPCServer, ProposalVerdict option) meth" where
  "GRPC_VerifyProposal p s = pointer_or_error (\<lambda>verdict. verdict) (on_srv (VerifyProposal p) s)"

definition GRPC_ExtendVote :: "VoteContext \<Rightarrow> ('a GRPCServer, ExtendVoteResponse option) meth" where
  "GRPC_ExtendVote vctx s = pointer_or_error (\<lambda>ext. \<lparr>xr_Extension = ext\<rparr>) (on_srv (ExtendVote vctx) s)"

definition GRPC_VerifyExtension :: "ReceivedExtension \<Rightarrow> ('a GRPCServer, ExtensionVerdictResponse option) meth" where
  "GRPC_VerifyExtension ext s =
     pointer_or_error (\<lambda>verdict. \<lparr>xv_Verdict = verdict\<rparr>) (on_srv (VerifyExtension ext) s)"

definition GRPC_AvailableSnapshots ::
  "AvailableSnapshotsRequest \<Rightarrow> ('a GRPCServer, AvailableSnapshotsResponse option) meth" where
  "GRPC_AvailableSnapshots req s =
     pointer_or_error (\<lambda>snaps. \<lparr>as_Snapshots = snaps\<rparr>) (on_srv AvailableSnapshots s)"

definition GRPC_Simulate :: "SimulateRequest \<Rightarrow> ('a GRPCServer, TxOutcome option) meth" where
  "GRPC_Simulate req s = pointer_or_error (\<lambda>outcome. outcome) (on_srv (Simulate (sq_Tx req)) s)"

text \<open>A stream's handler works on the server and on its end of the stream.\<close>

type_synonym ('a, 'ss) stream_handler =
  "'a GRPCServer \<times> 'ss \<Rightarrow> go_error option go \<times> ('a GRPCServer \<times> 'ss)"

definition on_server :: "('a Server \<Rightarrow> 'r go \<times> 'a Server) \<Rightarrow> 'a GRPCServer \<times> 'ss \<Rightarrow> 'r go \<times> ('a GRPCServer \<times> 'ss)" where
  "on_server m p = (case on_srv m (fst p) of (r, s) \<Rightarrow> (r, (s, snd p)))"

definition on_stream :: "('ss \<Rightarrow> 'r go \<times> 'ss) \<Rightarrow> 's \<times> 'ss \<Rightarrow> 'r go \<times> ('s \<times> 'ss)" where
  "on_stream m p = (case m (snd p) of (r, st) \<Rightarrow> (r, (fst p, st)))"

fun send_chunks :: "'ss ServerStream \<Rightarrow> SnapshotChunk list \<Rightarrow> 's \<times> 'ss \<Rightarrow> go_error option go \<times> ('s \<times> 'ss)" where
  "send_chunks lib [] p = (Ret None, p)"
| "send_chunks lib (chunk # chunks) p =
     and_then (on_stream (ss_SendMsg lib (MSnapshotChunk chunk)) p) (\<lambda>err p.
       case err of
         Some e \<Rightarrow> (Ret (Some e), p)
       | None \<Rightarrow> send_chunks lib chunks p)"

definition GRPC_ExportSnapshot :: "'ss ServerStream \<Rightarrow> ExportSnapshotRequest \<Rightarrow> ('a, 'ss) stream_handler" where
  "GRPC_ExportSnapshot lib req p =
     and_then (on_server (ExportSnapshot (eq_Height req) (eq_Format req)) p) (\<lambda>((ch, _), err) p.
       case err of
         Some e \<Rightarrow> (Ret (Some e), p)
       | None \<Rightarrow>
           (case ch of
              None \<Rightarrow> (Blocked, p)
            | Some chunks \<Rightarrow> send_chunks lib chunks p))"

text \<open>The goroutine that receives chunks until \<open>RecvMsg\<close> fails, for whatever reason.\<close>

partial_function (option) recv_chunks ::
  "'ss ServerStream \<Rightarrow> 'ss \<Rightarrow> (SnapshotChunk list \<times> 'ss) option" where
  "recv_chunks lib st =
     (case ss_RecvMsg lib KImportSnapshotMessage st of
        (Ret (Inr msg), st) \<Rightarrow>
          (case im_Chunk (un_ImportSnapshotMessage msg) of
             Some c \<Rightarrow> Option.bind (recv_chunks lib st) (\<lambda>(cs, st). Some (c # cs, st))
           | None \<Rightarrow> recv_chunks lib st)
      | (Ret (Inl e), st) \<Rightarrow> Some ([], st)
      | _ \<Rightarrow> None)"

definition GRPC_ImportSnapshot :: "'ss ServerStream \<Rightarrow> ('a, 'ss) stream_handler" where
  "GRPC_ImportSnapshot lib p =
     and_then (on_stream (ss_RecvMsg lib KImportSnapshotMessage) p) (\<lambda>first p.
       case first of
         Inl e \<Rightarrow> (Ret (Some e), p)
       | Inr m \<Rightarrow>
           (case im_Descriptor (un_ImportSnapshotMessage m) of
              None \<Rightarrow> (Ret (Some (ErrorString
                ''github.com/blockberries/bapi grpc: first ImportSnapshot message must contain a descriptor'')), p)
            | Some desc \<Rightarrow>
                (case recv_chunks lib (snd p) of
                   None \<Rightarrow> (Blocked, p)
                 | Some (chunks, st) \<Rightarrow>
                     and_then (on_server (ImportSnapshot desc chunks) (fst p, st)) (\<lambda>(result, err) p.
                       case err of
                         Some e \<Rightarrow> (Ret (Some e), p)
                       | None \<Rightarrow> on_stream (ss_SendMsg lib (MImportResult result)) p))))"

section \<open>service.go\<close>

definition serviceName :: string where
  "serviceName = ''github.com/blockberries/bapi.v1.BAPIService''"

definition fullMethod :: "string \<Rightarrow> string" where
  "fullMethod m = ''/'' @ serviceName @ ''/'' @ m"

type_synonym 'a handler = "(kind \<Rightarrow> go_error + message) \<Rightarrow> ('a GRPCServer, message option) meth"

text \<open>The result of a method as the library gets it: a response of type \<open>any\<close>.\<close>

definition as_any :: "('r \<Rightarrow> message) \<Rightarrow> ('r option \<times> go_error option) go \<times> 's \<Rightarrow>
    (message option \<times> go_error option) go \<times> 's" where
  "as_any tag res = and_then res (\<lambda>(r, err) s. (Ret (map_option tag r, err), s))"

definition handlerHandshake :: "'a handler" where
  "handlerHandshake dec s =
     (case dec KHandshakeRequest of
        Inl err \<Rightarrow> (Ret (None, Some err), s)
      | Inr req \<Rightarrow> as_any MHandshakeResponse (GRPC_Handshake (un_HandshakeRequest req) s))"

definition handlerCheckTx :: "'a handler" where
  "handlerCheckTx dec s =
     (case dec KCheckTxRequest of
        Inl err \<Rightarrow> (Ret (None, Some err), s)
      | Inr req \<Rightarrow> as_any MGateVerdict (GRPC_CheckTx (un_CheckTxRequest req) s))"

definition handlerExecuteBlock :: "'a handler" where
  "handlerExecuteBlock dec s =
     (case dec KFinalizedBlock of
        Inl err \<Rightarrow> (Ret (None, Some err), s)
      | Inr req \<Rightarrow> as_any MBlockOutcome (GRPC_ExecuteBlock (un_FinalizedBlock req) s))"

definition handlerCommit :: "'a handler" where
  "handlerCommit dec s =
     (case dec KCommitRequest of
        Inl err \<Rightarrow> (Ret (None, Some err), s)
      | Inr req \<Rightarrow> as_any MCommitResult (GRPC_Commit (un_CommitRequest req) s))"

definition handlerQuery :: "'a handler" where
  "handlerQuery dec s =
     (case dec KStateQuery of
        Inl err \<Rightarrow> (Ret (None, Some err), s)
      | Inr req \<Rightarrow> as_any MStateQueryResult (GRPC_Query (un_StateQuery req) s))"

definition handlerBuildProposal :: "'a handler" where
  "handlerBuildProposal dec s =
     (case dec KProposalContext of
        Inl err \<Rightarrow> (Ret (None, Some err), s)
      | Inr req \<Rightarrow> as_any MBuiltProposal (GRPC_BuildProposal (un_ProposalContext req) s))"

definition handlerVerifyProposal :: "'a handler" where
  "handlerVerifyProposal dec s =
     (case dec KReceivedProposal of
        Inl err \<Rightarrow> (Ret (None, Some err), s)
      | Inr req \<Rightarrow> as_any MProposalVerdict (GRPC_VerifyProposal (un_ReceivedProposal req) s))"

definition handlerExtendVote :: "'a handler" where
  "handlerExtendVote dec s =
     (case dec KVoteContext of
        Inl err \<Rightarrow> (Ret (None, Some err), s)
      | Inr req \<Rightarrow> as_any MExtendVoteResponse (GRPC_ExtendVote (un_VoteContext req) s))"

definition handlerVerifyExtension :: "'a handler" where
  "handlerVerifyExtension dec s =
     (case dec KReceivedExtension of
        Inl err \<Rightarrow> (Ret (None, Some err), s)
      | Inr req \<Rightarrow> as_any MExtensionVerdictResponse (GRPC_VerifyExtension (un_ReceivedExtension req) s))"

definition handlerAvailableSnapshots :: "'a handler" where
  "handlerAvailableSnapshots dec s =
     (case dec KAvailableSnapshotsRequest of
        Inl err \<Rightarrow> (Ret (None, Some err), s)
      | Inr req \<Rightarrow>
          as_any MAvailableSnapshotsResponse (GRPC_AvailableSnapshots (un_AvailableSnapshotsRequest req) s))"

definition handlerExportSnapshot :: "'ss ServerStream \<Rightarrow> ('a, 'ss) stream_handler" where
  "handlerExportSnapshot lib p =
     and_then (on_stream (ss_RecvMsg lib KExportSnapshotRequest) p) (\<lambda>r p.
       case r of
         Inl err \<Rightarrow> (Ret (Some err), p)
       | Inr req \<Rightarrow> GRPC_ExportSnapshot lib (un_ExportSnapshotRequest req) p)"

definition handlerImportSnapshot :: "'ss ServerStream \<Rightarrow> ('a, 'ss) stream_handler" where
  "handlerImportSnapshot lib = GRPC_ImportSnapshot lib"

definition handlerSimulate :: "'a handler" where
  "handlerSimulate dec s =
     (case dec KSimulateRequest of
        Inl err \<Rightarrow> (Ret (None, Some err), s)
      | Inr req \<Rightarrow> as_any MTxOutcome (GRPC_Simulate (un_SimulateRequest req) s))"

record StreamDesc =
  str_StreamName :: string
  str_ServerStreams :: bool
  str_ClientStreams :: bool

record ('a, 'ss) ServiceDesc =
  svc_ServiceName :: string
  svc_Methods :: "(string \<times> 'a handler) list"
  svc_Streams :: "(StreamDesc \<times> ('ss ServerStream \<Rightarrow> ('a, 'ss) stream_handler)) list"
  svc_Metadata :: string

definition serviceDesc :: "('a, 'ss) ServiceDesc" where
  "serviceDesc = \<lparr>
     svc_ServiceName = serviceName,
     svc_Methods =
       [(''Handshake'', handlerHandshake), (''CheckTx'', handlerCheckTx),
        (''ExecuteBlock'', handlerExecuteBlock), (''Commit'', handlerCommit), (''Query'', handlerQuery),
        (''BuildProposal'', handlerBuildProposal), (''VerifyProposal'', handlerVerifyProposal),
        (''ExtendVote'', handlerExtendVote), (''VerifyExtension'', handlerVerifyExtension),
        (''AvailableSnapshots'', handlerAvailableSnapshots), (''Simulate'', handlerSimulate)],
     svc_Streams =
       [(\<lparr>str_StreamName = ''ExportSnapshot'', str_ServerStreams = True, str_ClientStreams = False\<rparr>,
         handlerExportSnapshot),
        (\<lparr>str_StreamName = ''ImportSnapshot'', str_ServerStreams = False, str_ClientStreams = True\<rparr>,
         handlerImportSnapshot)],
     svc_Metadata = ''github.com/blockberries/bapi/v1/service.cram''\<rparr>"

definition stream_handler_of :: "('a, 'ss) ServiceDesc \<Rightarrow> string \<Rightarrow> ('ss ServerStream \<Rightarrow> ('a, 'ss) stream_handler) option" where
  "stream_handler_of svc name =
     map_of (map (\<lambda>(d, h). (str_StreamName d, h)) (svc_Streams svc)) name"

subsection \<open>Registration\<close>

text \<open>
  The library's own server, a parameter \<open>'g\<close> with its operations: the options and the
  listener are handed on.
\<close>

record ('g, 'o, 'l, 'a, 'ss) GrpcLib =
  gl_NewServer :: "'o list \<Rightarrow> 'g"
  gl_RegisterService :: "('a, 'ss) ServiceDesc \<Rightarrow> 'a GRPCServer \<Rightarrow> 'g \<Rightarrow> 'g"
  gl_Serve :: "'l \<Rightarrow> 'g \<Rightarrow> go_error option go \<times> 'g"
  gl_GracefulStop :: "'g \<Rightarrow> 'g"

definition RegisterBAPIServiceServer :: "('g, 'o, 'l, 'a, 'ss) GrpcLib \<Rightarrow> 'g \<Rightarrow> 'a GRPCServer \<Rightarrow> 'g" where
  "RegisterBAPIServiceServer lib gs srv = gl_RegisterService lib serviceDesc srv gs"

definition GRPC_Register :: "('g, 'o, 'l, 'a, 'ss) GrpcLib \<Rightarrow> 'a GRPCServer \<Rightarrow> 'g \<Rightarrow> 'g" where
  "GRPC_Register lib s gs = RegisterBAPIServiceServer lib gs s"

definition GRPC_Serve ::
  "('g, 'o, 'l, 'a, 'ss) GrpcLib \<Rightarrow> 'a GRPCServer \<Rightarrow> 'l \<Rightarrow> 'o list \<Rightarrow> go_error option go \<times> 'g" where
  "GRPC_Serve lib s lis opts = gl_Serve lib lis (GRPC_Register lib s (gl_NewServer lib opts))"

definition GRPC_Stop :: "('g, 'o, 'l, 'a, 'ss) GrpcLib \<Rightarrow> 'g \<Rightarrow> 'g" where
  "GRPC_Stop lib gs = gl_GracefulStop lib gs"

end
