(* ===== verification/Grpc_Client.thy ===== *)
theory Grpc_Client
  imports Grpc_Server
begin

text \<open>
  \<^verbatim>\<open>grpc/client.go\<close>: the connection to a remote application. The client holds a connection of
  the gRPC library, a guard of its own and the capabilities of the last handshake. The
  library's connection is a parameter: a state \<open>'w\<close> (everything beyond the client, the remote
  server included) and the operations of the library on it. \<open>Invoke\<close> and \<open>RecvMsg\<close> name the
  kind of the value they decode into, and may wait forever. A channel that a goroutine fills
  from a stream is the list of what it yields before it is closed.
\<close>

section \<open>Definitions\<close>

type_synonym stream_id = nat

record 'w ClientConn =
  cc_Invoke :: "string \<Rightarrow> message \<Rightarrow> kind \<Rightarrow> 'w \<Rightarrow> (go_error + message) go \<times> 'w"
  cc_NewStream :: "StreamDesc \<Rightarrow> string \<Rightarrow> 'w \<Rightarrow> (go_error + stream_id) go \<times> 'w"
  cs_SendMsg :: "stream_id \<Rightarrow> message \<Rightarrow> 'w \<Rightarrow> go_error option go \<times> 'w"
  cs_CloseSend :: "stream_id \<Rightarrow> 'w \<Rightarrow> go_error option go \<times> 'w"
  cs_RecvMsg :: "stream_id \<Rightarrow> kind \<Rightarrow> 'w \<Rightarrow> (go_error + message) go \<times> 'w"
  cc_Close :: "'w \<Rightarrow> go_error option \<times> 'w"

record 'w Client =
  cl_cc :: 'w
  cl_caps :: Capabilities
  cl_guard :: LifecycleGuard

text \<open>\<open>grpc.DialContext\<close> is a parameter, given the address.\<close>

definition Dial :: "(string \<Rightarrow> go_error + 'w) \<Rightarrow> string \<Rightarrow> 'w Client option \<times> go_error option" where
  "Dial DialContext addr =
     (case DialContext addr of
        Inl err \<Rightarrow> (None, Some (Errorf_w (''github.com/blockberries/bapi client: dial '' @ addr) err))
      | Inr cc \<Rightarrow> (Some \<lparr>cl_cc = cc, cl_caps = 0, cl_guard = NewLifecycleGuard\<rparr>, None))"

definition on_cc :: "('w \<Rightarrow> 'r \<times> 'w) \<Rightarrow> 'w Client \<Rightarrow> 'r \<times> 'w Client" where
  "on_cc f c = (case f (cl_cc c) of (r, w) \<Rightarrow> (r, c\<lparr>cl_cc := w\<rparr>))"

definition on_guard ::
  "(LifecycleGuard \<Rightarrow> unit go \<times> LifecycleGuard) \<Rightarrow> 'w Client \<Rightarrow> unit go \<times> 'w Client" where
  "on_guard f c = (case f (cl_guard c) of (r, g) \<Rightarrow> (r, c\<lparr>cl_guard := g\<rparr>))"

definition Client_Close :: "'w ClientConn \<Rightarrow> 'w Client \<Rightarrow> go_error option \<times> 'w Client" where
  "Client_Close lib = on_cc (cc_Close lib)"

definition Client_Handshake :: "'w ClientConn \<Rightarrow> HandshakeRequest \<Rightarrow> ('w Client, HandshakeResponse) meth" where
  "Client_Handshake lib req c =
     and_then (on_guard AcquireHandshake c) (\<lambda>_ c.
     and_then (on_cc (cc_Invoke lib (fullMethod ''Handshake'') (MHandshakeRequest req) KHandshakeResponse) c) (\<lambda>r c.
       case r of
         Inl err \<Rightarrow> and_then (on_guard FailHandshake c) (\<lambda>_ c. (Ret (zero_HandshakeResponse, Some err), c))
       | Inr resp \<Rightarrow>
           and_then (on_guard CompleteHandshake (c\<lparr>cl_caps := hr_Capabilities (un_HandshakeResponse resp)\<rparr>))
             (\<lambda>_ c. (Ret (un_HandshakeResponse resp, None), c))))"

definition Client_CheckTx :: "'w ClientConn \<Rightarrow> Tx \<Rightarrow> MempoolContext \<Rightarrow> ('w Client, GateVerdict) meth" where
  "Client_CheckTx lib tx mctx c =
     and_then (on_guard CheckConcurrent c) (\<lambda>_ c.
     and_then (on_cc (cc_Invoke lib (fullMethod ''CheckTx'')
         (MCheckTxRequest \<lparr>cq_Tx = tx, cq_Context = mctx\<rparr>) KGateVerdict) c) (\<lambda>r c.
       case r of
         Inl err \<Rightarrow> (Ret (zero_GateVerdict, Some err), c)
       | Inr resp \<Rightarrow> (Ret (un_GateVerdict resp, None), c)))"

definition Client_ExecuteBlock :: "'w ClientConn \<Rightarrow> FinalizedBlock \<Rightarrow> ('w Client, BlockOutcome) meth" where
  "Client_ExecuteBlock lib block c =
     and_then (on_guard AcquireExecute c) (\<lambda>_ c.
     and_then (on_cc (cc_Invoke lib (fullMethod ''ExecuteBlock'') (MFinalizedBlock block) KBlockOutcome) c) (\<lambda>r c.
       case r of
         Inl err \<Rightarrow> and_then (on_guard FailExecute c) (\<lambda>_ c. (Ret (zero_BlockOutcome, Some err), c))
       | Inr resp \<Rightarrow>
           and_then (on_guard CompleteExecute c) (\<lambda>_ c. (Ret (un_BlockOutcome resp, None), c))))"

definition Client_Commit :: "'w ClientConn \<Rightarrow> ('w Client, CommitResult) meth" where
  "Client_Commit lib c =
     and_then (on_guard AcquireCommit c) (\<lambda>_ c.
     and_then (on_cc (cc_Invoke lib (fullMethod ''Commit'') (MCommitRequest CommitRequest) KCommitResult) c) (\<lambda>r c.
       case r of
         Inl err \<Rightarrow> and_then (on_guard CompleteCommit c) (\<lambda>_ c. (Ret (\<lparr>cr_RetainHeight = 0\<rparr>, Some err), c))
       | Inr resp \<Rightarrow>
           and_then (on_guard CompleteCommit c) (\<lambda>_ c. (Ret (un_CommitResult resp, None), c))))"

definition Client_Query :: "'w ClientConn \<Rightarrow> StateQuery \<Rightarrow> ('w Client, StateQueryResult) meth" where
  "Client_Query lib req c =
     and_then (on_guard CheckConcurrent c) (\<lambda>_ c.
     and_then (on_cc (cc_Invoke lib (fullMethod ''Query'') (MStateQuery req) KStateQueryResult) c) (\<lambda>r c.
       case r of
         Inl err \<Rightarrow> (Ret (zero_StateQueryResult, Some err), c)
       | Inr resp \<Rightarrow> (Ret (un_StateQueryResult resp, None), c)))"

definition Client_Capabilities :: "'w Client \<Rightarrow> Capabilities" where
  "Client_Capabilities c = cl_caps c"

subsection \<open>ProposalControl and VoteExtender\<close>

definition client_BuildProposal :: "'w ClientConn \<Rightarrow> ProposalContext \<Rightarrow> ('w Client, BuiltProposal) meth" where
  "client_BuildProposal lib pctx c =
     and_then (on_cc (cc_Invoke lib (fullMethod ''BuildProposal'') (MProposalContext pctx) KBuiltProposal) c) (\<lambda>r c.
       case r of
         Inl err \<Rightarrow> (Ret (\<lparr>bp_Txs = []\<rparr>, Some err), c)
       | Inr resp \<Rightarrow> (Ret (un_BuiltProposal resp, None), c))"

definition client_VerifyProposal :: "'w ClientConn \<Rightarrow> ReceivedProposal \<Rightarrow> ('w Client, ProposalVerdict) meth" where
  "client_VerifyProposal lib p c =
     and_then (on_cc (cc_Invoke lib (fullMethod ''VerifyProposal'') (MReceivedProposal p) KProposalVerdict) c) (\<lambda>r c.
       case r of
         Inl err \<Rightarrow> (Ret (\<lparr>pv_Accept = False, pv_RejectReason = []\<rparr>, Some err), c)
       | Inr resp \<Rightarrow> (Ret (un_ProposalVerdict resp, None), c))"

definition client_ExtendVote :: "'w ClientConn \<Rightarrow> VoteContext \<Rightarrow> ('w Client, byte_slice) meth" where
  "client_ExtendVote lib vctx c =
     and_then (on_cc (cc_Invoke lib (fullMethod ''ExtendVote'') (MVoteContext vctx) KExtendVoteResponse) c) (\<lambda>r c.
       case r of
         Inl err \<Rightarrow> (Ret ([], Some err), c)
       | Inr resp \<Rightarrow> (Ret (xr_Extension (un_ExtendVoteResponse resp), None), c))"

definition client_VerifyExtension :: "'w ClientConn \<Rightarrow> ReceivedExtension \<Rightarrow> ('w Client, ExtensionVerdict) meth" where
  "client_VerifyExtension lib ext c =
     and_then (on_cc (cc_Invoke lib (fullMethod ''VerifyExtension'') (MReceivedExtension ext)
         KExtensionVerdictResponse) c) (\<lambda>r c.
       case r of
         Inl err \<Rightarrow> (Ret (ExtensionReject, Some err), c)
       | Inr resp \<Rightarrow> (Ret (xv_Verdict (un_ExtensionVerdictResponse resp), None), c))"

subsection \<open>StateSync\<close>

definition client_AvailableSnapshots :: "'w ClientConn \<Rightarrow> ('w Client, SnapshotDescriptor list) meth" where
  "client_AvailableSnapshots lib c =
     and_then (on_cc (cc_Invoke lib (fullMethod ''AvailableSnapshots'')
         (MAvailableSnapshotsRequest AvailableSnapshotsRequest) KAvailableSnapshotsResponse) c) (\<lambda>r c.
       case r of
         Inl err \<Rightarrow> (Ret ([], Some err), c)
       | Inr resp \<Rightarrow> (Ret (as_Snapshots (un_AvailableSnapshotsResponse resp), None), c))"

text \<open>The goroutine of \<open>ExportSnapshot\<close>: every chunk until \<open>RecvMsg\<close> fails, for whatever reason.\<close>

partial_function (option) stream_chunks ::
  "'w ClientConn \<Rightarrow> stream_id \<Rightarrow> 'w \<Rightarrow> (SnapshotChunk list \<times> 'w) option" where
  "stream_chunks lib h w =
     (case cs_RecvMsg lib h KSnapshotChunk w of
        (Ret (Inr chunk), w) \<Rightarrow>
          Option.bind (stream_chunks lib h w) (\<lambda>(cs, w). Some (un_SnapshotChunk chunk # cs, w))
      | (Ret (Inl e), w) \<Rightarrow> Some ([], w)
      | _ \<Rightarrow> None)"

definition client_ExportSnapshot ::
  "'w ClientConn \<Rightarrow> u64 \<Rightarrow> u32 \<Rightarrow> ('w Client, chunk_chan option \<times> SnapshotDescriptor option) meth" where
  "client_ExportSnapshot lib height format c =
     and_then (on_cc (cc_NewStream lib \<lparr>str_StreamName = ''ExportSnapshot'', str_ServerStreams = True,
         str_ClientStreams = False\<rparr> (fullMethod ''ExportSnapshot'')) c) (\<lambda>r c.
       case r of
         Inl err \<Rightarrow> (Ret ((None, None), Some err), c)
       | Inr h \<Rightarrow>
     and_then (on_cc (cs_SendMsg lib h (MExportSnapshotRequest \<lparr>eq_Height = height, eq_Format = format\<rparr>)) c) (\<lambda>err c.
       case err of
         Some e \<Rightarrow> (Ret ((None, None), Some e), c)
       | None \<Rightarrow>
     and_then (on_cc (cs_CloseSend lib h) c) (\<lambda>err c.
       case err of
         Some e \<Rightarrow> (Ret ((None, None), Some e), c)
       | None \<Rightarrow>
           (case stream_chunks lib h (cl_cc c) of
              None \<Rightarrow> (Blocked, c)
            | Some (chunks, w) \<Rightarrow> (Ret ((Some chunks, None), None), c\<lparr>cl_cc := w\<rparr>)))))"

fun send_import :: "'w ClientConn \<Rightarrow> stream_id \<Rightarrow> SnapshotChunk list \<Rightarrow> 'w Client \<Rightarrow> go_error option go \<times> 'w Client" where
  "send_import lib h [] c = (Ret None, c)"
| "send_import lib h (chunk # chunks) c =
     and_then (on_cc (cs_SendMsg lib h (MImportSnapshotMessage \<lparr>im_Descriptor = None, im_Chunk = Some chunk\<rparr>)) c) (\<lambda>err c.
       case err of
         Some e \<Rightarrow> (Ret (Some e), c)
       | None \<Rightarrow> send_import lib h chunks c)"

definition client_ImportSnapshot ::
  "'w ClientConn \<Rightarrow> SnapshotDescriptor \<Rightarrow> chunk_chan \<Rightarrow> ('w Client, ImportResult) meth" where
  "client_ImportSnapshot lib desc chunks c =
     and_then (on_cc (cc_NewStream lib \<lparr>str_StreamName = ''ImportSnapshot'', str_ServerStreams = False,
         str_ClientStreams = True\<rparr> (fullMethod ''ImportSnapshot'')) c) (\<lambda>r c.
       case r of
         Inl err \<Rightarrow> (Ret (zero_ImportResult, Some err), c)
       | Inr h \<Rightarrow>
     and_then (on_cc (cs_SendMsg lib h (MImportSnapshotMessage \<lparr>im_Descriptor = Some desc, im_Chunk = None\<rparr>)) c) (\<lambda>err c.
       case err of
         Some e \<Rightarrow> (Ret (zero_ImportResult, Some e), c)
       | None \<Rightarrow>
     and_then (send_import lib h chunks c) (\<lambda>err c.
       case err of
         Some e \<Rightarrow> (Ret (zero_ImportResult, Some e), c)
       | None \<Rightarrow>
     and_then (on_cc (cs_CloseSend lib h) c) (\<lambda>err c.
       case err of
         Some e \<Rightarrow> (Ret (zero_ImportResult, Some e), c)
       | None \<Rightarrow>
     and_then (on_cc (cs_RecvMsg lib h KImportResult) c) (\<lambda>r c.
       case r of
         Inl err \<Rightarrow> (Ret (zero_ImportResult, Some err), c)
       | Inr result \<Rightarrow> (Ret (un_ImportResult result, None), c))))))"

subsection \<open>Simulator and MempoolObserver\<close>

definition client_Simulate :: "'w ClientConn \<Rightarrow> Tx \<Rightarrow> ('w Client, TxOutcome) meth" where
  "client_Simulate lib tx c =
     and_then (on_cc (cc_Invoke lib (fullMethod ''Simulate'') (MSimulateRequest \<lparr>sq_Tx = tx\<rparr>) KTxOutcome) c) (\<lambda>r c.
       case r of
         Inl err \<Rightarrow> (Ret (zero_TxOutcome, Some err), c)
       | Inr resp \<Rightarrow> (Ret (un_TxOutcome resp, None), c))"

definition client_OnBatchCertified :: "BatchCertifiedEvent \<Rightarrow> ('w Client, unit) meth" where
  "client_OnBatchCertified ev c =
     (Ret ((), Some (ErrorString ''MempoolObserver.OnBatchCertified over gRPC not yet wired (PLAN Phase 0.3)'')), c)"

definition client_OnBlockConstructed :: "BlockConstructedEvent \<Rightarrow> ('w Client, unit) meth" where
  "client_OnBlockConstructed ev c =
     (Ret ((), Some (ErrorString ''MempoolObserver.OnBlockConstructed over gRPC not yet wired (PLAN Phase 0.3)'')), c)"

subsection \<open>Accessors\<close>

definition Client_AsProposalControl :: "'w ClientConn \<Rightarrow> 'w Client \<Rightarrow> 'w Client ProposalControl option" where
  "Client_AsProposalControl lib c =
     (if Capabilities_Has (cl_caps c) CapProposalControl
      then Some \<lparr>m_BuildProposal = client_BuildProposal lib, m_VerifyProposal = client_VerifyProposal lib\<rparr>
      else None)"

definition Client_AsVoteExtender :: "'w ClientConn \<Rightarrow> 'w Client \<Rightarrow> 'w Client VoteExtender option" where
  "Client_AsVoteExtender lib c =
     (if Capabilities_Has (cl_caps c) CapVoteExtensions
      then Some \<lparr>m_ExtendVote = client_ExtendVote lib, m_VerifyExtension = client_VerifyExtension lib\<rparr>
      else None)"

definition Client_AsStateSync :: "'w ClientConn \<Rightarrow> 'w Client \<Rightarrow> 'w Client StateSync option" where
  "Client_AsStateSync lib c =
     (if Capabilities_Has (cl_caps c) CapStateSync
      then Some \<lparr>m_AvailableSnapshots = client_AvailableSnapshots lib,
             m_ExportSnapshot = client_ExportSnapshot lib, m_ImportSnapshot = client_ImportSnapshot lib\<rparr>
      else None)"

definition Client_AsSimulator :: "'w ClientConn \<Rightarrow> 'w Client \<Rightarrow> 'w Client Simulator option" where
  "Client_AsSimulator lib c =
     (if Capabilities_Has (cl_caps c) CapSimulation then Some \<lparr>m_Simulate = client_Simulate lib\<rparr> else None)"

definition Client_AsMempoolObserver :: "'w Client \<Rightarrow> 'w Client MempoolObserver option" where
  "Client_AsMempoolObserver c =
     (if Capabilities_Has (cl_caps c) CapMempoolObserver
      then Some \<lparr>m_OnBatchCertified = client_OnBatchCertified, m_OnBlockConstructed = client_OnBlockConstructed\<rparr>
      else None)"

end
