(* ===== verification/LocalConn.thy ===== *)
theory LocalConn
  imports Server
begin

text \<open>
  \<^verbatim>\<open>local/local.go\<close>: the in-process connection, a server and nothing else. Every method hands
  its arguments to the server's.
\<close>

record 'a Connection =
  c_srv :: "'a Server"

definition NewConnection :: "'a Lifecycle \<Rightarrow> 'a \<Rightarrow> 'a Connection" where
  "NewConnection app a = \<lparr>c_srv = New app a\<rparr>"

definition via_srv :: "('a Server, 'r) meth \<Rightarrow> ('a Connection, 'r) meth" where
  "via_srv m c = (case m (c_srv c) of (r, s) \<Rightarrow> (r, c\<lparr>c_srv := s\<rparr>))"

definition Conn_Handshake :: "HandshakeRequest \<Rightarrow> ('a Connection, HandshakeResponse) meth" where
  "Conn_Handshake req = via_srv (Handshake req)"

definition Conn_CheckTx :: "Tx \<Rightarrow> MempoolContext \<Rightarrow> ('a Connection, GateVerdict) meth" where
  "Conn_CheckTx tx mctx = via_srv (CheckTx tx mctx)"

definition Conn_ExecuteBlock :: "FinalizedBlock \<Rightarrow> ('a Connection, BlockOutcome) meth" where
  "Conn_ExecuteBlock block = via_srv (ExecuteBlock block)"

definition Conn_Commit :: "('a Connection, CommitResult) meth" where
  "Conn_Commit = via_srv Commit"

definition Conn_Query :: "StateQuery \<Rightarrow> ('a Connection, StateQueryResult) meth" where
  "Conn_Query req = via_srv (Query req)"

definition Conn_Capabilities :: "'a Connection \<Rightarrow> Capabilities" where
  "Conn_Capabilities c = Server_Capabilities (c_srv c)"

definition Conn_AsProposalControl :: "'a Connection \<Rightarrow> 'a ProposalControl option" where
  "Conn_AsProposalControl c = AsProposalControl (c_srv c)"

definition Conn_AsVoteExtender :: "'a Connection \<Rightarrow> 'a VoteExtender option" where
  "Conn_AsVoteExtender c = AsVoteExtender (c_srv c)"

definition Conn_AsStateSync :: "'a Connection \<Rightarrow> 'a StateSync option" where
  "Conn_AsStateSync c = AsStateSync (c_srv c)"

definition Conn_AsSimulator :: "'a Connection \<Rightarrow> 'a Simulator option" where
  "Conn_AsSimulator c = AsSimulator (c_srv c)"

definition Conn_AsMempoolObserver :: "'a Connection \<Rightarrow> 'a MempoolObserver option" where
  "Conn_AsMempoolObserver c = AsMempoolObserver (c_srv c)"

definition Conn_Close :: "'a Connection \<Rightarrow> go_error option" where
  "Conn_Close c = None"

definition Conn_Server :: "'a Connection \<Rightarrow> 'a Server" where
  "Conn_Server c = c_srv c"

lemmas conn_defs = NewConnection_def Conn_Handshake_def Conn_CheckTx_def Conn_ExecuteBlock_def
  Conn_Commit_def Conn_Query_def Conn_Capabilities_def Conn_AsProposalControl_def
  Conn_AsVoteExtender_def Conn_AsStateSync_def Conn_AsSimulator_def Conn_AsMempoolObserver_def
  Conn_Server_def

end
