(* ===== verification/Server_Trace.thy ===== *)
theory Server_Trace
  imports Server
begin

text \<open>
  Whole sessions of an engine with a server: any sequence of calls of the server's methods,
  in any order, and the sequence of calls that reaches the application behind it. The
  application's calls are observed by wrapping its method table (\<open>recorded\<close>) so that it
  also keeps a log; the server under test is the unchanged one. \<open>seen\<close> is the order that
  \<^verbatim>\<open>bapi.go\<close> promises an application, as an automaton over the phases of the guard: the
  handshake before anything else. The server consults its guard for some of the methods
  only; \<open>AUnguarded\<close> marks the calls it passes on without (proposals, vote extensions,
  snapshots), and \<open>governed\<close> leaves them out of a log.
\<close>

section \<open>Engine sessions and recorded applications\<close>

datatype engine_call =
    ECHandshake HandshakeRequest
  | ECCheckTx Tx MempoolContext
  | ECExecuteBlock FinalizedBlock
  | ECCommit
  | ECQuery StateQuery
  | ECBuildProposal ProposalContext
  | ECVerifyProposal ReceivedProposal
  | ECExtendVote VoteContext
  | ECVerifyExtension ReceivedExtension
  | ECAvailableSnapshots
  | ECExportSnapshot u64 u32
  | ECImportSnapshot SnapshotDescriptor chunk_chan
  | ECSimulate Tx
  | ECOnBatchCertified BatchCertifiedEvent
  | ECOnBlockConstructed BlockConstructedEvent

fun engine :: "engine_call \<Rightarrow> 'a Server \<Rightarrow> 'a Server" where
  "engine (ECHandshake req) s = snd (Handshake req s)"
| "engine (ECCheckTx tx mctx) s = snd (CheckTx tx mctx s)"
| "engine (ECExecuteBlock b) s = snd (ExecuteBlock b s)"
| "engine ECCommit s = snd (Commit s)"
| "engine (ECQuery q) s = snd (Query q s)"
| "engine (ECBuildProposal p) s = snd (BuildProposal p s)"
| "engine (ECVerifyProposal p) s = snd (VerifyProposal p s)"
| "engine (ECExtendVote v) s = snd (ExtendVote v s)"
| "engine (ECVerifyExtension e) s = snd (VerifyExtension e s)"
| "engine ECAvailableSnapshots s = snd (AvailableSnapshots s)"
| "engine (ECExportSnapshot h f) s = snd (ExportSnapshot h f s)"
| "engine (ECImportSnapshot d ch) s = snd (ImportSnapshot d ch s)"
| "engine (ECSimulate tx) s = snd (Simulate tx s)"
| "engine (ECOnBatchCertified e) s = snd (OnBatchCertified e s)"
| "engine (ECOnBlockConstructed e) s = snd (OnBlockConstructed e s)"

text \<open>
  A call as the application logs it. A handshake that succeeds (and whose declared
  capabilities are implemented) is logged with the capabilities that the application declared.
\<close>

datatype app_call = AHandshake "Capabilities option" | AConcurrent | AExecute | AExecuteFailed | AExecuteStuck
  | ACommit | ACommitStuck | AUnguarded

definition record_call ::
  "(('r \<times> go_error option) go \<Rightarrow> app_call) \<Rightarrow> ('a, 'r) meth \<Rightarrow> ('a \<times> app_call list, 'r) meth" where
  "record_call f m st = (case m (fst st) of (r, a) \<Rightarrow> (r, (a, snd st @ [f r])))"

definition handshake_entry ::
  "'a Lifecycle \<Rightarrow> (HandshakeResponse \<times> go_error option) go \<Rightarrow> app_call" where
  "handshake_entry app r =
     (case r of
        Ret (resp, None) \<Rightarrow> AHandshake
          (if fst (discoverCapabilities app (hr_Capabilities resp)) = None then Some (hr_Capabilities resp) else None)
      | _ \<Rightarrow> AHandshake None)"

definition execute_entry :: "(BlockOutcome \<times> go_error option) go \<Rightarrow> app_call" where
  "execute_entry r = (case r of Ret (_, None) \<Rightarrow> AExecute | Ret (_, Some _) \<Rightarrow> AExecuteFailed | _ \<Rightarrow> AExecuteStuck)"

definition commit_entry :: "(CommitResult \<times> go_error option) go \<Rightarrow> app_call" where
  "commit_entry r = (if returns r then ACommit else ACommitStuck)"

abbreviation concurrent :: "('a, 'r) meth \<Rightarrow> ('a \<times> app_call list, 'r) meth" where
  "concurrent \<equiv> record_call (\<lambda>_. AConcurrent)"

abbreviation passed_on :: "('a, 'r) meth \<Rightarrow> ('a \<times> app_call list, 'r) meth" where
  "passed_on \<equiv> record_call (\<lambda>_. AUnguarded)"

definition recorded :: "'a Lifecycle \<Rightarrow> ('a \<times> app_call list) Lifecycle" where
  "recorded app = \<lparr>
     m_Handshake = (\<lambda>req. record_call (handshake_entry app) (m_Handshake app req)),
     m_CheckTx = (\<lambda>tx mctx. concurrent (m_CheckTx app tx mctx)),
     m_ExecuteBlock = (\<lambda>b. record_call execute_entry (m_ExecuteBlock app b)),
     m_Commit = record_call commit_entry (m_Commit app),
     m_Query = (\<lambda>q. concurrent (m_Query app q)),
     as_ProposalControl = map_option (\<lambda>p. \<lparr>
       m_BuildProposal = (\<lambda>x. passed_on (m_BuildProposal p x)),
       m_VerifyProposal = (\<lambda>x. passed_on (m_VerifyProposal p x))\<rparr>) (as_ProposalControl app),
     as_VoteExtender = map_option (\<lambda>v. \<lparr>
       m_ExtendVote = (\<lambda>x. passed_on (m_ExtendVote v x)),
       m_VerifyExtension = (\<lambda>x. passed_on (m_VerifyExtension v x))\<rparr>) (as_VoteExtender app),
     as_StateSync = map_option (\<lambda>y. \<lparr>
       m_AvailableSnapshots = passed_on (m_AvailableSnapshots y),
       m_ExportSnapshot = (\<lambda>h f. passed_on (m_ExportSnapshot y h f)),
       m_ImportSnapshot = (\<lambda>d ch. passed_on (m_ImportSnapshot y d ch))\<rparr>) (as_StateSync app),
     as_Simulator = map_option (\<lambda>m. \<lparr>m_Simulate = (\<lambda>tx. concurrent (m_Simulate m tx))\<rparr>) (as_Simulator app),
     as_MempoolObserver = map_option (\<lambda>m. \<lparr>
       m_OnBatchCertified = (\<lambda>e. concurrent (m_OnBatchCertified m e)),
       m_OnBlockConstructed = (\<lambda>e. concurrent (m_OnBlockConstructed m e))\<rparr>) (as_MempoolObserver app)\<rparr>"

fun seen :: "phase \<Rightarrow> app_call \<Rightarrow> phase option" where
  "seen PInit (AHandshake caps) = Some (if caps \<noteq> None then PReady else PInit)"
| "seen PReady AExecute = Some PExecuted"
| "seen PReady AExecuteFailed = Some PReady"
| "seen PReady AExecuteStuck = Some PExecuting"
| "seen PExecuted ACommit = Some PReady"
| "seen PExecuted ACommitStuck = Some PCommitting"
| "seen p AConcurrent = (if p \<in> {PInit, PHandshaking} then None else Some p)"
| "seen p AUnguarded = (if p \<in> {PInit, PHandshaking} then None else Some p)"
| "seen p _ = None"

fun seen_all :: "phase \<Rightarrow> app_call list \<Rightarrow> phase option" where
  "seen_all p [] = Some p"
| "seen_all p (c # cs) = (case seen p c of None \<Rightarrow> None | Some q \<Rightarrow> seen_all q cs)"

definition governed :: "app_call list \<Rightarrow> app_call list" where
  "governed tr = filter (\<lambda>c. c \<noteq> AUnguarded) tr"

text \<open>What the application declared in its last successful handshake; nothing before it.\<close>

fun declare_caps :: "app_call \<Rightarrow> Capabilities \<Rightarrow> Capabilities" where
  "declare_caps (AHandshake (Some caps)) c = caps"
| "declare_caps x c = c"

definition declared_caps :: "app_call list \<Rightarrow> Capabilities" where
  "declared_caps tr = fold declare_caps tr 0"

text \<open>An engine that makes no unguarded call before the handshake is complete.\<close>

fun unguarded :: "engine_call \<Rightarrow> bool" where
  "unguarded (ECBuildProposal p) = True" | "unguarded (ECVerifyProposal p) = True"
| "unguarded (ECExtendVote v) = True" | "unguarded (ECVerifyExtension e) = True"
| "unguarded ECAvailableSnapshots = True" | "unguarded (ECExportSnapshot h f) = True"
| "unguarded (ECImportSnapshot d ch) = True" | "unguarded x = False"

fun patient :: "engine_call list \<Rightarrow> 'a Server \<Rightarrow> bool" where
  "patient [] s = True"
| "patient (c # cs) s = ((unguarded c \<longrightarrow> g_handshakeDone (s_guard s)) \<and> patient cs (engine c s))"

text \<open>
  What a session keeps true, of the whole log of a patient engine (\<open>all\<close>) or of the governed
  calls of any.
\<close>

definition watched :: "bool \<Rightarrow> app_call list \<Rightarrow> app_call list" where
  "watched all tr = (if all then tr else governed tr)"

definition trace_invar :: "bool \<Rightarrow> 'a Lifecycle \<Rightarrow> ('a \<times> app_call list) Server \<Rightarrow> bool" where
  "trace_invar all app s \<longleftrightarrow> server_invar s \<and> server_phase s \<noteq> PHandshaking \<and> s_app s = recorded app \<and>
     seen_all PInit (watched all (snd (s_state s))) = Some (server_phase s) \<and> s_caps s = declared_caps (snd (s_state s))"

section \<open>Every call keeps the order\<close>

lemma seen_all_snoc:
  "seen_all p (cs @ [c]) = (case seen_all p cs of None \<Rightarrow> None | Some q \<Rightarrow> seen q c)"
  by (induction cs arbitrary: p) (auto split: option.splits)

lemma watched_snoc [simp]: "watched all (tr @ [c]) = watched all tr @ (if all \<or> c \<noteq> AUnguarded then [c] else [])"
  by (simp add: watched_def governed_def)

lemma declared_caps_snoc [simp]: "declared_caps (tr @ [c]) = declare_caps c (declared_caps tr)"
  by (simp add: declared_caps_def)

lemma discover_recorded [simp]: "discoverCapabilities (recorded app) c = discoverCapabilities app c"
  by (simp add: discoverCapabilities_def recorded_def)

lemma trace_invar_concurrent:
  assumes "trace_invar all app s" and "server_phase s \<notin> {PInit, PHandshaking}"
  shows "trace_invar all app (snd (call (concurrent m) s))"
  using assms by (cases "server_phase s") (auto simp: trace_invar_def server_invar_def call_def record_call_def seen_all_snoc split: prod.splits)

lemma trace_invar_guarded:
  assumes "trace_invar all app s"
  shows "trace_invar all app (snd (and_then (with_guard CheckConcurrent s) (\<lambda>_ s. call (concurrent m) s)))"
proof (cases "server_phase s \<in> {PInit, PHandshaking}")
  case True
  then show ?thesis using assms with_check(2) [of s] by (auto simp: trace_invar_def server_invar_def)
next
  case False
  then show ?thesis using assms with_check(1) [of s] trace_invar_concurrent [OF assms]
    by (simp add: trace_invar_def server_invar_def)
qed

lemma trace_invar_passed_on:
  assumes "trace_invar all app s" and "all \<longrightarrow> server_phase s \<notin> {PInit, PHandshaking}"
  shows "trace_invar all app (snd (call (passed_on m) s))"
  using assms by (cases "server_phase s") (auto simp: trace_invar_def server_invar_def call_def record_call_def seen_all_snoc split: prod.splits)

lemma open_phase: "server_invar s \<Longrightarrow> g_handshakeDone (s_guard s) \<Longrightarrow> server_phase s \<notin> {PInit, PHandshaking}"
  by (auto simp: server_invar_def guard_invar_def phase_of_def split: if_splits)

lemma server_invar_app_simps:
  "server_invar s \<Longrightarrow> s_proposalCtl s = as_ProposalControl (s_app s)"
  "server_invar s \<Longrightarrow> s_voteExt s = as_VoteExtender (s_app s)"
  "server_invar s \<Longrightarrow> s_stateSync s = as_StateSync (s_app s)"
  "server_invar s \<Longrightarrow> s_simulator s = as_Simulator (s_app s)"
  "server_invar s \<Longrightarrow> s_mempoolObs s = as_MempoolObserver (s_app s)"
  by (simp_all add: server_invar_def)

lemma trace_invar_Handshake:
  assumes inv: "trace_invar all app s" and ret: "\<And>a. returns (fst (m_Handshake app req a))"
  shows "trace_invar all app (snd (Handshake req s))"
proof (cases "server_phase s = PInit")
  case False
  then show ?thesis using inv Handshake_refused [of s req] by (auto simp: trace_invar_def)
next
  case True
  have si: "server_invar s" and ap: "s_app s = recorded app" using inv by (auto simp: trace_invar_def)
  obtain resp err a where m: "m_Handshake app req (fst (s_state s)) = (Ret (resp, err), a)"
    using ret [of "fst (s_state s)"] by (metis fst_conv returns_iff surj_pair)
  let ?tr = "snd (s_state s) @ [handshake_entry app (Ret (resp, err))]"
  have call: "m_Handshake (s_app s) req (s_state s) = (Ret (resp, err), (a, ?tr))"
    using m ap by (simp add: recorded_def record_call_def)
  show ?thesis
  proof (cases "case err of Some e' \<Rightarrow> Some e' | None \<Rightarrow> fst (discoverCapabilities (s_app s) (hr_Capabilities resp))")
    case (Some e)
    then have "handshake_entry app (Ret (resp, err)) = AHandshake None"
      using ap by (auto simp: handshake_entry_def split: option.splits)
    then show ?thesis using inv True Handshake_failed [OF si True call Some]
      by (auto simp: trace_invar_def server_invar_def seen_all_snoc)
  next
    case None
    then have err: "err = None" by (cases err) auto
    with None obtain w where w: "discoverCapabilities (s_app s) (hr_Capabilities resp) = (None, w)"
      by (metis eq_fst_iff option.case(1))
    obtain g where "Handshake req s = (Ret (resp, None),
        s\<lparr>s_state := (a, ?tr), s_guard := g, s_caps := hr_Capabilities resp, s_log := s_log s @ w\<rparr>)"
      and "guard_invar g" and "phase_of g = PReady"
      using Handshake_ok [OF si True call [unfolded err] w] err by metis
    moreover have "handshake_entry app (Ret (resp, err)) = AHandshake (Some (hr_Capabilities resp))"
      using w err ap by (simp add: handshake_entry_def)
    ultimately show ?thesis using inv True w
      by (simp add: trace_invar_def server_invar_def seen_all_snoc)
  qed
qed

lemma trace_invar_ExecuteBlock:
  assumes inv: "trace_invar all app s"
  shows "trace_invar all app (snd (ExecuteBlock b s))"
proof -
  have si: "server_invar s" and ap: "s_app s = recorded app" using inv by (auto simp: trace_invar_def)
  consider "server_phase s = PReady" | "quiescent (server_phase s)" "server_phase s \<noteq> PReady"
    | "server_phase s \<in> {PExecuting, PCommitting}"
    using inv by (cases "server_phase s") (auto simp: trace_invar_def)
  then show ?thesis
  proof cases
    case 1
    obtain r a where m: "m_ExecuteBlock app b (fst (s_state s)) = (r, a)" by force
    have call: "m_ExecuteBlock (s_app s) b (s_state s) = (r, (a, snd (s_state s) @ [execute_entry r]))"
      using m ap by (simp add: recorded_def record_call_def)
    show ?thesis using si 1 call
    proof (cases rule: ExecuteBlock_ready)
      case (stuck q g)
      then have "execute_entry r = AExecuteStuck" by (cases r) (auto simp: execute_entry_def)
      then show ?thesis using inv 1 stuck by (auto simp: trace_invar_def server_invar_def seen_all_snoc)
    qed (use inv 1 in \<open>auto simp: trace_invar_def server_invar_def seen_all_snoc execute_entry_def\<close>)
  next
    case 2
    then show ?thesis using inv ExecuteBlock_refused [OF si 2, of b] by auto
  next
    case 3
    then show ?thesis using inv sequential_blocked(1) [OF si 3] by simp
  qed
qed

lemma trace_invar_Commit:
  assumes inv: "trace_invar all app s"
  shows "trace_invar all app (snd (Commit s))"
proof -
  have si: "server_invar s" and ap: "s_app s = recorded app" using inv by (auto simp: trace_invar_def)
  consider "server_phase s = PExecuted" | "quiescent (server_phase s)" "server_phase s \<noteq> PExecuted"
    | "server_phase s \<in> {PExecuting, PCommitting}"
    using inv by (cases "server_phase s") (auto simp: trace_invar_def)
  then show ?thesis
  proof cases
    case 1
    obtain r a where m: "m_Commit app (fst (s_state s)) = (r, a)" by force
    have call: "m_Commit (s_app s) (s_state s) = (r, (a, snd (s_state s) @ [commit_entry r]))"
      using m ap by (simp add: recorded_def record_call_def)
    show ?thesis using si 1 call
      by (cases rule: Commit_executed)
        (use inv 1 in \<open>auto simp: trace_invar_def server_invar_def seen_all_snoc commit_entry_def\<close>)
  next
    case 2
    then show ?thesis using inv Commit_refused [OF si 2] by auto
  next
    case 3
    then show ?thesis using inv sequential_blocked(2) [OF si 3] by simp
  qed
qed

lemma trace_invar_engine:
  assumes inv: "trace_invar all app s" and ret: "\<And>req a. returns (fst (m_Handshake app req a))"
    and pat: "all \<longrightarrow> unguarded c \<longrightarrow> g_handshakeDone (s_guard s)"
  shows "trace_invar all app (engine c s)"
proof -
  have si: "server_invar s" and ap: "s_app s = recorded app" using inv by (auto simp: trace_invar_def)
  note fields = server_invar_app_simps [OF si, unfolded ap recorded_def, simplified]
  have opt: "\<And>m. trace_invar all app (snd (and_then (with_guard CheckConcurrent s) (\<lambda>_ s. call (concurrent m) s)))"
    "\<And>m. unguarded c \<Longrightarrow> trace_invar all app (snd (call (passed_on m) s))"
    using trace_invar_guarded [OF inv] trace_invar_passed_on [OF inv] pat open_phase [OF si] by blast+
  show ?thesis
  proof (cases c)
    case (ECHandshake req)
    then show ?thesis using trace_invar_Handshake [OF inv ret] by simp
  next
    case (ECCheckTx tx mctx)
    have "CheckTx tx mctx s = and_then (with_guard CheckConcurrent s) (\<lambda>_ s. call (concurrent (m_CheckTx app tx mctx)) s)"
      using with_check [of s] si ap by (cases "server_phase s \<in> {PInit, PHandshaking}")
        (auto simp: CheckTx_def server_invar_def recorded_def)
    then show ?thesis using opt ECCheckTx by simp
  next
    case (ECQuery q)
    have "Query q s = and_then (with_guard CheckConcurrent s) (\<lambda>_ s. call (concurrent (m_Query app q)) s)"
      using with_check [of s] si ap by (cases "server_phase s \<in> {PInit, PHandshaking}")
        (auto simp: Query_def server_invar_def recorded_def)
    then show ?thesis using opt ECQuery by simp
  qed (use inv opt fields trace_invar_ExecuteBlock trace_invar_Commit in
    \<open>auto simp: BuildProposal_def VerifyProposal_def ExtendVote_def VerifyExtension_def
       AvailableSnapshots_def ExportSnapshot_def ImportSnapshot_def Simulate_def OnBatchCertified_def
       OnBlockConstructed_def split: option.splits\<close>)
qed

lemma trace_invar_fold:
  assumes "\<And>req a. returns (fst (m_Handshake app req a))"
  shows "trace_invar all app s \<Longrightarrow> all \<longrightarrow> patient cs s \<Longrightarrow> trace_invar all app (fold engine cs s)"
  by (induction cs arbitrary: s) (auto intro!: trace_invar_engine assms)

lemma trace_invar_New: "trace_invar all app (New (recorded app) (a, []))"
  using New_invar [of "recorded app" "(a, [])"]
  by (simp add: trace_invar_def) (simp add: New_def watched_def governed_def declared_caps_def)

end
