(* ===== verification/Connections.thy ===== *)
theory Connections
  imports LocalConn Server_Trace
begin

text \<open>
  The interface \<open>Connection\<close> of \<^verbatim>\<open>bapi.go\<close>, which both transports implement, as a table of
  methods over the state of a connection, and what an engine observes through it: the reply
  to each of a sequence of calls. The optional calls go through the \<open>As...\<close> accessors, as the
  interface asks; a call whose accessor gives nil is not made. The in-process connection
  (\<^verbatim>\<open>local/local.go\<close>) is the first instance.
\<close>

section \<open>The interface\<close>

record 'c conn =
  k_Handshake :: "HandshakeRequest \<Rightarrow> ('c, HandshakeResponse) meth"
  k_CheckTx :: "Tx \<Rightarrow> MempoolContext \<Rightarrow> ('c, GateVerdict) meth"
  k_ExecuteBlock :: "FinalizedBlock \<Rightarrow> ('c, BlockOutcome) meth"
  k_Commit :: "('c, CommitResult) meth"
  k_Query :: "StateQuery \<Rightarrow> ('c, StateQueryResult) meth"
  k_Capabilities :: "'c \<Rightarrow> Capabilities"
  k_AsProposalControl :: "'c \<Rightarrow> 'c ProposalControl option"
  k_AsVoteExtender :: "'c \<Rightarrow> 'c VoteExtender option"
  k_AsStateSync :: "'c \<Rightarrow> 'c StateSync option"
  k_AsSimulator :: "'c \<Rightarrow> 'c Simulator option"
  k_AsMempoolObserver :: "'c \<Rightarrow> 'c MempoolObserver option"
  k_Close :: "'c \<Rightarrow> go_error option \<times> 'c"

section \<open>The in-process connection\<close>

text \<open>A method of an interface the application implements, called through the connection.\<close>

definition via_app :: "('a, 'r) meth \<Rightarrow> ('a Connection, 'r) meth" where
  "via_app m = via_srv (call m)"

definition local_conn :: "'a Connection conn" where
  "local_conn = \<lparr>
     k_Handshake = Conn_Handshake, k_CheckTx = Conn_CheckTx, k_ExecuteBlock = Conn_ExecuteBlock,
     k_Commit = Conn_Commit, k_Query = Conn_Query, k_Capabilities = Conn_Capabilities,
     k_AsProposalControl = (\<lambda>c. map_option (\<lambda>p. \<lparr>
       m_BuildProposal = (\<lambda>x. via_app (m_BuildProposal p x)),
       m_VerifyProposal = (\<lambda>x. via_app (m_VerifyProposal p x))\<rparr>) (Conn_AsProposalControl c)),
     k_AsVoteExtender = (\<lambda>c. map_option (\<lambda>v. \<lparr>
       m_ExtendVote = (\<lambda>x. via_app (m_ExtendVote v x)),
       m_VerifyExtension = (\<lambda>x. via_app (m_VerifyExtension v x))\<rparr>) (Conn_AsVoteExtender c)),
     k_AsStateSync = (\<lambda>c. map_option (\<lambda>y. \<lparr>
       m_AvailableSnapshots = via_app (m_AvailableSnapshots y),
       m_ExportSnapshot = (\<lambda>h f. via_app (m_ExportSnapshot y h f)),
       m_ImportSnapshot = (\<lambda>d ch. via_app (m_ImportSnapshot y d ch))\<rparr>) (Conn_AsStateSync c)),
     k_AsSimulator = (\<lambda>c. map_option (\<lambda>m. \<lparr>m_Simulate = (\<lambda>tx. via_app (m_Simulate m tx))\<rparr>) (Conn_AsSimulator c)),
     k_AsMempoolObserver = (\<lambda>c. map_option (\<lambda>m. \<lparr>
       m_OnBatchCertified = (\<lambda>e. via_app (m_OnBatchCertified m e)),
       m_OnBlockConstructed = (\<lambda>e. via_app (m_OnBlockConstructed m e))\<rparr>) (Conn_AsMempoolObserver c)),
     k_Close = (\<lambda>c. (Conn_Close c, c))\<rparr>"

section \<open>What an engine observes\<close>

type_synonym 'r res = "('r \<times> go_error option) go"

datatype reply =
    RNil
  | RHandshake "HandshakeResponse res"
  | RCheckTx "GateVerdict res"
  | RExecuteBlock "BlockOutcome res"
  | RCommit "CommitResult res"
  | RQuery "StateQueryResult res"
  | RBuildProposal "BuiltProposal res"
  | RVerifyProposal "ProposalVerdict res"
  | RExtendVote "byte_slice res"
  | RVerifyExtension "ExtensionVerdict res"
  | RAvailableSnapshots "SnapshotDescriptor list res"
  | RExportSnapshot "(chunk_chan option \<times> SnapshotDescriptor option) res"
  | RImportSnapshot "ImportResult res"
  | RSimulate "TxOutcome res"
  | RObserved "unit res"

definition optional :: "'i option \<Rightarrow> ('i \<Rightarrow> reply \<times> 'c) \<Rightarrow> 'c \<Rightarrow> reply \<times> 'c" where
  "optional i f c = (case i of None \<Rightarrow> (RNil, c) | Some x \<Rightarrow> f x)"

fun engine_via :: "'c conn \<Rightarrow> engine_call \<Rightarrow> 'c \<Rightarrow> reply \<times> 'c" where
  "engine_via k (ECHandshake req) c = apfst RHandshake (k_Handshake k req c)"
| "engine_via k (ECCheckTx tx mctx) c = apfst RCheckTx (k_CheckTx k tx mctx c)"
| "engine_via k (ECExecuteBlock b) c = apfst RExecuteBlock (k_ExecuteBlock k b c)"
| "engine_via k ECCommit c = apfst RCommit (k_Commit k c)"
| "engine_via k (ECQuery q) c = apfst RQuery (k_Query k q c)"
| "engine_via k (ECBuildProposal x) c =
     optional (k_AsProposalControl k c) (\<lambda>p. apfst RBuildProposal (m_BuildProposal p x c)) c"
| "engine_via k (ECVerifyProposal x) c =
     optional (k_AsProposalControl k c) (\<lambda>p. apfst RVerifyProposal (m_VerifyProposal p x c)) c"
| "engine_via k (ECExtendVote x) c =
     optional (k_AsVoteExtender k c) (\<lambda>v. apfst RExtendVote (m_ExtendVote v x c)) c"
| "engine_via k (ECVerifyExtension x) c =
     optional (k_AsVoteExtender k c) (\<lambda>v. apfst RVerifyExtension (m_VerifyExtension v x c)) c"
| "engine_via k ECAvailableSnapshots c =
     optional (k_AsStateSync k c) (\<lambda>y. apfst RAvailableSnapshots (m_AvailableSnapshots y c)) c"
| "engine_via k (ECExportSnapshot h f) c =
     optional (k_AsStateSync k c) (\<lambda>y. apfst RExportSnapshot (m_ExportSnapshot y h f c)) c"
| "engine_via k (ECImportSnapshot d ch) c =
     optional (k_AsStateSync k c) (\<lambda>y. apfst RImportSnapshot (m_ImportSnapshot y d ch c)) c"
| "engine_via k (ECSimulate tx) c =
     optional (k_AsSimulator k c) (\<lambda>m. apfst RSimulate (m_Simulate m tx c)) c"
| "engine_via k (ECOnBatchCertified e) c =
     optional (k_AsMempoolObserver k c) (\<lambda>m. apfst RObserved (m_OnBatchCertified m e c)) c"
| "engine_via k (ECOnBlockConstructed e) c =
     optional (k_AsMempoolObserver k c) (\<lambda>m. apfst RObserved (m_OnBlockConstructed m e c)) c"

text \<open>A call that never comes back, as a reply.\<close>

fun hung :: "reply \<Rightarrow> bool" where
  "hung RNil = False"
| "hung (RHandshake r) = (r = Blocked)" | "hung (RCheckTx r) = (r = Blocked)" | "hung (RExecuteBlock r) = (r = Blocked)"
| "hung (RCommit r) = (r = Blocked)" | "hung (RQuery r) = (r = Blocked)" | "hung (RBuildProposal r) = (r = Blocked)"
| "hung (RVerifyProposal r) = (r = Blocked)" | "hung (RExtendVote r) = (r = Blocked)" | "hung (RVerifyExtension r) = (r = Blocked)"
| "hung (RAvailableSnapshots r) = (r = Blocked)" | "hung (RExportSnapshot r) = (r = Blocked)"
| "hung (RImportSnapshot r) = (r = Blocked)" | "hung (RSimulate r) = (r = Blocked)" | "hung (RObserved r) = (r = Blocked)"

text \<open>
  A method of an application called from beginning to end, without a server, with its reply;
  \<open>RNil\<close> if the interface is not there.
\<close>

fun handle :: "'a Lifecycle \<Rightarrow> engine_call \<Rightarrow> 'a \<Rightarrow> reply \<times> 'a" where
  "handle app (ECHandshake req) a = apfst RHandshake (m_Handshake app req a)"
| "handle app (ECCheckTx tx mctx) a = apfst RCheckTx (m_CheckTx app tx mctx a)"
| "handle app (ECExecuteBlock b) a = apfst RExecuteBlock (m_ExecuteBlock app b a)"
| "handle app ECCommit a = apfst RCommit (m_Commit app a)"
| "handle app (ECQuery q) a = apfst RQuery (m_Query app q a)"
| "handle app (ECBuildProposal x) a = optional (as_ProposalControl app) (\<lambda>i. apfst RBuildProposal (m_BuildProposal i x a)) a"
| "handle app (ECVerifyProposal x) a = optional (as_ProposalControl app) (\<lambda>i. apfst RVerifyProposal (m_VerifyProposal i x a)) a"
| "handle app (ECExtendVote x) a = optional (as_VoteExtender app) (\<lambda>i. apfst RExtendVote (m_ExtendVote i x a)) a"
| "handle app (ECVerifyExtension x) a = optional (as_VoteExtender app) (\<lambda>i. apfst RVerifyExtension (m_VerifyExtension i x a)) a"
| "handle app ECAvailableSnapshots a = optional (as_StateSync app) (\<lambda>i. apfst RAvailableSnapshots (m_AvailableSnapshots i a)) a"
| "handle app (ECExportSnapshot h f) a = optional (as_StateSync app) (\<lambda>i. apfst RExportSnapshot (m_ExportSnapshot i h f a)) a"
| "handle app (ECImportSnapshot d ch) a = optional (as_StateSync app) (\<lambda>i. apfst RImportSnapshot (m_ImportSnapshot i d ch a)) a"
| "handle app (ECSimulate tx) a = optional (as_Simulator app) (\<lambda>i. apfst RSimulate (m_Simulate i tx a)) a"
| "handle app (ECOnBatchCertified e) a = optional (as_MempoolObserver app) (\<lambda>i. apfst RObserved (m_OnBatchCertified i e a)) a"
| "handle app (ECOnBlockConstructed e) a = optional (as_MempoolObserver app) (\<lambda>i. apfst RObserved (m_OnBlockConstructed i e a)) a"

fun session :: "'c conn \<Rightarrow> engine_call list \<Rightarrow> 'c \<Rightarrow> reply list \<times> 'c" where
  "session k [] c = ([], c)"
| "session k (x # xs) c =
     (case engine_via k x c of (r, c') \<Rightarrow>
        (case session k xs c' of (rs, c'') \<Rightarrow> (r # rs, c'')))"

text \<open>Each call of a session meets a condition on the state it is made in.\<close>

fun all_along :: "'c conn \<Rightarrow> (engine_call \<Rightarrow> 'c \<Rightarrow> bool) \<Rightarrow> engine_call list \<Rightarrow> 'c \<Rightarrow> bool" where
  "all_along k P [] c = True"
| "all_along k P (x # xs) c = (P x c \<and> all_along k P xs (snd (engine_via k x c)))"

text \<open>
  Two connections that answer alike, up to a view of the replies: a simulation between their
  states carries every step, hence every session.
\<close>

locale conn_simulation =
  fixes k :: "'c conn" and k' :: "'d conn"
    and rel :: "'c \<Rightarrow> 'd \<Rightarrow> bool"
    and view :: "reply \<Rightarrow> reply"
    and admitted :: "engine_call \<Rightarrow> 'c \<Rightarrow> bool"
  assumes step: "rel c d \<Longrightarrow> admitted x c \<Longrightarrow>
    \<exists>d'. engine_via k' x d = (view (fst (engine_via k x c)), d') \<and> rel (snd (engine_via k x c)) d'"
begin

lemma sessions:
  assumes "rel c d" and "all_along k admitted xs c"
  shows "\<exists>d'. session k' xs d = (map view (fst (session k xs c)), d') \<and> rel (snd (session k xs c)) d'"
  using assms
proof (induction xs arbitrary: c d)
  case Nil
  then show ?case by simp
next
  case (Cons x xs)
  obtain d1 where 1: "engine_via k' x d = (view (fst (engine_via k x c)), d1)" "rel (snd (engine_via k x c)) d1"
    using step [of c d x] Cons.prems by auto
  obtain d2 where "session k' xs d1 = (map view (fst (session k xs (snd (engine_via k x c)))), d2)"
    "rel (snd (session k xs (snd (engine_via k x c)))) d2"
    using Cons.IH [OF 1(2)] Cons.prems(2) by auto
  then show ?case using 1(1) by (simp add: split_def)
qed

end

text \<open>The optional calls of a local connection, in terms of the server's own methods.\<close>

lemma via_srv_pair: "via_srv m c = (fst (m (c_srv c)), c\<lparr>c_srv := snd (m (c_srv c))\<rparr>)"
  by (simp add: via_srv_def split_def)

lemma local_optional:
  assumes "server_invar (c_srv c)"
  shows "Capabilities_Has (s_caps (c_srv c)) CapProposalControl \<Longrightarrow> \<exists>p. s_proposalCtl (c_srv c) = Some p"
    and "Capabilities_Has (s_caps (c_srv c)) CapVoteExtensions \<Longrightarrow> \<exists>v. s_voteExt (c_srv c) = Some v"
    and "Capabilities_Has (s_caps (c_srv c)) CapStateSync \<Longrightarrow> \<exists>y. s_stateSync (c_srv c) = Some y"
    and "Capabilities_Has (s_caps (c_srv c)) CapSimulation \<Longrightarrow> \<exists>m. s_simulator (c_srv c) = Some m"
  using accessors_exact [OF assms]
  by (auto simp: AsProposalControl_def AsVoteExtender_def AsStateSync_def AsSimulator_def Server_Capabilities_def)

end
