(* ===== verification/Harness.thy ===== *)
theory Harness
  imports Server
begin

text \<open>
  \<^verbatim>\<open>testing/harness.go\<close>: the test harness, which is a server driven by helpers that stop the
  test on any error. A failed test (\<open>t.Fatalf\<close>) is the result \<open>Panic\<close> with the text of the
  failure. The harness's own state is the server's, so its methods are methods over servers.

  The second half is about applications that keep the contract \<open>lifecycle_app\<close>: a server in
  front of one runs a chain of blocks to the outcomes of the contract's \<open>exec\<close>, and its
  queries never see a block that is not committed.
\<close>

section \<open>Definitions\<close>

text \<open>
  A format with its verbs (a percent sign and a letter) replaced by the arguments, which are
  given in the text that the verb asks for.
\<close>

fun Sprintf :: "string \<Rightarrow> string list \<Rightarrow> string" where
  "Sprintf fmt [] = fmt"
| "Sprintf fmt (x # args) =
     (case dropWhile (\<lambda>c. c \<noteq> CHR ''%'') fmt of
        percent # verb # rest \<Rightarrow> takeWhile (\<lambda>c. c \<noteq> CHR ''%'') fmt @ x @ Sprintf rest args
      | _ \<Rightarrow> fmt)"

definition t_Fatalf :: "string \<Rightarrow> string list \<Rightarrow> 'r go" where
  "t_Fatalf fmt args = Panic (Sprintf fmt args)"

definition NewHarness :: "'a Lifecycle \<Rightarrow> 'a \<Rightarrow> 'a Server" where
  "NewHarness app a = New app a"

definition Genesis :: "GenesisDoc \<Rightarrow> 'a Server \<Rightarrow> HandshakeResponse go \<times> 'a Server" where
  "Genesis genesis h =
     and_then (Handshake \<lparr>hq_LastCommitted = None, hq_Genesis = Some genesis\<rparr> h) (\<lambda>(resp, err) h.
       case err of
         Some e \<Rightarrow> (t_Fatalf ''Handshake (genesis) failed: %v'' [Error_text e], h)
       | None \<Rightarrow> (Ret resp, h))"

definition Restart :: "BlockID \<Rightarrow> 'a Server \<Rightarrow> HandshakeResponse go \<times> 'a Server" where
  "Restart block h =
     and_then (Handshake \<lparr>hq_LastCommitted = Some block, hq_Genesis = None\<rparr> h) (\<lambda>(resp, err) h.
       case err of
         Some e \<Rightarrow> (t_Fatalf ''Handshake (restart) failed: %v'' [Error_text e], h)
       | None \<Rightarrow> (Ret resp, h))"

definition Harness_ExecuteBlock :: "FinalizedBlock \<Rightarrow> 'a Server \<Rightarrow> BlockOutcome go \<times> 'a Server" where
  "Harness_ExecuteBlock block h =
     and_then (ExecuteBlock block h) (\<lambda>(outcome, err) h.
       case err of
         Some e \<Rightarrow> (t_Fatalf ''ExecuteBlock (height=%d) failed: %v''
                      [dec_nat (unat (fb_Height block)), Error_text e], h)
       | None \<Rightarrow> (Ret outcome, h))"

definition Harness_Commit :: "'a Server \<Rightarrow> CommitResult go \<times> 'a Server" where
  "Harness_Commit h =
     and_then (Commit h) (\<lambda>(result, err) h.
       case err of
         Some e \<Rightarrow> (t_Fatalf ''Commit failed: %v'' [Error_text e], h)
       | None \<Rightarrow> (Ret result, h))"

definition ExecuteAndCommit :: "FinalizedBlock \<Rightarrow> 'a Server \<Rightarrow> BlockOutcome go \<times> 'a Server" where
  "ExecuteAndCommit block h =
     and_then (Harness_ExecuteBlock block h) (\<lambda>outcome h.
     and_then (Harness_Commit h) (\<lambda>_ h. (Ret outcome, h)))"

definition Harness_CheckTx :: "Tx \<Rightarrow> 'a Server \<Rightarrow> GateVerdict go \<times> 'a Server" where
  "Harness_CheckTx tx h =
     and_then (CheckTx tx MempoolFirstSeen h) (\<lambda>(verdict, err) h.
       case err of
         Some e \<Rightarrow> (t_Fatalf ''CheckTx failed: %v'' [Error_text e], h)
       | None \<Rightarrow> (Ret verdict, h))"

definition RecheckTx :: "Tx \<Rightarrow> 'a Server \<Rightarrow> GateVerdict go \<times> 'a Server" where
  "RecheckTx tx h =
     and_then (CheckTx tx MempoolRevalidation h) (\<lambda>(verdict, err) h.
       case err of
         Some e \<Rightarrow> (t_Fatalf ''RecheckTx failed: %v'' [Error_text e], h)
       | None \<Rightarrow> (Ret verdict, h))"

definition Harness_Query :: "QueryPath \<Rightarrow> byte_slice \<Rightarrow> 'a Server \<Rightarrow> StateQueryResult go \<times> 'a Server" where
  "Harness_Query path data h =
     and_then (Query \<lparr>sq_Path = path, sq_Data = data, sq_Height = None, sq_Prove = False\<rparr> h)
       (\<lambda>(result, err) h.
       case err of
         Some e \<Rightarrow> (t_Fatalf ''Query failed: %v'' [Error_text e], h)
       | None \<Rightarrow> (Ret result, h))"

text \<open>\<open>%q\<close>, for a text without characters that have to be escaped.\<close>

definition quote_text :: "string \<Rightarrow> string" where
  "quote_text s = [CHR 0x22] @ s @ [CHR 0x22]"

definition MustAcceptTx :: "Tx \<Rightarrow> 'a Server \<Rightarrow> unit go \<times> 'a Server" where
  "MustAcceptTx tx h =
     and_then (Harness_CheckTx tx h) (\<lambda>v h.
       if \<not> GateVerdict_Accepted v
       then (t_Fatalf ''expected tx accepted, got code=%d info=%q'' [dec_nat (unat (gv_Code v)), quote_text (gv_Info v)], h)
       else (Ret (), h))"

definition MustRejectTx :: "Tx \<Rightarrow> 'a Server \<Rightarrow> unit go \<times> 'a Server" where
  "MustRejectTx tx h =
     and_then (Harness_CheckTx tx h) (\<lambda>v h.
       if GateVerdict_Accepted v then (t_Fatalf ''expected tx rejected, got accepted'' [], h)
       else (Ret (), h))"

text \<open>\<open>time.Date(2024, 1, 1, 0, 0, 0, 0, time.UTC)\<close> is second 1704067200 of the Unix epoch.\<close>

definition date_2024 :: go_time where
  "date_2024 = \<lparr>tm_Unix = 1704067200, tm_Nanosecond = 0\<rparr>"

definition DefaultGenesis :: GenesisDoc where
  "DefaultGenesis = \<lparr>gd_ChainID = ''test-chain'', gd_GenesisTime = TimeToTimestamp date_2024,
     gd_InitialHeight = 1,
     gd_ConsensusParams = \<lparr>cp_MaxBlockBytes = 1024 * 1024,
        cp_MaxEvidenceAge = DurationFromGo (24 * 3600000000000), cp_MaxTxBytes = 64 * 1024\<rparr>,
     gd_Validators = [], gd_AppState = []\<rparr>"

definition GenesisDefault :: "'a Server \<Rightarrow> HandshakeResponse go \<times> 'a Server" where
  "GenesisDefault h = Genesis DefaultGenesis h"

definition MakeBlock :: "u64 \<Rightarrow> Tx list \<Rightarrow> FinalizedBlock" where
  "MakeBlock height txs =
     (let t = time_Add date_2024 (height * 5 * 1000000000) in
      \<lparr>fb_Height = height, fb_Time = TimeToTimestamp t, fb_Proposer = zero_address, fb_Txs = txs,
       fb_LastBlockHash = zero_hash, fb_Evidence = [], fb_VoteExtensions = []\<rparr>)"

definition MakeEmptyBlock :: "u64 \<Rightarrow> FinalizedBlock" where
  "MakeEmptyBlock height = MakeBlock height []"

text \<open>A chain of blocks through the harness, and through a specification.\<close>

fun run_chain :: "FinalizedBlock list \<Rightarrow> 'a Server \<Rightarrow> BlockOutcome list go \<times> 'a Server" where
  "run_chain [] h = (Ret [], h)"
| "run_chain (b # bs) h =
     and_then (ExecuteAndCommit b h) (\<lambda>o1 h.
     and_then (run_chain bs h) (\<lambda>os h. (Ret (o1 # os), h)))"

fun exec_chain :: "('c \<Rightarrow> FinalizedBlock \<Rightarrow> BlockOutcome \<times> 'c) \<Rightarrow> 'c \<Rightarrow> FinalizedBlock list \<Rightarrow>
    BlockOutcome list \<times> 'c" where
  "exec_chain f c [] = ([], c)"
| "exec_chain f c (b # bs) =
     (case f c b of (out, c') \<Rightarrow> case exec_chain f c' bs of (outs, c'') \<Rightarrow> (out # outs, c''))"

lemma exec_chain_Cons [simp]:
  "fst (exec_chain f c (b # bs)) = fst (f c b) # fst (exec_chain f (snd (f c b)) bs)"
  "snd (exec_chain f c (b # bs)) = snd (exec_chain f (snd (f c b)) bs)"
  by (simp_all split: prod.splits)

declare exec_chain.simps(2) [simp del]

section \<open>Servers in front of an application that keeps the contract\<close>

context lifecycle_app
begin

definition serving :: "phase \<Rightarrow> 'a Server \<Rightarrow> bool" where
  "serving p s \<longleftrightarrow> server_invar s \<and> server_phase s = p \<and> s_app s = app \<and> invar (s_state s)"

lemma serving_New: "invar a \<Longrightarrow> serving PInit (New app a)"
  using New_invar [of app a] by (simp add: serving_def) (simp add: New_def)

lemma serving_Handshake:
  assumes "serving PInit s"
    and caps: "\<And>a resp a'. invar a \<Longrightarrow> m_Handshake app req a = (Ret (resp, None), a') \<Longrightarrow>
          fst (discoverCapabilities app (hr_Capabilities resp)) = None"
  obtains resp s' where "Handshake req s = (Ret (resp, None), s')" and "serving PReady s'"
    and "committed (s_state s') = committed (s_state s)" and "hr_AppHash resp \<noteq> None"
    and "hq_LastCommitted req = None \<longrightarrow> hr_LastBlock resp = None"
proof -
  have s: "server_invar s" "server_phase s = PInit" "s_app s = app" "invar (s_state s)"
    using assms(1) by (auto simp: serving_def)
  obtain resp a' where a': "m_Handshake app req (s_state s) = (Ret (resp, None), a')" "invar a'"
    "committed a' = committed (s_state s)" "hr_AppHash resp \<noteq> None"
    "hq_LastCommitted req = None \<longrightarrow> hr_LastBlock resp = None"
    using handshake_spec [OF s(4), of req] by (elim exE conjE)
  obtain w where w: "discoverCapabilities (s_app s) (hr_Capabilities resp) = (None, w)"
    using caps [OF s(4) a'(1)] s(3) by (metis eq_fst_iff)
  obtain g where g: "Handshake req s = (Ret (resp, None),
      s\<lparr>s_state := a', s_guard := g, s_caps := hr_Capabilities resp, s_log := s_log s @ w\<rparr>)"
    and "guard_invar g" and "phase_of g = PReady"
    using Handshake_ok [OF s(1,2) _ w] a'(1) s(3) by metis
  moreover have "serving PReady (s\<lparr>s_state := a', s_guard := g, s_caps := hr_Capabilities resp, s_log := s_log s @ w\<rparr>)"
    using s a' w calculation(2,3) by (auto simp: serving_def server_invar_def)
  ultimately show ?thesis using that [of resp] a' by simp
qed

lemma serving_ExecuteBlock:
  assumes "serving PReady s"
  obtains s' where "ExecuteBlock b s = (Ret (fst (exec (committed (s_state s)) b), None), s')"
    and "serving PExecuted s'" and "committed (s_state s') = committed (s_state s)"
    and "staged (s_state s') = Some (snd (exec (committed (s_state s)) b))"
    and "LastOutcome s' = Some (fst (exec (committed (s_state s)) b))"
proof -
  have s: "server_invar s" "server_phase s = PReady" "s_app s = app" "invar (s_state s)"
    using assms(1) by (auto simp: serving_def)
  obtain a' where a': "m_ExecuteBlock (s_app s) b (s_state s) = (Ret (fst (exec (committed (s_state s)) b), None), a')"
    "invar a'" "committed a' = committed (s_state s)" "staged a' = Some (snd (exec (committed (s_state s)) b))"
    using execute_spec [OF s(4), of b] s(3) by auto
  show ?thesis using s(1,2) a'(1)
  proof (cases rule: ExecuteBlock_ready)
    case (ok out g)
    then have out: "out = fst (exec (committed (s_state s)) b)" by simp
    show ?thesis
      by (rule that [OF ok(4) [unfolded out]]) (use ok s a' in \<open>auto simp: serving_def server_invar_def LastOutcome_def\<close>)
  qed auto
qed

lemma serving_Commit:
  assumes "serving PExecuted s" and "staged (s_state s) = Some c"
  obtains r s' where "Commit s = (Ret (r, None), s')" and "serving PReady s'"
    and "committed (s_state s') = c" and "LastOutcome s' = None"
proof -
  have s: "server_invar s" "server_phase s = PExecuted" "s_app s = app" "invar (s_state s)"
    using assms(1) by (auto simp: serving_def)
  obtain r a' where a': "m_Commit (s_app s) (s_state s) = (Ret (r, None), a')" "invar a'" "committed a' = c"
    using commit_spec [OF s(4) assms(2)] s(3) by auto
  show ?thesis using s(1,2) a'(1)
  proof (cases rule: Commit_executed)
    case (finished res err g)
    then have err: "err = None" by simp
    show ?thesis
      by (rule that [OF finished(4) [unfolded err]]) (use finished s a' in \<open>auto simp: serving_def server_invar_def LastOutcome_def\<close>)
  qed auto
qed

lemma serving_ExecuteAndCommit:
  assumes "serving PReady s"
  obtains s' where "ExecuteAndCommit b s = (Ret (fst (exec (committed (s_state s)) b)), s')"
    and "serving PReady s'" and "committed (s_state s') = snd (exec (committed (s_state s)) b)"
proof -
  obtain s1 where s1: "ExecuteBlock b s = (Ret (fst (exec (committed (s_state s)) b), None), s1)"
    "serving PExecuted s1" "staged (s_state s1) = Some (snd (exec (committed (s_state s)) b))"
    using serving_ExecuteBlock [OF assms] by metis
  obtain r s2 where s2: "Commit s1 = (Ret (r, None), s2)" "serving PReady s2"
    "committed (s_state s2) = snd (exec (committed (s_state s)) b)"
    using serving_Commit [OF s1(2,3)] by metis
  show ?thesis
    by (rule that [of s2])
      (use s1 s2 in \<open>simp_all add: ExecuteAndCommit_def Harness_ExecuteBlock_def Harness_Commit_def\<close>)
qed

text \<open>A chain of blocks gives the outcomes and the state of the specification.\<close>

lemma serving_run_chain:
  assumes "serving PReady s"
  shows "\<exists>s'. run_chain bs s = (Ret (fst (exec_chain exec (committed (s_state s)) bs)), s') \<and>
      serving PReady s' \<and> committed (s_state s') = snd (exec_chain exec (committed (s_state s)) bs)"
  using assms
proof (induction bs arbitrary: s)
  case Nil
  then show ?case by simp
next
  case (Cons b bs)
  obtain s1 where s1: "ExecuteAndCommit b s = (Ret (fst (exec (committed (s_state s)) b)), s1)"
    "serving PReady s1" "committed (s_state s1) = snd (exec (committed (s_state s)) b)"
    using serving_ExecuteAndCommit [OF Cons.prems] by metis
  show ?case using Cons.IH [OF s1(2)] s1 by auto
qed

text \<open>The concurrent calls answer from the committed state and change nothing.\<close>

lemma serving_Query:
  assumes "serving p s" and "p \<notin> {PInit, PHandshaking}"
  shows "Query q s = (Ret (answer (committed (s_state s)) q, None), s)"
  using assms with_check(1) [of s] query_spec [of "s_state s" q]
  by (auto simp: serving_def server_invar_def Query_def call_def)

lemma serving_CheckTx:
  assumes "serving p s" and "p \<notin> {PInit, PHandshaking}"
  shows "\<exists>v. CheckTx tx mctx s = (Ret (v, None), s)"
  using assms with_check(1) [of s] checktx_spec [of "s_state s" tx mctx]
  by (auto simp: serving_def server_invar_def CheckTx_def call_def)

text \<open>Between \<open>ExecuteBlock\<close> and \<open>Commit\<close> queries still see the state before the block.\<close>

lemma query_isolation:
  assumes "serving PReady s"
  shows "fst (Query q (snd (ExecuteBlock b s))) = fst (Query q s)"
proof -
  obtain s1 where "ExecuteBlock b s = (Ret (fst (exec (committed (s_state s)) b), None), s1)"
    "serving PExecuted s1" "committed (s_state s1) = committed (s_state s)"
    using serving_ExecuteBlock [OF assms] by metis
  then show ?thesis using serving_Query [of PExecuted s1 q] serving_Query [OF assms, of q] by simp
qed

end

end
