(* ===== verification/Sha256.thy ===== *)
theory Sha256
  imports Prelude
begin

text \<open>
  \<^verbatim>\<open>crypto/sha256\<close>, as far as the applications use it: \<open>Sum256\<close>, the hash of a byte slice
  (FIPS 180-4). The hash state is a tuple of eight 32-bit words, a block is 64 bytes, and
  the message schedule is built by appending to the sixteen words of the block.
\<close>

text \<open>
  The round constants (the first 32 bits of the fractional parts of the cube roots of the
  first 64 primes) and the initial state (the same of the square roots of the first eight).
\<close>

definition sha_K :: "u32 list" where
  "sha_K =
     [1116352408, 1899447441, 3049323471, 3921009573, 961987163, 1508970993, 2453635748, 2870763221,
      3624381080, 310598401, 607225278, 1426881987, 1925078388, 2162078206, 2614888103, 3248222580,
      3835390401, 4022224774, 264347078, 604807628, 770255983, 1249150122, 1555081692, 1996064986,
      2554220882, 2821834349, 2952996808, 3210313671, 3336571891, 3584528711, 113926993, 338241895,
      666307205, 773529912, 1294757372, 1396182291, 1695183700, 1986661051, 2177026350, 2456956037,
      2730485921, 2820302411, 3259730800, 3345764771, 3516065817, 3600352804, 4094571909, 275423344,
      430227734, 506948616, 659060556, 883997877, 958139571, 1322822218, 1537002063, 1747873779,
      1955562222, 2024104815, 2227730452, 2361852424, 2428436474, 2756734187, 3204031479, 3329325298]"

type_synonym sha_state = "u32 \<times> u32 \<times> u32 \<times> u32 \<times> u32 \<times> u32 \<times> u32 \<times> u32"

definition sha_H0 :: sha_state where
  "sha_H0 = (1779033703, 3144134277, 1013904242, 2773480762, 1359893119, 2600822924, 528734635, 1541459225)"

definition sha_pad :: "byte_slice \<Rightarrow> byte_slice" where
  "sha_pad m =
     m @ [0x80] @ replicate ((119 - length m mod 64) mod 64) 0 @ PutUint64 (of_nat (8 * length m))"

fun sha_words :: "byte_slice \<Rightarrow> u32 list" where
  "sha_words (b0 # b1 # b2 # b3 # bs) =
     (push_bit 24 (ucast b0) OR push_bit 16 (ucast b1) OR push_bit 8 (ucast b2) OR ucast b3) #
       sha_words bs"
| "sha_words _ = []"

fun sha_blocks :: "'a list \<Rightarrow> 'a list list" where
  "sha_blocks ws = (if ws = [] then [] else take 16 ws # sha_blocks (drop 16 ws))"

declare sha_blocks.simps [simp del]

definition sha_sigma0 :: "u32 \<Rightarrow> u32" where
  "sha_sigma0 x = word_rotr 7 x XOR word_rotr 18 x XOR drop_bit 3 x"

definition sha_sigma1 :: "u32 \<Rightarrow> u32" where
  "sha_sigma1 x = word_rotr 17 x XOR word_rotr 19 x XOR drop_bit 10 x"

definition sha_Sigma0 :: "u32 \<Rightarrow> u32" where
  "sha_Sigma0 x = word_rotr 2 x XOR word_rotr 13 x XOR word_rotr 22 x"

definition sha_Sigma1 :: "u32 \<Rightarrow> u32" where
  "sha_Sigma1 x = word_rotr 6 x XOR word_rotr 11 x XOR word_rotr 25 x"

fun sha_schedule :: "nat \<Rightarrow> u32 list \<Rightarrow> u32 list" where
  "sha_schedule 0 w = w"
| "sha_schedule (Suc n) w =
     (let t = length w
      in sha_schedule n
           (w @ [sha_sigma1 (w ! (t - 2)) + w ! (t - 7) + sha_sigma0 (w ! (t - 15)) + w ! (t - 16)]))"

fun sha_round :: "u32 \<times> u32 \<Rightarrow> sha_state \<Rightarrow> sha_state" where
  "sha_round (k, w) (a, b, c, d, e, f, g, h) =
     (let t1 = h + sha_Sigma1 e + ((e AND f) XOR (NOT e AND g)) + k + w;
          t2 = sha_Sigma0 a + ((a AND b) XOR (a AND c) XOR (b AND c))
      in (t1 + t2, a, b, c, d + t1, e, f, g))"

fun sha_add :: "sha_state \<Rightarrow> sha_state \<Rightarrow> sha_state" where
  "sha_add (a, b, c, d, e, f, g, h) (a', b', c', d', e', f', g', h') =
     (a + a', b + b', c + c', d + d', e + e', f + f', g + g', h + h')"

definition sha_block :: "u32 list \<Rightarrow> sha_state \<Rightarrow> sha_state" where
  "sha_block ws st = sha_add st (fold sha_round (zip sha_K (sha_schedule 48 ws)) st)"

definition sha_be32 :: "u32 \<Rightarrow> byte_slice" where
  "sha_be32 w = [ucast (drop_bit 24 w), ucast (drop_bit 16 w), ucast (drop_bit 8 w), ucast w]"

fun sha_digest :: "sha_state \<Rightarrow> byte_slice" where
  "sha_digest (a, b, c, d, e, f, g, h) =
     sha_be32 a @ sha_be32 b @ sha_be32 c @ sha_be32 d @ sha_be32 e @ sha_be32 f @ sha_be32 g @ sha_be32 h"

definition Sum256 :: "byte_slice \<Rightarrow> byte_slice" where
  "Sum256 m = sha_digest (fold sha_block (sha_blocks (sha_words (sha_pad m))) sha_H0)"

lemma length_Sum256 [simp]: "length (Sum256 m) = 32"
proof -
  have "length (sha_digest st) = 32" for st
    by (cases st rule: sha_digest.cases) (simp add: sha_be32_def)
  then show ?thesis by (simp add: Sum256_def)
qed

text \<open>The constants are the roots they are meant to be.\<close>

definition sha_primes :: "int list" where
  "sha_primes =
     [2, 3, 5, 7, 11, 13, 17, 19, 23, 29, 31, 37, 41, 43, 47, 53,
      59, 61, 67, 71, 73, 79, 83, 89, 97, 101, 103, 107, 109, 113, 127, 131,
      137, 139, 149, 151, 157, 163, 167, 173, 179, 181, 191, 193, 197, 199, 211, 223,
      227, 229, 233, 239, 241, 251, 257, 263, 269, 271, 277, 281, 283, 293, 307, 311]"

lemma sha_K_cube_roots:
  "length sha_K = 64 \<and> length sha_primes = 64 \<and>
   list_all (\<lambda>(p, k). list_ex (\<lambda>i. let x = i * 2 ^ 32 + uint k in
       x * x * x \<le> p * 2 ^ 96 \<and> p * 2 ^ 96 < (x + 1) * (x + 1) * (x + 1)) [1, 2, 3, 4, 5, 6])
     (zip sha_primes sha_K)"
  by code_simp

text \<open>The one-block example of the standard, evaluated by the kernel.\<close>

lemma Sum256_abc:
  "Sum256 (bytes ''abc'') =
     [0xba, 0x78, 0x16, 0xbf, 0x8f, 0x01, 0xcf, 0xea, 0x41, 0x41, 0x40, 0xde, 0x5d, 0xae, 0x22, 0x23,
      0xb0, 0x03, 0x61, 0xa3, 0x96, 0x17, 0x7a, 0x9c, 0xb4, 0x10, 0xff, 0x61, 0xf2, 0x00, 0x15, 0xad]"
  by code_simp

end
