(* ===== verification/Counter.thy ===== *)
theory Counter
  imports Harness Sha256
begin

text \<open>
  \<^verbatim>\<open>example/counter/app.go\<close>: the minimal application. Its state is a counter, the hash of it and
  a height, with a staging copy of the three; a transaction is eight bytes that are added
  to the counter modulo \<open>2\<^sup>6\<^sup>4\<close>. A handler is one step here; the read-write lock is the
  subject of \<open>Example_Locks\<close>.
\<close>

section \<open>Definitions\<close>

record CounterStaged =
  cs_count :: u64
  cs_appHash :: AppHash
  cs_height :: u64

record CounterApp =
  ca_count :: u64
  ca_appHash :: AppHash
  ca_height :: u64
  ca_staged :: CounterStaged

definition computeHash :: "u64 \<Rightarrow> AppHash" where
  "computeHash cnt = Sum256 (PutUint64 cnt)"

definition Counter_New :: CounterApp where
  "Counter_New = \<lparr>ca_count = 0, ca_appHash = computeHash 0, ca_height = 0,
     ca_staged = \<lparr>cs_count = 0, cs_appHash = zero_hash, cs_height = 0\<rparr>\<rparr>"

definition validateTx :: "Tx \<Rightarrow> go_error option" where
  "validateTx tx =
     (if length tx \<noteq> 8 then Some (ErrorString (''tx must be 8 bytes, got '' @ dec_nat (length tx)))
      else None)"

definition Counter_Handshake :: "HandshakeRequest \<Rightarrow> (CounterApp, HandshakeResponse) meth" where
  "Counter_Handshake req app =
     (case hq_LastCommitted req of
        None \<Rightarrow>
          (Ret (\<lparr>hr_LastBlock = None, hr_AppHash = Some (computeHash 0), hr_Capabilities = 0\<rparr>, None), app)
      | Some _ \<Rightarrow>
          (Ret (\<lparr>hr_LastBlock = Some \<lparr>bid_Height = ca_height app, bid_Hash = zero_hash\<rparr>,
                 hr_AppHash = Some (ca_appHash app), hr_Capabilities = 0\<rparr>, None), app))"

definition Counter_CheckTx :: "Tx \<Rightarrow> MempoolContext \<Rightarrow> (CounterApp, GateVerdict) meth" where
  "Counter_CheckTx tx mctx app =
     (case validateTx tx of
        Some err \<Rightarrow> (Ret (zero_GateVerdict\<lparr>gv_Code := 1, gv_Info := Error_text err\<rparr>, None), app)
      | None \<Rightarrow> (Ret (zero_GateVerdict\<lparr>gv_Code := 0, gv_Priority := 0\<rparr>, None), app))"

definition increment_event :: "u64 \<Rightarrow> u64 \<Rightarrow> Event" where
  "increment_event inc tot = \<lparr>ev_Kind = ''increment'', ev_Attributes =
     [\<lparr>ea_Key = ''by'', ea_Value = dec_nat (unat inc), ea_Index = True\<rparr>,
      \<lparr>ea_Key = ''total'', ea_Value = dec_nat (unat tot), ea_Index = True\<rparr>]\<rparr>"

text \<open>The loop of \<open>ExecuteBlock\<close>, from position \<open>i\<close> of the block on.\<close>

fun Counter_txs :: "nat \<Rightarrow> u64 \<Rightarrow> Tx list \<Rightarrow> (TxOutcome list \<times> u64) go" where
  "Counter_txs i newCount [] = Ret ([], newCount)"
| "Counter_txs i newCount (tx # txs) =
     (case validateTx tx of
        Some err \<Rightarrow>
          go_bind (Counter_txs (Suc i) newCount txs) (\<lambda>(outs, c).
            Ret (zero_TxOutcome\<lparr>txo_Index := of_nat i, txo_Code := 1, txo_Info := Error_text err\<rparr> # outs, c))
      | None \<Rightarrow>
          go_bind (Uint64 tx) (\<lambda>inc.
          let newCount = newCount + inc in
          go_bind (Counter_txs (Suc i) newCount txs) (\<lambda>(outs, c).
            Ret (zero_TxOutcome\<lparr>txo_Index := of_nat i, txo_Code := 0, txo_Data := PutUint64 newCount,
                   txo_Events := [increment_event inc newCount]\<rparr> # outs, c))))"

definition Counter_ExecuteBlock :: "FinalizedBlock \<Rightarrow> (CounterApp, BlockOutcome) meth" where
  "Counter_ExecuteBlock block app =
     (case Counter_txs 0 (ca_count app) (fb_Txs block) of
        Ret (outcomes, newCount) \<Rightarrow>
          (let newHash = computeHash newCount in
           (Ret (zero_BlockOutcome\<lparr>bo_TxOutcomes := outcomes, bo_AppHash := newHash\<rparr>, None),
            app\<lparr>ca_staged := \<lparr>cs_count = newCount, cs_appHash = newHash, cs_height = fb_Height block\<rparr>\<rparr>))
      | Panic m \<Rightarrow> (Panic m, app)
      | Blocked \<Rightarrow> (Blocked, app))"

definition Counter_Commit :: "(CounterApp, CommitResult) meth" where
  "Counter_Commit app =
     (Ret (\<lparr>cr_RetainHeight = 0\<rparr>, None),
      app\<lparr>ca_count := cs_count (ca_staged app), ca_appHash := cs_appHash (ca_staged app),
          ca_height := cs_height (ca_staged app)\<rparr>)"

definition Counter_Query :: "StateQuery \<Rightarrow> (CounterApp, StateQueryResult) meth" where
  "Counter_Query q app =
     (Ret (zero_StateQueryResult\<lparr>sr_Code := 0, sr_Key := bytes ''count'',
             sr_Value := PutUint64 (ca_count app), sr_Height := ca_height app\<rparr>, None), app)"

definition Counter_Count :: "CounterApp \<Rightarrow> u64" where
  "Counter_Count app = ca_count app"

definition IncrementTx :: "u64 \<Rightarrow> Tx" where
  "IncrementTx n = PutUint64 n"

definition counter_lifecycle :: "CounterApp Lifecycle" where
  "counter_lifecycle = \<lparr>m_Handshake = Counter_Handshake, m_CheckTx = Counter_CheckTx,
     m_ExecuteBlock = Counter_ExecuteBlock, m_Commit = Counter_Commit, m_Query = Counter_Query,
     as_ProposalControl = None, as_VoteExtender = None, as_StateSync = None,
     as_Simulator = None, as_MempoolObserver = None\<rparr>"

section \<open>Specification\<close>

text \<open>
  The committed state is a triple. The value of a valid transaction is the big-endian
  number it spells; a block adds the values of its valid transactions.
\<close>

type_synonym counter_state = "u64 \<times> AppHash \<times> u64"

fun tx_value :: "Tx \<Rightarrow> u64" where
  "tx_value tx = (case Uint64 tx of Ret v \<Rightarrow> v | _ \<Rightarrow> 0)"

declare tx_value.simps [simp del]

definition valid_txs :: "Tx list \<Rightarrow> Tx list" where
  "valid_txs txs = filter (\<lambda>tx. length tx = 8) txs"

definition counter_invar :: "CounterApp \<Rightarrow> bool" where
  "counter_invar app \<longleftrightarrow> ca_appHash app = computeHash (ca_count app)"

definition counter_committed :: "CounterApp \<Rightarrow> counter_state" where
  "counter_committed app = (ca_count app, ca_appHash app, ca_height app)"

text \<open>What a commit may install: the staging area once an execution has filled it.\<close>

definition counter_staged :: "CounterApp \<Rightarrow> counter_state option" where
  "counter_staged app =
     (let st = ca_staged app in
      if cs_appHash st = computeHash (cs_count st)
      then Some (cs_count st, cs_appHash st, cs_height st) else None)"

fun counter_outcomes :: "nat \<Rightarrow> u64 \<Rightarrow> Tx list \<Rightarrow> TxOutcome list" where
  "counter_outcomes i c [] = []"
| "counter_outcomes i c (tx # txs) =
     (if length tx = 8
      then zero_TxOutcome\<lparr>txo_Index := of_nat i, txo_Data := PutUint64 (c + tx_value tx),
             txo_Events := [increment_event (tx_value tx) (c + tx_value tx)]\<rparr>
           # counter_outcomes (Suc i) (c + tx_value tx) txs
      else zero_TxOutcome\<lparr>txo_Index := of_nat i, txo_Code := 1,
             txo_Info := ''tx must be 8 bytes, got '' @ dec_nat (length tx)\<rparr>
           # counter_outcomes (Suc i) c txs)"

definition counter_exec :: "counter_state \<Rightarrow> FinalizedBlock \<Rightarrow> BlockOutcome \<times> counter_state" where
  "counter_exec c b =
     (let n = fst c + sum_list (map tx_value (valid_txs (fb_Txs b))) in
      (zero_BlockOutcome\<lparr>bo_TxOutcomes := counter_outcomes 0 (fst c) (fb_Txs b),
         bo_AppHash := computeHash n\<rparr>,
       (n, computeHash n, fb_Height b)))"

definition counter_answer :: "counter_state \<Rightarrow> StateQuery \<Rightarrow> StateQueryResult" where
  "counter_answer c q = (case c of (n, _, h) \<Rightarrow>
     zero_StateQueryResult\<lparr>sr_Key := bytes ''count'', sr_Value := PutUint64 n, sr_Height := h\<rparr>)"

section \<open>Lemmas\<close>

lemma Uint64_8: "length tx = 8 \<Longrightarrow> Uint64 tx = Ret (tx_value tx)"
  by (cases tx rule: Uint64.cases) (auto simp: tx_value.simps)

lemma tx_value_IncrementTx [simp]: "tx_value (IncrementTx n) = n"
  using Uint64_PutUint64 [of n "[]"] by (simp add: IncrementTx_def tx_value.simps)

lemma Counter_txs_spec:
  "Counter_txs i c txs = Ret (counter_outcomes i c txs, c + sum_list (map tx_value (valid_txs txs)))"
  by (induction txs arbitrary: i c)
    (simp_all add: validateTx_def valid_txs_def Uint64_8 add.assoc zero_TxOutcome_def Let_def)

lemma Counter_ExecuteBlock_spec:
  "Counter_ExecuteBlock b app =
     (Ret (fst (counter_exec (counter_committed app) b), None),
      (case snd (counter_exec (counter_committed app) b) of (n, h, ht) \<Rightarrow>
         app\<lparr>ca_staged := \<lparr>cs_count = n, cs_appHash = h, cs_height = ht\<rparr>\<rparr>))"
  by (simp add: Counter_ExecuteBlock_def Counter_txs_spec counter_exec_def counter_committed_def Let_def)

lemma counter_outcomes_index:
  "map txo_Index (counter_outcomes i c txs) = map of_nat [i..<i + length txs]"
proof (induction txs arbitrary: i c)
  case (Cons tx txs)
  have "[i..<i + length (tx # txs)] = i # [Suc i..<Suc i + length txs]"
    using upt_conv_Cons [of i "i + length (tx # txs)"] by simp
  then show ?case using Cons.IH by (simp del: upt_Suc)
qed simp

interpretation counter: lifecycle_app counter_lifecycle counter_invar counter_committed
  counter_staged counter_exec counter_answer
proof unfold_locales
  fix a :: CounterApp and req
  show "\<exists>resp a'. m_Handshake counter_lifecycle req a = (Ret (resp, None), a') \<and> counter_invar a' \<and>
        counter_committed a' = counter_committed a \<and> counter_staged a' = counter_staged a \<and>
        hr_AppHash resp \<noteq> None \<and> (hq_LastCommitted req = None \<longrightarrow> hr_LastBlock resp = None)"
    if "counter_invar a"
    using that by (auto simp: counter_lifecycle_def Counter_Handshake_def split: option.splits)
next
  fix a :: CounterApp and b
  show "\<exists>a'. m_ExecuteBlock counter_lifecycle b a = (Ret (fst (counter_exec (counter_committed a) b), None), a') \<and>
        counter_invar a' \<and> counter_committed a' = counter_committed a \<and>
        counter_staged a' = Some (snd (counter_exec (counter_committed a) b))"
    if "counter_invar a"
    using that by (auto simp: counter_lifecycle_def Counter_ExecuteBlock_spec counter_exec_def
        counter_invar_def counter_committed_def counter_staged_def Let_def)
next
  fix a :: CounterApp and c
  show "\<exists>r a'. m_Commit counter_lifecycle a = (Ret (r, None), a') \<and> counter_invar a' \<and> counter_committed a' = c"
    if "counter_invar a" and "counter_staged a = Some c"
    using that by (auto simp: counter_lifecycle_def Counter_Commit_def counter_staged_def
        counter_invar_def counter_committed_def Let_def split: if_splits)
qed (auto simp: counter_lifecycle_def Counter_CheckTx_def Counter_Query_def counter_answer_def
    counter_committed_def zero_StateQueryResult_def counter_exec_def counter_outcomes_index Let_def split: option.splits)

lemma counter_New_invar: "counter_invar Counter_New"
  by (simp add: counter_invar_def Counter_New_def)

lemma counter_genesis:
  obtains resp s where "GenesisDefault (NewHarness counter_lifecycle Counter_New) = (Ret resp, s)"
    and "counter.serving PReady s" and "s_state s = Counter_New"
proof -
  have "Handshake \<lparr>hq_LastCommitted = None, hq_Genesis = Some DefaultGenesis\<rparr> (New counter_lifecycle Counter_New) =
     (Ret (\<lparr>hr_LastBlock = None, hr_AppHash = Some (computeHash 0), hr_Capabilities = 0\<rparr>, None),
      (New counter_lifecycle Counter_New)\<lparr>s_guard := \<lparr>g_state = stateReady, g_seqMu = False, g_handshakeDone = True\<rparr>\<rparr>)"
    by (simp add: Handshake_def with_guard_def guard_ops call_def New_def NewLifecycleGuard_def guard_states
        counter_lifecycle_def Counter_Handshake_def discoverCapabilities_def)
  moreover have "counter.serving PReady ((New counter_lifecycle Counter_New)
      \<lparr>s_guard := \<lparr>g_state = stateReady, g_seqMu = False, g_handshakeDone = True\<rparr>\<rparr>)"
    by (simp add: counter.serving_def server_invar_def New_def guard_invar_def phase_of_def guard_states
        counter_New_invar)
  ultimately show ?thesis
    by (intro that) (simp_all add: GenesisDefault_def Genesis_def NewHarness_def, simp add: New_def)
qed

lemma exec_chain_counter:
  "snd (exec_chain counter_exec c bs) =
     (fst c + sum_list (map tx_value (valid_txs (concat (map fb_Txs bs)))),
      if bs = [] then fst (snd c) else computeHash (fst c + sum_list (map tx_value (valid_txs (concat (map fb_Txs bs))))),
      if bs = [] then snd (snd c) else fb_Height (last bs))"
proof (induction bs arbitrary: c)
  case (Cons b bs)
  show ?case using Cons.IH [of "snd (counter_exec c b)"]
    by (simp add: valid_txs_def) (simp add: counter_exec_def valid_txs_def Let_def add.assoc)
qed (simp add: valid_txs_def)

section \<open>Properties\<close>

text \<open>
  C22. A chain of blocks through a server and the counter gives, block by block, the
  outcomes of the specification, and leaves the counter at the sum, modulo \<open>2\<^sup>6\<^sup>4\<close>, of all
  the valid transactions of the chain, under the hash of that sum.
\<close>

theorem counter_chain:
  "\<exists>resp s s'. GenesisDefault (NewHarness counter_lifecycle Counter_New) = (Ret resp, s) \<and>
     run_chain bs s = (Ret (fst (exec_chain counter_exec (0, computeHash 0, 0) bs)), s') \<and>
     Counter_Count (s_state s') = sum_list (map tx_value (valid_txs (concat (map fb_Txs bs)))) \<and>
     ca_appHash (s_state s') = computeHash (Counter_Count (s_state s'))"
proof -
  obtain resp s where s: "GenesisDefault (NewHarness counter_lifecycle Counter_New) = (Ret resp, s)"
    "counter.serving PReady s" "s_state s = Counter_New" by (rule counter_genesis)
  have c: "counter_committed (s_state s) = (0, computeHash 0, 0)"
    using s(3) by (simp add: counter_committed_def Counter_New_def)
  obtain s' where s': "run_chain bs s = (Ret (fst (exec_chain counter_exec (0, computeHash 0, 0) bs)), s')"
    "counter.serving PReady s'" "counter_committed (s_state s') = snd (exec_chain counter_exec (0, computeHash 0, 0) bs)"
    using counter.serving_run_chain [OF s(2), of bs] c by auto
  have "Counter_Count (s_state s') = sum_list (map tx_value (valid_txs (concat (map fb_Txs bs))))"
    using s'(3) by (simp add: exec_chain_counter counter_committed_def Counter_Count_def)
  moreover have "ca_appHash (s_state s') = computeHash (Counter_Count (s_state s'))"
    using s'(2) by (simp add: counter.serving_def counter_invar_def Counter_Count_def)
  ultimately show ?thesis using s(1) s'(1) by blast
qed

text \<open>
  Queries see committed blocks only: after any chain, while a further block is executed
  but not committed every query is answered as before the block, and once it is committed
  the answer is the total that includes it, at its height.
\<close>

theorem counter_query_isolation:
  "\<exists>resp s s' s2. GenesisDefault (NewHarness counter_lifecycle Counter_New) = (Ret resp, s) \<and>
     run_chain bs s = (Ret (fst (exec_chain counter_exec (0, computeHash 0, 0) bs)), s') \<and>
     ExecuteAndCommit b s' = (Ret (fst (counter_exec (counter_committed (s_state s')) b)), s2) \<and>
     fst (Query q (snd (ExecuteBlock b s'))) = fst (Query q s') \<and>
     fst (Query q s2) = Ret (zero_StateQueryResult\<lparr>sr_Key := bytes ''count'', sr_Height := fb_Height b,
       sr_Value := PutUint64 (sum_list (map tx_value (valid_txs (concat (map fb_Txs bs) @ fb_Txs b))))\<rparr>, None)"
proof -
  obtain resp s where s: "GenesisDefault (NewHarness counter_lifecycle Counter_New) = (Ret resp, s)"
    "counter.serving PReady s" "s_state s = Counter_New" by (rule counter_genesis)
  have c: "counter_committed (s_state s) = (0, computeHash 0, 0)"
    using s(3) by (simp add: counter_committed_def Counter_New_def)
  obtain s' where s': "run_chain bs s = (Ret (fst (exec_chain counter_exec (0, computeHash 0, 0) bs)), s')"
    "counter.serving PReady s'" "counter_committed (s_state s') = snd (exec_chain counter_exec (0, computeHash 0, 0) bs)"
    using counter.serving_run_chain [OF s(2), of bs] c by auto
  obtain s2 where s2: "ExecuteAndCommit b s' = (Ret (fst (counter_exec (counter_committed (s_state s')) b)), s2)"
    "counter.serving PReady s2" "counter_committed (s_state s2) = snd (counter_exec (counter_committed (s_state s')) b)"
    using counter.serving_ExecuteAndCommit [OF s'(2), of b] by metis
  have "fst (Query q s2) = Ret (zero_StateQueryResult\<lparr>sr_Key := bytes ''count'', sr_Height := fb_Height b,
       sr_Value := PutUint64 (sum_list (map tx_value (valid_txs (concat (map fb_Txs bs) @ fb_Txs b))))\<rparr>, None)"
    using counter.serving_Query [OF s2(2), of q] s2(3) s'(3)
    by (simp add: counter_answer_def counter_exec_def exec_chain_counter Let_def zero_StateQueryResult_def valid_txs_def)
  then show ?thesis using s(1) s'(1) s2(1) counter.query_isolation [OF s'(2), of q b] by blast
qed

text \<open>
  \<open>IncrementTx\<close> builds a transaction that the gate accepts and that the execution reads
  back as the number it was built from.
\<close>

theorem counter_tx_roundtrip:
  "Counter_CheckTx (IncrementTx n) mctx app = (Ret (zero_GateVerdict, None), app) \<and> tx_value (IncrementTx n) = n"
  by (simp add: Counter_CheckTx_def validateTx_def zero_GateVerdict_def) (simp add: IncrementTx_def)

end
