(* ===== verification/Mock.thy ===== *)
theory Mock
  imports Interfaces
begin

text \<open>
  \<^verbatim>\<open>testing/mock.go\<close>: the configurable mock application. A handler field is an optional
  function; a nil field selects the default answer of the method. The mock implements every
  optional interface but \<open>MempoolObserver\<close>, and counts the calls of the five required
  methods. A handler is a function of its arguments: closures that keep state of their
  own are outside the model.
\<close>

section \<open>Definitions\<close>

type_synonym 'r handler_result = "('r \<times> go_error option) go"

record MockApp =
  DeclaredCapabilities :: Capabilities
  HandshakeFn :: "(HandshakeRequest \<Rightarrow> HandshakeResponse handler_result) option"
  CheckTxFn :: "(Tx \<Rightarrow> MempoolContext \<Rightarrow> GateVerdict handler_result) option"
  ExecuteBlockFn :: "(FinalizedBlock \<Rightarrow> BlockOutcome handler_result) option"
  CommitFn :: "CommitResult handler_result option"
  QueryFn :: "(StateQuery \<Rightarrow> StateQueryResult handler_result) option"
  BuildProposalFn :: "(ProposalContext \<Rightarrow> BuiltProposal handler_result) option"
  VerifyProposalFn :: "(ReceivedProposal \<Rightarrow> ProposalVerdict handler_result) option"
  ExtendVoteFn :: "(VoteContext \<Rightarrow> byte_slice handler_result) option"
  VerifyExtensionFn :: "(ReceivedExtension \<Rightarrow> ExtensionVerdict handler_result) option"
  AvailableSnapshotsFn :: "SnapshotDescriptor list handler_result option"
  ExportSnapshotFn :: "(u64 \<Rightarrow> u32 \<Rightarrow> (chunk_chan option \<times> SnapshotDescriptor option) handler_result) option"
  ImportSnapshotFn :: "(SnapshotDescriptor \<Rightarrow> chunk_chan \<Rightarrow> ImportResult handler_result) option"
  SimulateFn :: "(Tx \<Rightarrow> TxOutcome handler_result) option"
  HandshakeCalls :: i64
  CheckTxCalls :: i64
  ExecuteBlockCalls :: i64
  CommitCalls :: i64
  QueryCalls :: i64

text \<open>The zero value of the struct: nothing configured.\<close>

definition zero_MockApp :: MockApp where
  "zero_MockApp = \<lparr>DeclaredCapabilities = 0, HandshakeFn = None, CheckTxFn = None,
     ExecuteBlockFn = None, CommitFn = None, QueryFn = None, BuildProposalFn = None,
     VerifyProposalFn = None, ExtendVoteFn = None, VerifyExtensionFn = None,
     AvailableSnapshotsFn = None, ExportSnapshotFn = None, ImportSnapshotFn = None, SimulateFn = None,
     HandshakeCalls = 0, CheckTxCalls = 0, ExecuteBlockCalls = 0, CommitCalls = 0, QueryCalls = 0\<rparr>"

definition Mock_Handshake :: "HandshakeRequest \<Rightarrow> (MockApp, HandshakeResponse) meth" where
  "Mock_Handshake req m =
     (let m = m\<lparr>HandshakeCalls := HandshakeCalls m + 1\<rparr> in
      case HandshakeFn m of
        Some f \<Rightarrow> (f req, m)
      | None \<Rightarrow> (Ret (zero_HandshakeResponse\<lparr>hr_Capabilities := DeclaredCapabilities m\<rparr>, None), m))"

definition Mock_CheckTx :: "Tx \<Rightarrow> MempoolContext \<Rightarrow> (MockApp, GateVerdict) meth" where
  "Mock_CheckTx tx mctx m =
     (let m = m\<lparr>CheckTxCalls := CheckTxCalls m + 1\<rparr> in
      case CheckTxFn m of
        Some f \<Rightarrow> (f tx mctx, m)
      | None \<Rightarrow> (Ret (zero_GateVerdict\<lparr>gv_Code := 0\<rparr>, None), m))"

definition Mock_ExecuteBlock :: "FinalizedBlock \<Rightarrow> (MockApp, BlockOutcome) meth" where
  "Mock_ExecuteBlock block m =
     (let m = m\<lparr>ExecuteBlockCalls := ExecuteBlockCalls m + 1\<rparr> in
      case ExecuteBlockFn m of
        Some f \<Rightarrow> (f block, m)
      | None \<Rightarrow>
          (let outcomes = map (\<lambda>i. zero_TxOutcome\<lparr>txo_Index := of_nat i, txo_Code := 0\<rparr>)
                 [0..<length (fb_Txs block)]
           in (Ret (zero_BlockOutcome\<lparr>bo_TxOutcomes := outcomes, bo_AppHash := 1 # replicate 31 0\<rparr>, None), m)))"

definition Mock_Commit :: "(MockApp, CommitResult) meth" where
  "Mock_Commit m =
     (let m = m\<lparr>CommitCalls := CommitCalls m + 1\<rparr> in
      case CommitFn m of Some r \<Rightarrow> (r, m) | None \<Rightarrow> (Ret (\<lparr>cr_RetainHeight = 0\<rparr>, None), m))"

definition Mock_Query :: "StateQuery \<Rightarrow> (MockApp, StateQueryResult) meth" where
  "Mock_Query req m =
     (let m = m\<lparr>QueryCalls := QueryCalls m + 1\<rparr> in
      case QueryFn m of Some f \<Rightarrow> (f req, m) | None \<Rightarrow> (Ret (zero_StateQueryResult, None), m))"

definition Mock_BuildProposal :: "ProposalContext \<Rightarrow> (MockApp, BuiltProposal) meth" where
  "Mock_BuildProposal pctx m =
     (case BuildProposalFn m of
        Some f \<Rightarrow> (f pctx, m) | None \<Rightarrow> (Ret (\<lparr>bp_Txs = pc_MempoolTxs pctx\<rparr>, None), m))"

definition Mock_VerifyProposal :: "ReceivedProposal \<Rightarrow> (MockApp, ProposalVerdict) meth" where
  "Mock_VerifyProposal prop m =
     (case VerifyProposalFn m of
        Some f \<Rightarrow> (f prop, m) | None \<Rightarrow> (Ret (\<lparr>pv_Accept = True, pv_RejectReason = []\<rparr>, None), m))"

definition Mock_ExtendVote :: "VoteContext \<Rightarrow> (MockApp, byte_slice) meth" where
  "Mock_ExtendVote vctx m =
     (case ExtendVoteFn m of Some f \<Rightarrow> (f vctx, m) | None \<Rightarrow> (Ret ([], None), m))"

definition Mock_VerifyExtension :: "ReceivedExtension \<Rightarrow> (MockApp, ExtensionVerdict) meth" where
  "Mock_VerifyExtension ext m =
     (case VerifyExtensionFn m of Some f \<Rightarrow> (f ext, m) | None \<Rightarrow> (Ret (ExtensionAccept, None), m))"

definition Mock_AvailableSnapshots :: "(MockApp, SnapshotDescriptor list) meth" where
  "Mock_AvailableSnapshots m =
     (case AvailableSnapshotsFn m of Some r \<Rightarrow> (r, m) | None \<Rightarrow> (Ret ([], None), m))"

definition Mock_ExportSnapshot ::
  "u64 \<Rightarrow> u32 \<Rightarrow> (MockApp, chunk_chan option \<times> SnapshotDescriptor option) meth" where
  "Mock_ExportSnapshot height format m =
     (case ExportSnapshotFn m of
        Some f \<Rightarrow> (f height format, m)
      | None \<Rightarrow>
          (Ret ((Some [], Some \<lparr>sd_Height = height, sd_Format = format, sd_Chunks = 0,
                   sd_Hash = zero_hash, sd_Metadata = []\<rparr>), None), m))"

definition Mock_ImportSnapshot :: "SnapshotDescriptor \<Rightarrow> chunk_chan \<Rightarrow> (MockApp, ImportResult) meth" where
  "Mock_ImportSnapshot desc chunks m =
     (case ImportSnapshotFn m of
        Some f \<Rightarrow> (f desc chunks, m)
      | None \<Rightarrow>
          (Ret (zero_ImportResult\<lparr>ir_Status := ImportOK, ir_AppHash := Some (1 # replicate 31 0)\<rparr>, None), m))"

definition Mock_Simulate :: "Tx \<Rightarrow> (MockApp, TxOutcome) meth" where
  "Mock_Simulate tx m =
     (case SimulateFn m of Some f \<Rightarrow> (f tx, m) | None \<Rightarrow> (Ret (zero_TxOutcome\<lparr>txo_Code := 0\<rparr>, None), m))"

definition mock_lifecycle :: "MockApp Lifecycle" where
  "mock_lifecycle = \<lparr>m_Handshake = Mock_Handshake, m_CheckTx = Mock_CheckTx,
     m_ExecuteBlock = Mock_ExecuteBlock, m_Commit = Mock_Commit, m_Query = Mock_Query,
     as_ProposalControl = Some \<lparr>m_BuildProposal = Mock_BuildProposal, m_VerifyProposal = Mock_VerifyProposal\<rparr>,
     as_VoteExtender = Some \<lparr>m_ExtendVote = Mock_ExtendVote, m_VerifyExtension = Mock_VerifyExtension\<rparr>,
     as_StateSync = Some \<lparr>m_AvailableSnapshots = Mock_AvailableSnapshots,
        m_ExportSnapshot = Mock_ExportSnapshot, m_ImportSnapshot = Mock_ImportSnapshot\<rparr>,
     as_Simulator = Some \<lparr>m_Simulate = Mock_Simulate\<rparr>,
     as_MempoolObserver = None\<rparr>"

lemmas mock_defs = mock_lifecycle_def Mock_Handshake_def Mock_CheckTx_def Mock_ExecuteBlock_def
  Mock_Commit_def Mock_Query_def Mock_BuildProposal_def Mock_VerifyProposal_def Mock_ExtendVote_def
  Mock_VerifyExtension_def Mock_AvailableSnapshots_def Mock_ExportSnapshot_def
  Mock_ImportSnapshot_def Mock_Simulate_def

end
