(* ===== verification/Sessions.thy ===== *)
theory Sessions
  imports Server_Trace Counter Mock
begin

text \<open>
  What holds of every session of an engine with a server (\<^verbatim>\<open>server/server.go\<close>), whatever
  calls the engine makes and in whatever order: the order in which the application is
  called, the invariant of the server's own state, the capability accessors, and what a
  failed or panicking call leaves behind. The sessions are those of \<open>Server_Trace\<close>; the
  counter and the mock application are the concrete instances.
\<close>

section \<open>The invariant of a session\<close>

text \<open>What a session keeps true between two calls.\<close>

definition session_ok :: "'a Lifecycle \<Rightarrow> 'a Server \<Rightarrow> bool" where
  "session_ok app s \<longleftrightarrow> server_invar s \<and> server_phase s \<noteq> PHandshaking \<and> s_app s = app"

lemma session_ok_call [intro]: "session_ok app s \<Longrightarrow> session_ok app (snd (call m s))"
  by (auto simp: session_ok_def server_invar_call) (auto simp: call_def split: prod.splits)

lemma session_ok_guarded [intro]:
  assumes "session_ok app s"
  shows "session_ok app (snd (and_then (with_guard CheckConcurrent s) (\<lambda>_ s. call (m s) s)))"
  using with_check [of s] assms session_ok_call [OF assms]
  by (cases "server_phase s \<in> {PInit, PHandshaking}") (auto simp: session_ok_def server_invar_def)

lemma session_ok_ExecuteBlock [intro]:
  assumes "session_ok app s"
  shows "session_ok app (snd (ExecuteBlock b s))"
proof -
  have inv: "server_invar s" using assms by (simp add: session_ok_def)
  consider "server_phase s = PReady" | "quiescent (server_phase s)" "server_phase s \<noteq> PReady"
    | "server_phase s \<in> {PExecuting, PCommitting}"
    using assms by (cases "server_phase s") (auto simp: session_ok_def)
  then show ?thesis
  proof cases
    case 1
    obtain r a where m: "m_ExecuteBlock (s_app s) b (s_state s) = (r, a)" by force
    show ?thesis using inv 1 m
      by (cases rule: ExecuteBlock_ready) (use assms 1 in \<open>auto simp: session_ok_def server_invar_def\<close>)
  qed (use assms ExecuteBlock_refused [OF inv, of b] sequential_blocked(1) [OF inv, of b] in auto)
qed

lemma session_ok_Commit [intro]:
  assumes "session_ok app s"
  shows "session_ok app (snd (Commit s))"
proof -
  have inv: "server_invar s" using assms by (simp add: session_ok_def)
  consider "server_phase s = PExecuted" | "quiescent (server_phase s)" "server_phase s \<noteq> PExecuted"
    | "server_phase s \<in> {PExecuting, PCommitting}"
    using assms by (cases "server_phase s") (auto simp: session_ok_def)
  then show ?thesis
  proof cases
    case 1
    obtain r a where m: "m_Commit (s_app s) (s_state s) = (r, a)" by force
    show ?thesis using inv 1 m
      by (cases rule: Commit_executed) (use assms 1 in \<open>auto simp: session_ok_def server_invar_def\<close>)
  qed (use assms Commit_refused [OF inv] sequential_blocked(2) [OF inv] in auto)
qed

lemma session_ok_Handshake:
  assumes ok: "session_ok app s" and ret: "returns (fst (m_Handshake app req (s_state s)))"
  shows "session_ok app (snd (Handshake req s))"
proof (cases "server_phase s = PInit")
  case False
  then show ?thesis using Handshake_refused [of s req] ok by (auto simp: session_ok_def)
next
  case True
  have inv: "server_invar s" and ap: "s_app s = app" using ok by (simp_all add: session_ok_def)
  obtain resp err a where m: "m_Handshake (s_app s) req (s_state s) = (Ret (resp, err), a)"
    using ret ap by (metis fst_conv returns_iff surj_pair)
  show ?thesis
  proof (cases "case err of Some e' \<Rightarrow> Some e' | None \<Rightarrow> fst (discoverCapabilities (s_app s) (hr_Capabilities resp))")
    case (Some e)
    then show ?thesis using Handshake_failed [OF inv True m Some] ok by (auto simp: session_ok_def server_invar_def)
  next
    case None
    then have err: "err = None" by (cases err) auto
    with None obtain w where w: "discoverCapabilities (s_app s) (hr_Capabilities resp) = (None, w)"
      by (metis eq_fst_iff option.case(1))
    obtain g where "Handshake req s = (Ret (resp, None),
        s\<lparr>s_state := a, s_guard := g, s_caps := hr_Capabilities resp, s_log := s_log s @ w\<rparr>)"
      and "guard_invar g" and "phase_of g = PReady"
      using Handshake_ok [OF inv True m [unfolded err] w] by metis
    then show ?thesis using ok True w by (simp add: session_ok_def server_invar_def)
  qed
qed

lemma session_ok_engine:
  assumes ok: "session_ok app s" and ret: "\<And>req a. returns (fst (m_Handshake app req a))"
  shows "session_ok app (engine c s)"
  using ok session_ok_Handshake [OF ok ret]
  by (cases c) (auto simp: CheckTx_def Query_def BuildProposal_def VerifyProposal_def ExtendVote_def
       VerifyExtension_def AvailableSnapshots_def ExportSnapshot_def ImportSnapshot_def Simulate_def
       OnBatchCertified_def OnBlockConstructed_def split: option.splits)

lemma session_ok_fold:
  assumes "\<And>req a. returns (fst (m_Handshake app req a))"
  shows "session_ok app s \<Longrightarrow> session_ok app (fold engine cs s)"
  by (induction cs arbitrary: s) (auto intro: session_ok_engine assms)

lemma session_ok_New: "session_ok app (New app a)"
  using New_invar [of app a] by (simp add: session_ok_def) (simp add: New_def)


lemma session_ok_session:
  assumes "\<forall>req a. returns (fst (m_Handshake app req a))"
  shows "session_ok app (fold engine cs (New app a))"
  by (rule session_ok_fold [OF _ session_ok_New]) (use assms in blast)

section \<open>Properties\<close>

lemma counter_handshake_returns: "returns (fst (m_Handshake counter_lifecycle req a))"
  by (simp add: counter_lifecycle_def Counter_Handshake_def split: option.splits)



text \<open>
  The exception is real: a proposal is asked for, and reaches the application, on a server that
  has seen no handshake.
\<close>

lemma unguarded_before_handshake:
  assumes "as_ProposalControl app = Some p"
  shows "snd (s_state (engine (ECBuildProposal x) (New (recorded app) (a, [])))) = [AUnguarded]"
  using assms by (simp add: New_def BuildProposal_def recorded_def call_def record_call_def split: prod.splits)

text \<open>
  C21. The state of a server in any session: the outcome is held exactly while an executed
  block waits for its commit to finish, the sequential mutex is held exactly while a block
  executes or commits (between calls: only if such a call never returned), and no
  capability is recorded before the handshake is complete.
\<close>

theorem session_state:
  assumes "\<forall>req a. returns (fst (m_Handshake app req a))" and "s = fold engine cs (New app a)"
  shows "(LastOutcome s \<noteq> None \<longleftrightarrow> g_state (s_guard s) \<in> {stateExecuted, stateCommitting}) \<and>
         (g_seqMu (s_guard s) \<longleftrightarrow> g_state (s_guard s) \<in> {stateExecuting, stateCommitting}) \<and>
         (\<not> g_handshakeDone (s_guard s) \<longrightarrow> g_state (s_guard s) = stateInit \<and> Server_Capabilities s = 0)"
proof -
  have "session_ok app s" using session_ok_session [OF assms(1)] assms(2) by simp
  then show ?thesis
    by (auto simp: session_ok_def server_invar_def guard_invar_def phase_of_def guard_states
        LastOutcome_def Server_Capabilities_def split: if_splits)
qed

theorem session_state_witness:
  "LastOutcome (fold engine [ECHandshake \<lparr>hq_LastCommitted = None, hq_Genesis = None\<rparr>, ECCommit]
     (New counter_lifecycle Counter_New)) \<noteq> None \<longleftrightarrow>
   g_state (s_guard (fold engine [ECHandshake \<lparr>hq_LastCommitted = None, hq_Genesis = None\<rparr>, ECCommit]
     (New counter_lifecycle Counter_New))) \<in> {stateExecuted, stateCommitting}"
  using session_state [of counter_lifecycle, OF _ refl] counter_handshake_returns by blast

text \<open>
  C29. Capabilities are all or nothing: after any session the server's capabilities are those that
  the application declared in its handshake (none if no handshake succeeded), and each \<open>As...\<close>
  accessor hands out an interface exactly when the application declared the capability; what it
  hands out is the application's own implementation.
\<close>

theorem session_accessors:
  assumes "\<forall>req a. returns (fst (m_Handshake app req a))" and "s = fold engine cs (New (recorded app) (a, []))"
    and "caps = declared_caps (snd (s_state s))"
  shows "Server_Capabilities s = caps \<and>
     AsProposalControl s = (if Capabilities_Has caps CapProposalControl then as_ProposalControl (recorded app) else None) \<and>
     AsVoteExtender s = (if Capabilities_Has caps CapVoteExtensions then as_VoteExtender (recorded app) else None) \<and>
     AsStateSync s = (if Capabilities_Has caps CapStateSync then as_StateSync (recorded app) else None) \<and>
     AsSimulator s = (if Capabilities_Has caps CapSimulation then as_Simulator (recorded app) else None) \<and>
     AsMempoolObserver s = (if Capabilities_Has caps CapMempoolObserver then as_MempoolObserver (recorded app) else None) \<and>
     (AsProposalControl s \<noteq> None \<longleftrightarrow> Capabilities_Has caps CapProposalControl) \<and>
     (AsVoteExtender s \<noteq> None \<longleftrightarrow> Capabilities_Has caps CapVoteExtensions) \<and>
     (AsStateSync s \<noteq> None \<longleftrightarrow> Capabilities_Has caps CapStateSync) \<and>
     (AsSimulator s \<noteq> None \<longleftrightarrow> Capabilities_Has caps CapSimulation) \<and>
     (AsMempoolObserver s \<noteq> None \<longleftrightarrow> Capabilities_Has caps CapMempoolObserver)"
proof -
  have "trace_invar False app s" using trace_invar_fold [OF _ trace_invar_New, of app False] assms(1,2) by blast
  then have inv: "server_invar s" "s_app s = recorded app" "s_caps s = caps" using assms(3) by (simp_all add: trace_invar_def)
  note own = server_invar_app_simps [OF inv(1), unfolded inv(2)]
  show ?thesis using accessors_exact [OF inv(1)] own inv(3)
    by (auto simp: AsProposalControl_def AsVoteExtender_def AsStateSync_def AsSimulator_def AsMempoolObserver_def Server_Capabilities_def)
qed

text \<open>A counter that can simulate and says so.\<close>

definition simulating_counter :: "CounterApp Lifecycle" where
  "simulating_counter = counter_lifecycle\<lparr>
     m_Handshake := (\<lambda>req a. (Ret (zero_HandshakeResponse\<lparr>hr_Capabilities := CapSimulation\<rparr>, None), a)),
     as_Simulator := Some \<lparr>m_Simulate = (\<lambda>tx a. (Ret (zero_TxOutcome, None), a))\<rparr>\<rparr>"

lemmas cap_defs = CapProposalControl_def CapVoteExtensions_def CapStateSync_def CapSimulation_def CapMempoolObserver_def

theorem session_accessors_witness:
  "\<exists>s. s = fold engine [ECCommit, ECHandshake \<lparr>hq_LastCommitted = None, hq_Genesis = None\<rparr>]
       (New (recorded simulating_counter) (Counter_New, [])) \<and>
     Server_Capabilities s = CapSimulation \<and> AsSimulator s \<noteq> None \<and> AsProposalControl s = None"
proof -
  let ?s = "fold engine [ECCommit, ECHandshake \<lparr>hq_LastCommitted = None, hq_Genesis = None\<rparr>]
    (New (recorded simulating_counter) (Counter_New, []))"
  have log: "snd (s_state ?s) = [AHandshake (Some CapSimulation)]"
    by (simp add: New_def NewLifecycleGuard_def Commit_def Handshake_def with_guard_def guard_ops guard_states recorded_def
        record_call_def call_def simulating_counter_def counter_lifecycle_def handshake_entry_def discoverCapabilities_def
        Capabilities_Has_def cap_defs zero_HandshakeResponse_def)
  have ret: "\<forall>req a. returns (fst (m_Handshake simulating_counter req a))" by (simp add: simulating_counter_def)
  have caps: "Capabilities_Has CapSimulation CapSimulation" "\<not> Capabilities_Has CapSimulation CapProposalControl"
    by (simp_all add: Capabilities_Has_def cap_defs)
  have dc: "declared_caps (snd (s_state ?s)) = CapSimulation" unfolding log by (simp add: declared_caps_def)
  note acc = session_accessors [OF ret refl dc [symmetric]]
  have "Server_Capabilities ?s = CapSimulation" "AsSimulator ?s \<noteq> None" "AsProposalControl ?s = None" using acc caps by blast+
  then show ?thesis by blast
qed

text \<open>
  C4. An execution that returns an error (a \<open>HaltError\<close> or any other) is undone: the
  error reaches the caller, no outcome is held, \<open>Commit\<close> is refused, and the server is
  ready for the block to be executed again.
\<close>

theorem ExecuteBlock_error_no_commit:
  assumes inv: "server_invar s" and ph: "server_phase s = PReady"
    and app: "m_ExecuteBlock (s_app s) b (s_state s) = (Ret (out, Some e), a)"
  shows "\<exists>s'. ExecuteBlock b s = (Ret (out, Some e), s') \<and> server_invar s' \<and> server_phase s' = PReady \<and>
     s_state s' = a \<and> LastOutcome s' = None \<and> (\<exists>m. Commit s' = (Panic m, s'))"
  using inv ph app
proof (cases rule: ExecuteBlock_ready)
  case (err out' e' g)
  let ?s = "s\<lparr>s_state := a, s_guard := g\<rparr>"
  have 1: "server_invar ?s" using inv ph err by (auto simp: server_invar_def)
  have 2: "\<exists>m. Commit ?s = (Panic m, ?s)"
    using Commit_refused [OF 1] err by simp
  have 3: "s_lastOutcome s = None" using inv ph by (simp add: server_invar_def)
  show ?thesis by (rule exI [of _ ?s]) (use err 1 2 3 in \<open>simp add: LastOutcome_def\<close>)
qed auto

text \<open>A ready server in front of a mock, for the concrete instances.\<close>

definition ready_server :: "MockApp \<Rightarrow> MockApp Server" where
  "ready_server m = (New mock_lifecycle m)\<lparr>s_guard := \<lparr>g_state = stateReady, g_seqMu = False, g_handshakeDone = True\<rparr>\<rparr>"

lemma ready_server: "server_invar (ready_server m)" "server_phase (ready_server m) = PReady"
  "s_app (ready_server m) = mock_lifecycle" "s_state (ready_server m) = m"
  by (simp_all add: ready_server_def New_def server_invar_def guard_invar_def phase_of_def guard_states)

definition halting_mock :: MockApp where
  "halting_mock = zero_MockApp\<lparr>ExecuteBlockFn := Some (\<lambda>b. Ret (zero_BlockOutcome,
     Some (Halt (NewHaltError (fb_Height b) ''state corruption''))))\<rparr>"

definition panicking_mock :: MockApp where
  "panicking_mock = zero_MockApp\<lparr>ExecuteBlockFn := Some (\<lambda>b. Panic ''index out of range'')\<rparr>"

definition block_1 :: FinalizedBlock where
  "block_1 = \<lparr>fb_Height = 1, fb_Time = \<lparr>ts_Seconds = 0, ts_Nanos = 0\<rparr>, fb_Proposer = zero_address,
     fb_Txs = [], fb_LastBlockHash = zero_hash, fb_Evidence = [], fb_VoteExtensions = []\<rparr>"

theorem ExecuteBlock_error_no_commit_witness:
  "\<exists>s'. ExecuteBlock block_1 (ready_server halting_mock) =
      (Ret (zero_BlockOutcome, Some (Halt (NewHaltError 1 ''state corruption''))), s') \<and>
     server_invar s' \<and> server_phase s' = PReady \<and>
     s_state s' = halting_mock\<lparr>ExecuteBlockCalls := 1\<rparr> \<and> LastOutcome s' = None \<and> (\<exists>m. Commit s' = (Panic m, s'))"
  by (rule ExecuteBlock_error_no_commit [OF ready_server(1,2)])
    (simp add: ready_server mock_defs Let_def halting_mock_def zero_MockApp_def block_1_def)

text \<open>
  C36. A panic of the application in \<open>ExecuteBlock\<close> wedges the server: nothing releases the
  sequential mutex, so every later \<open>ExecuteBlock\<close> and \<open>Commit\<close> waits forever, while the
  concurrent calls go on being served.
\<close>

theorem ExecuteBlock_panic_wedges:
  assumes inv: "server_invar s" and ph: "server_phase s = PReady"
    and app: "m_ExecuteBlock (s_app s) b (s_state s) = (Panic m, a)"
  shows "\<exists>s'. ExecuteBlock b s = (Panic m, s') \<and> (\<forall>b'. ExecuteBlock b' s' = (Blocked, s')) \<and>
     Commit s' = (Blocked, s') \<and> (\<forall>q. Query q s' = call (m_Query (s_app s) q) s')"
  using inv ph app
proof (cases rule: ExecuteBlock_ready)
  case (stuck r g)
  let ?s = "s\<lparr>s_state := a, s_guard := g\<rparr>"
  have 1: "server_invar ?s" "server_phase ?s = PExecuting" using inv ph stuck by (auto simp: server_invar_def)
  have 2: "\<And>q. Query q ?s = call (m_Query (s_app s) q) ?s"
    using with_check(1) [of ?s] 1 by (simp add: Query_def server_invar_def)
  have 3: "r = Panic m" using stuck(5) app ph inv
    by (auto simp: ExecuteBlock_def with_guard_def call_def guard_ops server_invar_def guard_invar_def phase_of_def
        guard_states split: if_splits)
  show ?thesis by (rule exI [of _ ?s]) (use stuck(5) 1 2 3 sequential_blocked [OF 1(1)] in simp)
qed auto

theorem ExecuteBlock_panic_wedges_witness:
  "\<exists>s'. ExecuteBlock block_1 (ready_server panicking_mock) = (Panic ''index out of range'', s') \<and>
     (\<forall>b'. ExecuteBlock b' s' = (Blocked, s')) \<and> Commit s' = (Blocked, s') \<and>
     (\<forall>q. Query q s' = call (m_Query (s_app (ready_server panicking_mock)) q) s')"
  by (rule ExecuteBlock_panic_wedges [OF ready_server(1,2)])
    (simp add: ready_server mock_defs Let_def panicking_mock_def zero_MockApp_def)

text \<open>
  C37. A handshake that fails, because the application returns an error or declares a
  capability it does not implement, hands that error to the caller and leaves the server as
  it was: no capabilities, concurrent calls still refused, and the handshake can be tried
  again.
\<close>

theorem Handshake_failure_undone:
  assumes "server_invar s" and "server_phase s = PInit"
    and "m_Handshake (s_app s) req (s_state s) = (Ret (resp, err), a)"
    and "err \<noteq> None \<or> fst (discoverCapabilities (s_app s) (hr_Capabilities resp)) \<noteq> None"
  shows "\<exists>e. Handshake req s = (Ret (resp, Some e), s\<lparr>s_state := a\<rparr>) \<and>
     (err \<noteq> None \<longrightarrow> err = Some e) \<and>
     (\<exists>m. CheckTx tx mctx (s\<lparr>s_state := a\<rparr>) = (Panic m, s\<lparr>s_state := a\<rparr>))"
proof -
  obtain e where e: "(case err of Some e' \<Rightarrow> Some e' | None \<Rightarrow>
      fst (discoverCapabilities (s_app s) (hr_Capabilities resp))) = Some e"
    using assms(4) by (cases err) auto
  have "\<exists>m. with_guard CheckConcurrent (s\<lparr>s_state := a\<rparr>) = (Panic m, s\<lparr>s_state := a\<rparr>)"
    using with_check(2) [of "s\<lparr>s_state := a\<rparr>"] assms(1,2) by (simp add: server_invar_def)
  then show ?thesis using Handshake_failed [OF assms(1-3) e] e
    by (intro exI [of _ e]) (auto simp: CheckTx_def split: option.splits)
qed

definition overclaiming_mock :: MockApp where
  "overclaiming_mock = zero_MockApp\<lparr>DeclaredCapabilities := CapMempoolObserver\<rparr>"

theorem Handshake_failure_undone_witness:
  "\<exists>e. Handshake \<lparr>hq_LastCommitted = None, hq_Genesis = None\<rparr> (New mock_lifecycle overclaiming_mock) =
     (Ret (zero_HandshakeResponse\<lparr>hr_Capabilities := CapMempoolObserver\<rparr>, Some e),
      (New mock_lifecycle overclaiming_mock)\<lparr>s_state := overclaiming_mock\<lparr>HandshakeCalls := 1\<rparr>\<rparr>)"
proof -
  have "m_Handshake (s_app (New mock_lifecycle overclaiming_mock)) \<lparr>hq_LastCommitted = None, hq_Genesis = None\<rparr>
      (s_state (New mock_lifecycle overclaiming_mock)) =
    (Ret (zero_HandshakeResponse\<lparr>hr_Capabilities := CapMempoolObserver\<rparr>, None), overclaiming_mock\<lparr>HandshakeCalls := 1\<rparr>)"
    by (simp add: New_def mock_defs Let_def overclaiming_mock_def zero_MockApp_def)
  then show ?thesis
    using Handshake_failure_undone [OF New_invar, of mock_lifecycle overclaiming_mock]
    by (fastforce simp: discover_ok_iff New_def mock_lifecycle_def Capabilities_Has_def
        CapMempoolObserver_def zero_HandshakeResponse_def)
qed

end
