(* ===== verification/Grpc_Link.thy ===== *)
theory Grpc_Link
  imports Grpc_Client Connections Sessions
begin

text \<open>
  Both ends of the transport together. The locale \<open>grpc_unary\<close> says what the gRPC library is
  documented to do for unary calls over a connection that is up, with messages that the
  connection carries: the request is encoded with the forced codec, the handler registered
  for the method runs on the remote server with the decoded request, and the client gets the
  decoded response, or an error that carries the text of the handler's error and nothing
  else. \<open>grpc_streams\<close> adds streams. Inside them each method of the client is shown to do what
  the same method of a local connection does.
\<close>

section \<open>What is relied on\<close>

definition io_EOF :: go_error where
  "io_EOF = ErrorString ''EOF''"

text \<open>
  \<open>carries\<close> are the messages within the size limits of both ends (gRPC refuses to receive a
  message of more than four megabytes unless told otherwise). Nothing is assumed of others.
\<close>

locale grpc_unary =
  fixes lib :: "'w ClientConn"
    and cram :: "'d cramberry"
    and remote :: "'w \<Rightarrow> 'a GRPCServer"
    and up :: "'w \<Rightarrow> bool"
    and status_error :: "go_error \<Rightarrow> go_error"
    and carries :: "message \<Rightarrow> bool"
  assumes codec: "faithful cram"
    and invoke_ok: "up w \<Longrightarrow> map_of (svc_Methods (serviceDesc :: ('a, unit) ServiceDesc)) m = Some h \<Longrightarrow>
      CramberryCodec_Marshal cram q = Inr d \<Longrightarrow> carries q \<Longrightarrow>
      h (CramberryCodec_Unmarshal cram d) (remote w) = (Ret (Some r, None), s) \<Longrightarrow> carries r \<Longrightarrow>
      CramberryCodec_Marshal cram r = Inr d' \<Longrightarrow> CramberryCodec_Unmarshal cram d' k = Inr r' \<Longrightarrow>
      \<exists>w'. cc_Invoke lib (fullMethod m) q k w = (Ret (Inr r'), w') \<and> remote w' = s \<and> up w'"
    and invoke_err: "up w \<Longrightarrow> map_of (svc_Methods (serviceDesc :: ('a, unit) ServiceDesc)) m = Some h \<Longrightarrow>
      CramberryCodec_Marshal cram q = Inr d \<Longrightarrow> carries q \<Longrightarrow>
      h (CramberryCodec_Unmarshal cram d) (remote w) = (Ret (r0, Some e), s) \<Longrightarrow>
      \<exists>w'. cc_Invoke lib (fullMethod m) q k w = (Ret (Inl (status_error e)), w') \<and> remote w' = s \<and> up w'"
    and status_opaque: "halts (status_error e) = []"

text \<open>
  Streams. \<open>stream_of\<close> names the method of a stream that the client has not closed yet, and
  whether the server may send more than one message on it; \<open>sent\<close> is what the client has sent.
  \<open>CloseSend\<close> closes the client's direction and promises nothing else. From then on the stream
  is \<open>running\<close>: its handler, whenever it runs, will send the messages named there, end with
  the error named there and leave the remote server as named there, if nothing else calls the
  server in between. The client gets the messages in order and then the end of the stream.
  The handler is known to have ended only when the client has seen that end; on a stream with
  a single response \<open>RecvMsg\<close> waits for it before it returns the response.
\<close>

locale grpc_streams = grpc_unary lib cram remote up status_error carries
  for lib :: "'w ClientConn" and cram :: "'d cramberry" and remote :: "'w \<Rightarrow> 'a GRPCServer"
    and up :: "'w \<Rightarrow> bool" and status_error :: "go_error \<Rightarrow> go_error" and carries :: "message \<Rightarrow> bool" +
  fixes slib :: "'ss ServerStream"
    and inbox :: "'ss \<Rightarrow> message list"
    and outbox :: "'ss \<Rightarrow> message list"
    and stream_of :: "'w \<Rightarrow> stream_id \<Rightarrow> (string \<times> bool) option"
    and sent :: "'w \<Rightarrow> stream_id \<Rightarrow> message list"
    and running :: "'w \<Rightarrow> stream_id \<Rightarrow> bool \<Rightarrow> message list \<Rightarrow> go_error option \<Rightarrow> 'a GRPCServer \<Rightarrow> bool"
  assumes server_fresh: "\<exists>st. inbox st = ms \<and> outbox st = []"
    and server_recv: "inbox st = msg # ms \<Longrightarrow> kind_of msg = k \<Longrightarrow> carries msg \<Longrightarrow>
      \<exists>st'. ss_RecvMsg slib k st = (Ret (Inr msg), st') \<and> inbox st' = ms \<and> outbox st' = outbox st"
    and server_eof: "inbox st = [] \<Longrightarrow>
      \<exists>st'. ss_RecvMsg slib k st = (Ret (Inl io_EOF), st') \<and> inbox st' = [] \<and> outbox st' = outbox st"
    and server_send: "\<exists>st'. ss_SendMsg slib msg st = (Ret None, st') \<and> inbox st' = inbox st \<and>
      outbox st' = outbox st @ [msg]"
    and client_open: "up w \<Longrightarrow> \<exists>h w'. cc_NewStream lib desc (fullMethod m) w = (Ret (Inr h), w') \<and>
      stream_of w' h = Some (m, str_ServerStreams desc) \<and> sent w' h = [] \<and> remote w' = remote w \<and> up w'"
    and client_send: "up w \<Longrightarrow> stream_of w h = Some (m, many) \<Longrightarrow> carries msg \<Longrightarrow>
      \<exists>w'. cs_SendMsg lib h msg w = (Ret None, w') \<and>
      stream_of w' h = Some (m, many) \<and> sent w' h = sent w h @ [msg] \<and> remote w' = remote w \<and> up w'"
    and client_close: "up w \<Longrightarrow> stream_of w h = Some (m, many) \<Longrightarrow>
      stream_handler_of (serviceDesc :: ('a, 'ss) ServiceDesc) m = Some run \<Longrightarrow>
      inbox st = sent w h \<Longrightarrow> outbox st = [] \<Longrightarrow> run slib (remote w, st) = (Ret err, (s, st')) \<Longrightarrow>
      \<exists>w'. cs_CloseSend lib h w = (Ret None, w') \<and> up w' \<and> running w' h many (outbox st') err s"
    and client_recv: "up w \<Longrightarrow> running w h many (msg # ms) err s \<Longrightarrow> kind_of msg = k \<Longrightarrow> carries msg \<Longrightarrow>
      \<exists>w'. cs_RecvMsg lib h k w = (Ret (Inr msg), w') \<and> up w' \<and> running w' h many ms err s \<and>
        (\<not> many \<and> ms = [] \<and> err = None \<longrightarrow> remote w' = s)"
    and client_end: "up w \<Longrightarrow> running w h many [] err s \<Longrightarrow>
      \<exists>w'. cs_RecvMsg lib h k w = (Ret (Inl (case err of None \<Rightarrow> io_EOF | Some e \<Rightarrow> status_error e)), w') \<and>
        up w' \<and> remote w' = s"

section \<open>The view of a client\<close>

text \<open>An error arrives as a status with its text; the result beside it is the zero value.\<close>

fun seen_remotely :: "(go_error \<Rightarrow> go_error) \<Rightarrow> 'r \<Rightarrow> ('r \<times> go_error option) go \<Rightarrow> ('r \<times> go_error option) go" where
  "seen_remotely st zero (Ret (r, None)) = Ret (r, None)"
| "seen_remotely st zero (Ret (r, Some e)) = Ret (zero, Some (st e))"
| "seen_remotely st zero (Panic m) = Panic m"
| "seen_remotely st zero Blocked = Blocked"

text \<open>What the client sends for a call, and whether request and response of a call are carried.\<close>

abbreviation descriptor_msg :: "SnapshotDescriptor \<Rightarrow> message" where
  "descriptor_msg desc \<equiv> MImportSnapshotMessage \<lparr>im_Descriptor = Some desc, im_Chunk = None\<rparr>"

abbreviation chunk_msg :: "SnapshotChunk \<Rightarrow> message" where
  "chunk_msg chunk \<equiv> MImportSnapshotMessage \<lparr>im_Descriptor = None, im_Chunk = Some chunk\<rparr>"

fun requests :: "engine_call \<Rightarrow> message list" where
  "requests (ECHandshake req) = [MHandshakeRequest req]"
| "requests (ECCheckTx tx mctx) = [MCheckTxRequest \<lparr>cq_Tx = tx, cq_Context = mctx\<rparr>]"
| "requests (ECExecuteBlock b) = [MFinalizedBlock b]"
| "requests ECCommit = [MCommitRequest CommitRequest]"
| "requests (ECQuery q) = [MStateQuery q]"
| "requests (ECBuildProposal x) = [MProposalContext x]"
| "requests (ECVerifyProposal x) = [MReceivedProposal x]"
| "requests (ECExtendVote x) = [MVoteContext x]"
| "requests (ECVerifyExtension x) = [MReceivedExtension x]"
| "requests ECAvailableSnapshots = [MAvailableSnapshotsRequest AvailableSnapshotsRequest]"
| "requests (ECExportSnapshot h f) = [MExportSnapshotRequest \<lparr>eq_Height = h, eq_Format = f\<rparr>]"
| "requests (ECImportSnapshot d ch) = descriptor_msg d # map chunk_msg ch"
| "requests (ECSimulate tx) = [MSimulateRequest \<lparr>sq_Tx = tx\<rparr>]"
| "requests _ = []"

definition travels :: "(message \<Rightarrow> bool) \<Rightarrow> message list \<Rightarrow> ('r \<Rightarrow> message list) \<Rightarrow> 'r res \<Rightarrow> bool" where
  "travels carries qs ms m =
     (case m of Ret (r, err) \<Rightarrow> list_all carries qs \<and> (err = None \<longrightarrow> list_all carries (ms r)) | _ \<Rightarrow> False)"

text \<open>
  The calls that a remote application can answer: the application returns from the method
  concerned, with or without an error, and the messages of the call are carried. The
  notifications of the mempool observer are not wired through; they are left to an
  application that does not declare them.
\<close>

fun served :: "(message \<Rightarrow> bool) \<Rightarrow> engine_call \<Rightarrow> 'a Server \<Rightarrow> bool" where
  "served carries (ECHandshake req) s =
     travels carries (requests (ECHandshake req)) (\<lambda>r. [MHandshakeResponse r]) (fst (m_Handshake (s_app s) req (s_state s)))"
| "served carries (ECCheckTx tx mctx) s =
     travels carries (requests (ECCheckTx tx mctx)) (\<lambda>r. [MGateVerdict r]) (fst (m_CheckTx (s_app s) tx mctx (s_state s)))"
| "served carries (ECExecuteBlock b) s =
     travels carries (requests (ECExecuteBlock b)) (\<lambda>r. [MBlockOutcome r]) (fst (m_ExecuteBlock (s_app s) b (s_state s)))"
| "served carries ECCommit s =
     travels carries (requests ECCommit) (\<lambda>r. [MCommitResult r]) (fst (m_Commit (s_app s) (s_state s)))"
| "served carries (ECQuery q) s =
     travels carries (requests (ECQuery q)) (\<lambda>r. [MStateQueryResult r]) (fst (m_Query (s_app s) q (s_state s)))"
| "served carries (ECBuildProposal x) s =
     (case s_proposalCtl s of None \<Rightarrow> True
      | Some p \<Rightarrow> travels carries (requests (ECBuildProposal x)) (\<lambda>r. [MBuiltProposal r]) (fst (m_BuildProposal p x (s_state s))))"
| "served carries (ECVerifyProposal x) s =
     (case s_proposalCtl s of None \<Rightarrow> True
      | Some p \<Rightarrow> travels carries (requests (ECVerifyProposal x)) (\<lambda>r. [MProposalVerdict r]) (fst (m_VerifyProposal p x (s_state s))))"
| "served carries (ECExtendVote x) s =
     (case s_voteExt s of None \<Rightarrow> True
      | Some v \<Rightarrow> travels carries (requests (ECExtendVote x)) (\<lambda>ext. [MExtendVoteResponse \<lparr>xr_Extension = ext\<rparr>])
          (fst (m_ExtendVote v x (s_state s))))"
| "served carries (ECVerifyExtension x) s =
     (case s_voteExt s of None \<Rightarrow> True
      | Some v \<Rightarrow> travels carries (requests (ECVerifyExtension x)) (\<lambda>v. [MExtensionVerdictResponse \<lparr>xv_Verdict = v\<rparr>])
          (fst (m_VerifyExtension v x (s_state s))))"
| "served carries ECAvailableSnapshots s =
     (case s_stateSync s of None \<Rightarrow> True
      | Some y \<Rightarrow> travels carries (requests ECAvailableSnapshots) (\<lambda>snaps. [MAvailableSnapshotsResponse \<lparr>as_Snapshots = snaps\<rparr>])
          (fst (m_AvailableSnapshots y (s_state s))))"
| "served carries (ECExportSnapshot h f) s =
     (case s_stateSync s of None \<Rightarrow> True
      | Some y \<Rightarrow> travels carries (requests (ECExportSnapshot h f)) (\<lambda>(ch, d). map MSnapshotChunk (the ch))
            (fst (m_ExportSnapshot y h f (s_state s))) \<and>
          (case fst (m_ExportSnapshot y h f (s_state s)) of Ret ((ch, d), err) \<Rightarrow> err \<noteq> None \<or> ch \<noteq> None | _ \<Rightarrow> False))"
| "served carries (ECImportSnapshot d ch) s =
     (case s_stateSync s of None \<Rightarrow> True
      | Some y \<Rightarrow> travels carries (requests (ECImportSnapshot d ch)) (\<lambda>r. [MImportResult r]) (fst (m_ImportSnapshot y d ch (s_state s))))"
| "served carries (ECSimulate tx) s =
     (case s_simulator s of None \<Rightarrow> True
      | Some m \<Rightarrow> travels carries (requests (ECSimulate tx)) (\<lambda>r. [MTxOutcome r]) (fst (m_Simulate m tx (s_state s))))"
| "served carries (ECOnBatchCertified e) s = (\<not> Capabilities_Has (s_caps s) CapMempoolObserver)"
| "served carries (ECOnBlockConstructed e) s = (\<not> Capabilities_Has (s_caps s) CapMempoolObserver)"

text \<open>A client between two calls, its connection up, and the server it is connected to.\<close>

definition linked :: "('w \<Rightarrow> 'a GRPCServer) \<Rightarrow> ('w \<Rightarrow> bool) \<Rightarrow> 'a Lifecycle \<Rightarrow> 'w Client \<Rightarrow> 'a Server \<Rightarrow> bool" where
  "linked remote up app c s \<longleftrightarrow>
     session_ok app s \<and> quiescent (server_phase s) \<and> remote (cl_cc c) = \<lparr>gs_srv = s\<rparr> \<and> up (cl_cc c) \<and>
     cl_guard c = s_guard s \<and> cl_caps c = s_caps s"

lemma guard_unique:
  assumes "guard_invar g" and "guard_invar g'" and "phase_of g = phase_of g'"
  shows "g = g'"
  using assms by (auto simp: guard_invar_def phase_of_def guard_states split: if_splits intro!: LifecycleGuard.equality)

definition ready_guard :: LifecycleGuard where
  "ready_guard = \<lparr>g_state = stateReady, g_seqMu = False, g_handshakeDone = True\<rparr>"

lemma ready_guard: "guard_invar ready_guard" "phase_of ready_guard = PReady"
  "guard_invar (ready_guard\<lparr>g_state := stateExecuted\<rparr>)" "phase_of (ready_guard\<lparr>g_state := stateExecuted\<rparr>) = PExecuted"
  by (simp_all add: ready_guard_def guard_invar_def phase_of_def guard_states)

lemma travels_pair:
  assumes "travels carries qs ms (fst x)"
  obtains r err a where "x = (Ret (r, err), a)" and "list_all carries qs" and "err = None \<Longrightarrow> list_all carries (ms r)"
  using assms by (cases x) (auto simp: travels_def split: go.splits prod.splits)

lemma travels_returns: "travels carries qs ms m \<Longrightarrow> returns m"
  by (cases m) (simp_all add: travels_def)

lemma service_methods:
  "map_of (svc_Methods serviceDesc) ''Handshake'' = Some handlerHandshake"
  "map_of (svc_Methods serviceDesc) ''CheckTx'' = Some handlerCheckTx"
  "map_of (svc_Methods serviceDesc) ''ExecuteBlock'' = Some handlerExecuteBlock"
  "map_of (svc_Methods serviceDesc) ''Commit'' = Some handlerCommit"
  "map_of (svc_Methods serviceDesc) ''Query'' = Some handlerQuery"
  "map_of (svc_Methods serviceDesc) ''BuildProposal'' = Some handlerBuildProposal"
  "map_of (svc_Methods serviceDesc) ''VerifyProposal'' = Some handlerVerifyProposal"
  "map_of (svc_Methods serviceDesc) ''ExtendVote'' = Some handlerExtendVote"
  "map_of (svc_Methods serviceDesc) ''VerifyExtension'' = Some handlerVerifyExtension"
  "map_of (svc_Methods serviceDesc) ''AvailableSnapshots'' = Some handlerAvailableSnapshots"
  "map_of (svc_Methods serviceDesc) ''Simulate'' = Some handlerSimulate"
  by (simp_all add: serviceDesc_def)

lemmas handler_defs = handlerHandshake_def handlerCheckTx_def handlerExecuteBlock_def handlerCommit_def
  handlerQuery_def handlerBuildProposal_def handlerVerifyProposal_def handlerExtendVote_def
  handlerVerifyExtension_def handlerAvailableSnapshots_def handlerSimulate_def
  GRPC_Handshake_def GRPC_CheckTx_def GRPC_ExecuteBlock_def GRPC_Commit_def GRPC_Query_def
  GRPC_BuildProposal_def GRPC_VerifyProposal_def GRPC_ExtendVote_def GRPC_VerifyExtension_def
  GRPC_AvailableSnapshots_def GRPC_Simulate_def

section \<open>Unary calls\<close>

context grpc_unary
begin

text \<open>One call of the library, for a handler of the common shape.\<close>

lemma invoke_method:
  assumes "up w" and "remote w = \<lparr>gs_srv = s\<rparr>"
    and "map_of (svc_Methods (serviceDesc :: ('a, unit) ServiceDesc)) m = Some h"
    and "\<And>dec. dec (kind_of q) = Inr q \<Longrightarrow>
      h dec \<lparr>gs_srv = s\<rparr> = as_any tag (pointer_or_error wrap (on_srv f \<lparr>gs_srv = s\<rparr>))"
    and "\<And>r. kind_of (tag r) = k" and "f s = (Ret (r, err), s')"
    and "carries q" and "err = None \<Longrightarrow> carries (tag (wrap r))"
  shows "\<exists>w'. cc_Invoke lib (fullMethod m) q k w =
      (Ret (case err of None \<Rightarrow> Inr (tag (wrap r)) | Some e \<Rightarrow> Inl (status_error e)), w') \<and>
      remote w' = \<lparr>gs_srv = s'\<rparr> \<and> up w'"
proof -
  obtain d where d: "CramberryCodec_Marshal cram q = Inr d" "CramberryCodec_Unmarshal cram d (kind_of q) = Inr q"
    by (rule codec_roundtrip [OF codec])
  have h: "h (CramberryCodec_Unmarshal cram d) (remote w) =
      (case err of None \<Rightarrow> (Ret (Some (tag (wrap r)), None), \<lparr>gs_srv = s'\<rparr>) | Some e \<Rightarrow> (Ret (None, Some e), \<lparr>gs_srv = s'\<rparr>))"
    using assms(4) [of "CramberryCodec_Unmarshal cram d", OF d(2)] assms(2,6)
    by (auto simp: as_any_def pointer_or_error_def on_srv_def split: option.splits)
  obtain d' where d': "CramberryCodec_Marshal cram (tag (wrap r)) = Inr d'"
    "CramberryCodec_Unmarshal cram d' k = Inr (tag (wrap r))"
    using codec_roundtrip [OF codec, of "tag (wrap r)"] assms(5) by metis
  show ?thesis
    using invoke_ok [OF assms(1,3) d(1) assms(7) _ _ d', of "\<lparr>gs_srv = s'\<rparr>"] invoke_err [OF assms(1,3) d(1) assms(7), of _ _ "\<lparr>gs_srv = s'\<rparr>"] h assms(8)
    by (cases err) auto
qed

text \<open>A call that is passed on without a guard, as the client's methods write it.\<close>

lemma client_unary:
  assumes "up (cl_cc c)" and "remote (cl_cc c) = \<lparr>gs_srv = s\<rparr>"
    and "map_of (svc_Methods (serviceDesc :: ('a, unit) ServiceDesc)) m = Some h"
    and "\<And>dec. dec (kind_of q) = Inr q \<Longrightarrow>
      h dec \<lparr>gs_srv = s\<rparr> = as_any tag (pointer_or_error wrap (on_srv f \<lparr>gs_srv = s\<rparr>))"
    and "\<And>r. kind_of (tag r) = k" and "f s = (Ret (r, err), s')"
    and "carries q" and "err = None \<Longrightarrow> carries (tag (wrap r))" and "\<And>r. un (tag (wrap r)) = r"
  shows "\<exists>w'. and_then (on_cc (cc_Invoke lib (fullMethod m) q k) c) (\<lambda>r c.
      case r of Inl err \<Rightarrow> (Ret (zero, Some err), c) | Inr resp \<Rightarrow> (Ret (un resp, None), c)) =
        (seen_remotely status_error zero (Ret (r, err)), c\<lparr>cl_cc := w'\<rparr>) \<and>
      remote w' = \<lparr>gs_srv = s'\<rparr> \<and> up w'"
proof -
  obtain w' where "cc_Invoke lib (fullMethod m) q k (cl_cc c) =
      (Ret (case err of None \<Rightarrow> Inr (tag (wrap r)) | Some e \<Rightarrow> Inl (status_error e)), w')"
    "remote w' = \<lparr>gs_srv = s'\<rparr>" "up w'"
    using invoke_method [OF assms(1-8)] by blast
  then show ?thesis using assms(9) by (cases err) (auto simp: on_cc_def)
qed

lemma linked_optional:
  assumes "linked remote up app c s" and "f s = call g s" and "travels carries [q] (\<lambda>r. [tag (wrap r)]) (fst (g (s_state s)))"
    and "map_of (svc_Methods (serviceDesc :: ('a, unit) ServiceDesc)) m = Some h"
    and "\<And>dec. dec (kind_of q) = Inr q \<Longrightarrow>
      h dec \<lparr>gs_srv = s\<rparr> = as_any tag (pointer_or_error wrap (on_srv f \<lparr>gs_srv = s\<rparr>))"
    and "\<And>r. kind_of (tag r) = k" and "\<And>r. un (tag (wrap r)) = r"
  shows "\<exists>c'. and_then (on_cc (cc_Invoke lib (fullMethod m) q k) c) (\<lambda>r c.
      case r of Inl err \<Rightarrow> (Ret (zero, Some err), c) | Inr resp \<Rightarrow> (Ret (un resp, None), c)) =
        (seen_remotely status_error zero (fst (f s)), c') \<and> linked remote up app c' (snd (f s))"
proof -
  obtain r err a where g: "g (s_state s) = (Ret (r, err), a)" and t: "carries q" "err = None \<Longrightarrow> carries (tag (wrap r))"
    using assms(3) by (auto elim!: travels_pair)
  have f: "f s = (Ret (r, err), s\<lparr>s_state := a\<rparr>)" using g assms(2) by (simp add: call_def)
  have l: "up (cl_cc c)" "remote (cl_cc c) = \<lparr>gs_srv = s\<rparr>" using assms(1) by (simp_all add: linked_def)
  obtain w' where w': "and_then (on_cc (cc_Invoke lib (fullMethod m) q k) c) (\<lambda>r c.
      case r of Inl err \<Rightarrow> (Ret (zero, Some err), c) | Inr resp \<Rightarrow> (Ret (un resp, None), c)) =
        (seen_remotely status_error zero (Ret (r, err)), c\<lparr>cl_cc := w'\<rparr>)"
      "remote w' = \<lparr>gs_srv = s\<lparr>s_state := a\<rparr>\<rparr>" "up w'"
    using client_unary [OF l assms(4,5,6) f _ _ assms(7)] t by auto
  have "session_ok app (s\<lparr>s_state := a\<rparr>)"
    using session_ok_call [of app s g] assms(1) g by (simp add: linked_def call_def)
  then show ?thesis using w' f assms(1) by (simp add: linked_def)
qed

lemma remote_guarded:
  assumes "linked remote up app c s" and "f s = and_then (with_guard CheckConcurrent s) (\<lambda>_ s. call g s)"
    and "travels carries [q] (\<lambda>r. [tag (wrap r)]) (fst (g (s_state s)))"
    and "map_of (svc_Methods (serviceDesc :: ('a, unit) ServiceDesc)) m = Some h"
    and "\<And>dec. dec (kind_of q) = Inr q \<Longrightarrow>
      h dec \<lparr>gs_srv = s\<rparr> = as_any tag (pointer_or_error wrap (on_srv f \<lparr>gs_srv = s\<rparr>))"
    and "\<And>r. kind_of (tag r) = k" and "\<And>r. un (tag (wrap r)) = r"
  shows "\<exists>c'. and_then (on_guard CheckConcurrent c) (\<lambda>_ c. and_then (on_cc (cc_Invoke lib (fullMethod m) q k) c) (\<lambda>r c.
      case r of Inl err \<Rightarrow> (Ret (zero, Some err), c) | Inr resp \<Rightarrow> (Ret (un resp, None), c))) =
        (seen_remotely status_error zero (fst (f s)), c') \<and> linked remote up app c' (snd (f s))"
proof (cases "g_handshakeDone (s_guard s)")
  case True
  then have "on_guard CheckConcurrent c = (Ret (), c)" "f s = call g s"
    using assms(1,2) by (simp_all add: on_guard_def with_guard_def CheckConcurrent_def linked_def)
  then show ?thesis
    using linked_optional [where f = f and g = g and tag = tag and wrap = wrap and un = un and zero = zero,
        OF assms(1) _ assms(3,4) _ assms(6,7)] assms(5) by simp
next
  case False
  then show ?thesis using assms(1,2)
    by (auto simp: on_guard_def with_guard_def CheckConcurrent_def linked_def)
qed

lemma remote_CheckTx:
  assumes "linked remote up app c s" and "served carries (ECCheckTx tx mctx) s"
  shows "\<exists>c'. Client_CheckTx lib tx mctx c = (seen_remotely status_error zero_GateVerdict (fst (CheckTx tx mctx s)), c') \<and>
     linked remote up app c' (snd (CheckTx tx mctx s))"
proof -
  show ?thesis unfolding Client_CheckTx_def
    by (intro remote_guarded [OF assms(1), where f = "CheckTx tx mctx" and g = "m_CheckTx (s_app s) tx mctx"
        and wrap = "\<lambda>x. x" and tag = MGateVerdict and h = handlerCheckTx])
      (use assms(2) in \<open>auto simp: CheckTx_def service_methods handler_defs with_guard_def CheckConcurrent_def\<close>)
qed

lemma remote_Query:
  assumes "linked remote up app c s" and "served carries (ECQuery q) s"
  shows "\<exists>c'. Client_Query lib q c = (seen_remotely status_error zero_StateQueryResult (fst (Query q s)), c') \<and>
     linked remote up app c' (snd (Query q s))"
proof -
  show ?thesis unfolding Client_Query_def
    by (intro remote_guarded [OF assms(1), where f = "Query q" and g = "m_Query (s_app s) q"
        and wrap = "\<lambda>x. x" and tag = MStateQueryResult and h = handlerQuery])
      (use assms(2) in \<open>auto simp: Query_def service_methods handler_defs with_guard_def CheckConcurrent_def\<close>)
qed

lemma remote_Handshake:
  assumes "linked remote up app c s" and "served carries (ECHandshake req) s"
  shows "\<exists>c'. Client_Handshake lib req c = (seen_remotely status_error zero_HandshakeResponse (fst (Handshake req s)), c') \<and>
     linked remote up app c' (snd (Handshake req s))"
proof (cases "server_phase s = PInit")
  case False
  then have "\<exists>m. Handshake req s = (Panic m, s) \<and> on_guard AcquireHandshake c = (Panic m, c)"
    using assms(1) by (auto simp: Handshake_def with_guard_def on_guard_def AcquireHandshake_def phase_of_def linked_def)
  then show ?thesis using assms(1) by (auto simp: Client_Handshake_def)
next
  case True
  have l: "up (cl_cc c)" "remote (cl_cc c) = \<lparr>gs_srv = s\<rparr>" "cl_guard c = s_guard s" "cl_caps c = s_caps s"
    and ok: "session_ok app s" using assms(1) by (simp_all add: linked_def)
  have inv: "server_invar s" and ap: "s_app s = app" using ok by (simp_all add: session_ok_def)
  then have g: "s_guard s = NewLifecycleGuard"
    using True by (intro guard_unique) (auto simp: server_invar_def guard_new)
  obtain resp err a where m: "m_Handshake (s_app s) req (s_state s) = (Ret (resp, err), a)"
    and t: "carries (MHandshakeRequest req)" "err = None \<Longrightarrow> carries (MHandshakeResponse resp)"
    using assms(2) by (auto elim!: travels_pair)
  have ok': "session_ok app (snd (Handshake req s))"
    by (rule session_ok_Handshake [OF ok]) (use m ap in simp)
  have res: "\<exists>err' s'. Handshake req s = (Ret (resp, err'), s') \<and> (err' = None \<longrightarrow> err = None) \<and>
      s_guard s' = (if err' = None then \<lparr>g_state = stateReady, g_seqMu = False, g_handshakeDone = True\<rparr> else s_guard s) \<and>
      s_caps s' = (if err' = None then hr_Capabilities resp else s_caps s)"
    using m g by (auto simp: Handshake_def with_guard_def call_def guard_ops NewLifecycleGuard_def guard_states
        split: option.splits prod.splits)
  then obtain err' s' where e: "err' = None \<longrightarrow> err = None" and s': "Handshake req s = (Ret (resp, err'), s')"
    "s_guard s' = (if err' = None then \<lparr>g_state = stateReady, g_seqMu = False, g_handshakeDone = True\<rparr> else s_guard s)"
    "s_caps s' = (if err' = None then hr_Capabilities resp else s_caps s)" by blast
  let ?c = "c\<lparr>cl_guard := (cl_guard c)\<lparr>g_state := stateReady\<rparr>\<rparr>"
  have "\<exists>w'. cc_Invoke lib (fullMethod ''Handshake'') (MHandshakeRequest req) KHandshakeResponse (cl_cc ?c) =
      (Ret (case err' of None \<Rightarrow> Inr (MHandshakeResponse resp) | Some e \<Rightarrow> Inl (status_error e)), w') \<and>
      remote w' = \<lparr>gs_srv = s'\<rparr> \<and> up w'"
    by (rule invoke_method [where wrap = "\<lambda>x. x" and h = handlerHandshake and f = "Handshake req"])
      (use l s' e t in \<open>auto simp: service_methods handler_defs\<close>)
  then obtain w' where w': "cc_Invoke lib (fullMethod ''Handshake'') (MHandshakeRequest req) KHandshakeResponse (cl_cc c) =
      (Ret (case err' of None \<Rightarrow> Inr (MHandshakeResponse resp) | Some e \<Rightarrow> Inl (status_error e)), w')"
    "remote w' = \<lparr>gs_srv = s'\<rparr>" "up w'" by auto
  show ?thesis using w' l s' g ok' True
    by (cases err') (auto simp: Client_Handshake_def on_guard_def on_cc_def linked_def guard_ops NewLifecycleGuard_def
        guard_states phase_of_def)
qed

lemma remote_ExecuteBlock:
  assumes "linked remote up app c s" and "served carries (ECExecuteBlock b) s"
  shows "\<exists>c'. Client_ExecuteBlock lib b c = (seen_remotely status_error zero_BlockOutcome (fst (ExecuteBlock b s)), c') \<and>
     linked remote up app c' (snd (ExecuteBlock b s))"
proof (cases "server_phase s = PReady")
  case False
  have inv: "guard_invar (s_guard s)" and q: "quiescent (server_phase s)"
    using assms(1) by (simp_all add: linked_def session_ok_def server_invar_def)
  then obtain m where "AcquireExecute (s_guard s) = (Panic m, s_guard s)"
    using lg.acquire_refused [OF inv q, of OpAcquireExecute] False by auto
  then have "ExecuteBlock b s = (Panic m, s)" "on_guard AcquireExecute c = (Panic m, c)"
    using assms(1) by (simp_all add: ExecuteBlock_def with_guard_def on_guard_def linked_def)
  then show ?thesis using assms(1) by (simp add: Client_ExecuteBlock_def)
next
  case True
  have l: "up (cl_cc c)" "remote (cl_cc c) = \<lparr>gs_srv = s\<rparr>" "cl_guard c = s_guard s" "cl_caps c = s_caps s"
    and ok: "session_ok app s" using assms(1) by (simp_all add: linked_def)
  have inv: "server_invar s" and ap: "s_app s = app" using ok by (simp_all add: session_ok_def)
  then have g: "s_guard s = ready_guard"
    using True by (intro guard_unique) (auto simp: server_invar_def ready_guard)
  obtain out err a where m: "m_ExecuteBlock (s_app s) b (s_state s) = (Ret (out, err), a)"
    and t: "carries (MFinalizedBlock b)" "err = None \<Longrightarrow> carries (MBlockOutcome out)"
    using assms(2) by (auto elim!: travels_pair)
  have "\<exists>s'. ExecuteBlock b s = (Ret (out, err), s') \<and>
      s_guard s' = (if err = None then ready_guard\<lparr>g_state := stateExecuted\<rparr> else ready_guard) \<and> s_caps s' = s_caps s"
    using m g by (auto simp: ExecuteBlock_def with_guard_def call_def guard_ops ready_guard_def guard_states
        split: option.splits)
  then obtain s' where s': "ExecuteBlock b s = (Ret (out, err), s')"
    "s_guard s' = (if err = None then ready_guard\<lparr>g_state := stateExecuted\<rparr> else ready_guard)"
    "s_caps s' = s_caps s" by blast
  have ok': "session_ok app s'" using session_ok_ExecuteBlock [OF ok, of b] s'(1) by simp
  have "\<exists>w'. cc_Invoke lib (fullMethod ''ExecuteBlock'') (MFinalizedBlock b) KBlockOutcome (cl_cc c) =
      (Ret (case err of None \<Rightarrow> Inr (MBlockOutcome out) | Some e \<Rightarrow> Inl (status_error e)), w') \<and>
      remote w' = \<lparr>gs_srv = s'\<rparr> \<and> up w'"
    by (rule invoke_method [where wrap = "\<lambda>x. x" and h = handlerExecuteBlock and f = "ExecuteBlock b"])
      (use l s' t in \<open>auto simp: service_methods handler_defs\<close>)
  then show ?thesis using l s' g ok'
    by (cases err) (auto simp: Client_ExecuteBlock_def on_guard_def on_cc_def linked_def guard_ops ready_guard_def
        guard_states phase_of_def)
qed

lemma remote_Commit:
  assumes "linked remote up app c s" and "served carries ECCommit s"
  shows "\<exists>c'. Client_Commit lib c = (seen_remotely status_error \<lparr>cr_RetainHeight = 0\<rparr> (fst (Commit s)), c') \<and>
     linked remote up app c' (snd (Commit s))"
proof (cases "server_phase s = PExecuted")
  case False
  have inv: "guard_invar (s_guard s)" and q: "quiescent (server_phase s)"
    using assms(1) by (simp_all add: linked_def session_ok_def server_invar_def)
  then obtain m where "AcquireCommit (s_guard s) = (Panic m, s_guard s)"
    using lg.acquire_refused [OF inv q, of OpAcquireCommit] False by auto
  then have "Commit s = (Panic m, s)" "on_guard AcquireCommit c = (Panic m, c)"
    using assms(1) by (simp_all add: Commit_def with_guard_def on_guard_def linked_def)
  then show ?thesis using assms(1) by (simp add: Client_Commit_def)
next
  case True
  have l: "up (cl_cc c)" "remote (cl_cc c) = \<lparr>gs_srv = s\<rparr>" "cl_guard c = s_guard s" "cl_caps c = s_caps s"
    and ok: "session_ok app s" using assms(1) by (simp_all add: linked_def)
  have inv: "server_invar s" and ap: "s_app s = app" using ok by (simp_all add: session_ok_def)
  then have g: "s_guard s = ready_guard\<lparr>g_state := stateExecuted\<rparr>"
    using True by (intro guard_unique) (auto simp: server_invar_def ready_guard)
  obtain res err a where m: "m_Commit (s_app s) (s_state s) = (Ret (res, err), a)"
    and t: "carries (MCommitRequest CommitRequest)" "err = None \<Longrightarrow> carries (MCommitResult res)"
    using assms(2) by (auto elim!: travels_pair)
  have "\<exists>s'. Commit s = (Ret (res, err), s') \<and> s_guard s' = ready_guard \<and> s_caps s' = s_caps s"
    using m g by (auto simp: Commit_def with_guard_def call_def guard_ops ready_guard_def guard_states)
  then obtain s' where s': "Commit s = (Ret (res, err), s')" "s_guard s' = ready_guard" "s_caps s' = s_caps s"
    by blast
  have ok': "session_ok app s'" using session_ok_Commit [OF ok] s'(1) by simp
  have "\<exists>w'. cc_Invoke lib (fullMethod ''Commit'') (MCommitRequest CommitRequest) KCommitResult (cl_cc c) =
      (Ret (case err of None \<Rightarrow> Inr (MCommitResult res) | Some e \<Rightarrow> Inl (status_error e)), w') \<and>
      remote w' = \<lparr>gs_srv = s'\<rparr> \<and> up w'"
    by (rule invoke_method [where wrap = "\<lambda>x. x" and h = handlerCommit and f = Commit])
      (use l s' t in \<open>auto simp: service_methods handler_defs\<close>)
  then show ?thesis using l s' g ok'
    by (cases err) (auto simp: Client_Commit_def on_guard_def on_cc_def linked_def guard_ops ready_guard_def
        guard_states phase_of_def)
qed

lemma remote_BuildProposal:
  assumes "linked remote up app c s" and "served carries (ECBuildProposal x) s" and "s_proposalCtl s = Some i"
  shows "\<exists>c'. client_BuildProposal lib x c = (seen_remotely status_error \<lparr>bp_Txs = []\<rparr> (fst (BuildProposal x s)), c') \<and>
     linked remote up app c' (snd (BuildProposal x s))"
proof -
  show ?thesis unfolding client_BuildProposal_def
    by (intro linked_optional [OF assms(1), where f = "BuildProposal x" and g = "m_BuildProposal i x"
        and wrap = "\<lambda>x. x" and tag = MBuiltProposal and h = handlerBuildProposal])
      (use assms(2,3) in \<open>auto simp: BuildProposal_def service_methods handler_defs\<close>)
qed

lemma remote_VerifyProposal:
  assumes "linked remote up app c s" and "served carries (ECVerifyProposal x) s" and "s_proposalCtl s = Some i"
  shows "\<exists>c'. client_VerifyProposal lib x c = (seen_remotely status_error \<lparr>pv_Accept = False, pv_RejectReason = []\<rparr> (fst (VerifyProposal x s)), c') \<and>
     linked remote up app c' (snd (VerifyProposal x s))"
proof -
  show ?thesis unfolding client_VerifyProposal_def
    by (intro linked_optional [OF assms(1), where f = "VerifyProposal x" and g = "m_VerifyProposal i x"
        and wrap = "\<lambda>x. x" and tag = MProposalVerdict and h = handlerVerifyProposal])
      (use assms(2,3) in \<open>auto simp: VerifyProposal_def service_methods handler_defs\<close>)
qed

lemma remote_ExtendVote:
  assumes "linked remote up app c s" and "served carries (ECExtendVote x) s" and "s_voteExt s = Some i"
  shows "\<exists>c'. client_ExtendVote lib x c = (seen_remotely status_error [] (fst (ExtendVote x s)), c') \<and>
     linked remote up app c' (snd (ExtendVote x s))"
proof -
  show ?thesis unfolding client_ExtendVote_def
    by (intro linked_optional [OF assms(1), where f = "ExtendVote x" and g = "m_ExtendVote i x"
        and wrap = "\<lambda>ext. \<lparr>xr_Extension = ext\<rparr>" and tag = MExtendVoteResponse and h = handlerExtendVote])
      (use assms(2,3) in \<open>auto simp: ExtendVote_def service_methods handler_defs\<close>)
qed

lemma remote_VerifyExtension:
  assumes "linked remote up app c s" and "served carries (ECVerifyExtension x) s" and "s_voteExt s = Some i"
  shows "\<exists>c'. client_VerifyExtension lib x c = (seen_remotely status_error ExtensionReject (fst (VerifyExtension x s)), c') \<and>
     linked remote up app c' (snd (VerifyExtension x s))"
proof -
  show ?thesis unfolding client_VerifyExtension_def
    by (intro linked_optional [OF assms(1), where f = "VerifyExtension x" and g = "m_VerifyExtension i x"
        and wrap = "\<lambda>v. \<lparr>xv_Verdict = v\<rparr>" and tag = MExtensionVerdictResponse and h = handlerVerifyExtension])
      (use assms(2,3) in \<open>auto simp: VerifyExtension_def service_methods handler_defs\<close>)
qed

lemma remote_AvailableSnapshots:
  assumes "linked remote up app c s" and "served carries ECAvailableSnapshots s" and "s_stateSync s = Some i"
  shows "\<exists>c'. client_AvailableSnapshots lib c = (seen_remotely status_error [] (fst (AvailableSnapshots s)), c') \<and>
     linked remote up app c' (snd (AvailableSnapshots s))"
proof -
  show ?thesis unfolding client_AvailableSnapshots_def
    by (intro linked_optional [OF assms(1), where f = "AvailableSnapshots" and g = "m_AvailableSnapshots i"
        and wrap = "\<lambda>snaps. \<lparr>as_Snapshots = snaps\<rparr>" and tag = MAvailableSnapshotsResponse and h = handlerAvailableSnapshots])
      (use assms(2,3) in \<open>auto simp: AvailableSnapshots_def service_methods handler_defs\<close>)
qed

lemma remote_Simulate:
  assumes "linked remote up app c s" and "served carries (ECSimulate tx) s" and "s_simulator s = Some i"
    and "g_handshakeDone (s_guard s)"
  shows "\<exists>c'. client_Simulate lib tx c = (seen_remotely status_error zero_TxOutcome (fst (Simulate tx s)), c') \<and>
     linked remote up app c' (snd (Simulate tx s))"
proof -
  show ?thesis unfolding client_Simulate_def
    by (intro linked_optional [OF assms(1), where f = "Simulate tx" and g = "m_Simulate i tx"
        and wrap = "\<lambda>x. x" and tag = MTxOutcome and h = handlerSimulate])
      (use assms(2-4) in \<open>auto simp: Simulate_def with_guard_def CheckConcurrent_def service_methods handler_defs\<close>)
qed

end

section \<open>Streams\<close>

lemma service_streams:
  "stream_handler_of serviceDesc ''ExportSnapshot'' = Some handlerExportSnapshot"
  "stream_handler_of serviceDesc ''ImportSnapshot'' = Some handlerImportSnapshot"
  by (simp_all add: stream_handler_of_def serviceDesc_def)

text \<open>An export as the client sees it: no descriptor, and an error of the server ends the channel.\<close>

fun export_seen :: "(chunk_chan option \<times> SnapshotDescriptor option) res \<Rightarrow>
    (chunk_chan option \<times> SnapshotDescriptor option) res" where
  "export_seen (Ret ((ch, d), None)) = Ret ((ch, None), None)"
| "export_seen (Ret ((ch, d), Some e)) = Ret ((Some [], None), None)"
| "export_seen (Panic m) = Panic m"
| "export_seen Blocked = Blocked"

context grpc_streams
begin

lemma send_chunks_all:
  "\<exists>st'. send_chunks slib chunks (p, st) = (Ret None, (p, st')) \<and>
     outbox st' = outbox st @ map MSnapshotChunk chunks"
proof (induction chunks arbitrary: st)
  case Nil
  show ?case by simp
next
  case (Cons chunk chunks)
  obtain st1 where 1: "ss_SendMsg slib (MSnapshotChunk chunk) st = (Ret None, st1)"
    "outbox st1 = outbox st @ [MSnapshotChunk chunk]" using server_send by blast
  show ?case using 1 Cons [of st1] by (auto simp: on_stream_def)
qed

lemma stream_chunks_all:
  assumes "up w" and "running w h many (map MSnapshotChunk chunks) err s" and "list_all carries (map MSnapshotChunk chunks)"
  shows "\<exists>w'. stream_chunks lib h w = Some (chunks, w') \<and> remote w' = s \<and> up w'"
  using assms
proof (induction chunks arbitrary: w)
  case Nil
  then show ?case using client_end [of w h many err s KSnapshotChunk] by (auto simp: stream_chunks.simps)
next
  case (Cons chunk chunks)
  obtain w1 where 1: "cs_RecvMsg lib h KSnapshotChunk w = (Ret (Inr (MSnapshotChunk chunk)), w1)"
    "running w1 h many (map MSnapshotChunk chunks) err s" "up w1"
    using client_recv [of w h many "MSnapshotChunk chunk" _ err s KSnapshotChunk] Cons.prems by auto
  show ?case using 1 Cons.prems Cons.IH [of w1] by (subst stream_chunks.simps) auto
qed

lemma recv_chunks_all:
  assumes "inbox st = map chunk_msg chunks" and "list_all carries (map chunk_msg chunks)"
  shows "\<exists>st'. recv_chunks slib st = Some (chunks, st') \<and> outbox st' = outbox st"
  using assms
proof (induction chunks arbitrary: st)
  case Nil
  then show ?case using server_eof [of st KImportSnapshotMessage] by (auto simp: recv_chunks.simps)
next
  case (Cons chunk chunks)
  let ?m = "chunk_msg chunk"
  obtain st1 where 1: "ss_RecvMsg slib KImportSnapshotMessage st = (Ret (Inr ?m), st1)"
    "inbox st1 = map chunk_msg chunks"
    "outbox st1 = outbox st"
    using server_recv [of st ?m _ KImportSnapshotMessage] Cons.prems by auto
  show ?case using 1 Cons.prems Cons.IH [of st1] by (subst recv_chunks.simps) auto
qed

lemma send_import_all:
  assumes "up (cl_cc c)" and "stream_of (cl_cc c) h = Some (m, many)" and "list_all carries (map chunk_msg chunks)"
  shows "\<exists>w'. send_import lib h chunks c = (Ret None, c\<lparr>cl_cc := w'\<rparr>) \<and> up w' \<and> stream_of w' h = Some (m, many) \<and>
     sent w' h = sent (cl_cc c) h @ map chunk_msg chunks \<and>
     remote w' = remote (cl_cc c)"
  using assms
proof (induction chunks arbitrary: c)
  case Nil
  then show ?case by (auto intro!: exI [of _ "cl_cc c"])
next
  case (Cons chunk chunks)
  let ?m = "chunk_msg chunk"
  obtain w1 where 1: "cs_SendMsg lib h ?m (cl_cc c) = (Ret None, w1)" "stream_of w1 h = Some (m, many)"
    "sent w1 h = sent (cl_cc c) h @ [?m]" "remote w1 = remote (cl_cc c)" "up w1"
    using client_send [OF Cons.prems(1,2), of ?m] Cons.prems(3) by auto
  show ?case using 1 Cons.prems(3) Cons.IH [of "c\<lparr>cl_cc := w1\<rparr>"] by (auto simp: on_cc_def)
qed

text \<open>The handlers, run on everything the client has sent.\<close>

lemma export_handler:
  assumes "ExportSnapshot height format s = (Ret ((ch, d), err), s')" and "err = None \<longrightarrow> ch \<noteq> None"
    and "inbox st = [MExportSnapshotRequest \<lparr>eq_Height = height, eq_Format = format\<rparr>]" and "outbox st = []"
    and "list_all carries (inbox st)"
  shows "\<exists>st'. handlerExportSnapshot slib (\<lparr>gs_srv = s\<rparr>, st) = (Ret err, (\<lparr>gs_srv = s'\<rparr>, st')) \<and>
     outbox st' = (if err = None then map MSnapshotChunk (the ch) else [])"
proof -
  let ?m = "MExportSnapshotRequest \<lparr>eq_Height = height, eq_Format = format\<rparr>"
  obtain st1 where 1: "ss_RecvMsg slib KExportSnapshotRequest st = (Ret (Inr ?m), st1)" "outbox st1 = []"
    using server_recv [of st ?m _ KExportSnapshotRequest] assms(3-5) by auto
  show ?thesis using 1 assms(1,2) send_chunks_all [of "the ch" "\<lparr>gs_srv = s'\<rparr>" st1]
    by (cases err) (auto simp: handlerExportSnapshot_def GRPC_ExportSnapshot_def on_stream_def on_server_def on_srv_def)
qed

lemma import_handler:
  assumes "ImportSnapshot desc chunks s = (Ret (res, err), s')"
    and "inbox st = descriptor_msg desc # map chunk_msg chunks" and "outbox st = []" and "list_all carries (inbox st)"
  shows "\<exists>st'. handlerImportSnapshot slib (\<lparr>gs_srv = s\<rparr>, st) = (Ret err, (\<lparr>gs_srv = s'\<rparr>, st')) \<and>
     outbox st' = (if err = None then [MImportResult res] else [])"
proof -
  let ?m = "descriptor_msg desc"
  obtain st1 where 1: "ss_RecvMsg slib KImportSnapshotMessage st = (Ret (Inr ?m), st1)" "outbox st1 = []"
    "inbox st1 = map chunk_msg chunks"
    using server_recv [of st ?m _ KImportSnapshotMessage] assms(2-4) by auto
  obtain st2 where 2: "recv_chunks slib st1 = Some (chunks, st2)" "outbox st2 = []"
    using recv_chunks_all [OF 1(3)] 1(2) assms(2,4) by auto
  obtain st3 where 3: "ss_SendMsg slib (MImportResult res) st2 = (Ret None, st3)" "outbox st3 = [MImportResult res]"
    using server_send [of "MImportResult res" st2] 2(2) by auto
  show ?thesis using 1 2 3 assms(1)
    by (cases err) (auto simp: handlerImportSnapshot_def GRPC_ImportSnapshot_def on_stream_def on_server_def on_srv_def)
qed

lemma linked_server:
  assumes "linked remote up app c s" and "remote w = \<lparr>gs_srv = snd (call m s)\<rparr>" and "up w"
  shows "linked remote up app (c\<lparr>cl_cc := w\<rparr>) (snd (call m s))"
  using assms session_ok_call [of app s m] by (auto simp: linked_def call_def split: prod.splits)

lemma remote_ExportSnapshot:
  assumes "linked remote up app c s" and "served carries (ECExportSnapshot height format) s" and "s_stateSync s = Some y"
  shows "\<exists>c'. client_ExportSnapshot lib height format c = (export_seen (fst (ExportSnapshot height format s)), c') \<and>
     linked remote up app c' (snd (ExportSnapshot height format s))"
proof -
  obtain ch d err where m: "fst (m_ExportSnapshot y height format (s_state s)) = Ret ((ch, d), err)"
    "err = None \<longrightarrow> ch \<noteq> None"
    and t: "carries (MExportSnapshotRequest \<lparr>eq_Height = height, eq_Format = format\<rparr>)"
      "err = None \<longrightarrow> list_all carries (map MSnapshotChunk (the ch))"
    using assms(2,3) by (auto simp: travels_def split: go.splits)
  then obtain s' where s': "ExportSnapshot height format s = (Ret ((ch, d), err), s')"
    "s' = snd (call (m_ExportSnapshot y height format) s)"
    using assms(3) by (cases "m_ExportSnapshot y height format (s_state s)") (simp add: ExportSnapshot_def call_def)
  have l: "up (cl_cc c)" "remote (cl_cc c) = \<lparr>gs_srv = s\<rparr>" using assms(1) by (simp_all add: linked_def)
  let ?q = "MExportSnapshotRequest \<lparr>eq_Height = height, eq_Format = format\<rparr>"
  let ?d = "\<lparr>str_StreamName = ''ExportSnapshot'', str_ServerStreams = True, str_ClientStreams = False\<rparr>"
  obtain h w1 where 1: "cc_NewStream lib ?d (fullMethod ''ExportSnapshot'') (cl_cc c) = (Ret (Inr h), w1)"
    "stream_of w1 h = Some (''ExportSnapshot'', True)" "sent w1 h = []" "remote w1 = \<lparr>gs_srv = s\<rparr>" "up w1"
    using client_open [OF l(1), of ?d "''ExportSnapshot''"] l(2) by auto
  obtain w2 where 2: "cs_SendMsg lib h ?q w1 = (Ret None, w2)" "stream_of w2 h = Some (''ExportSnapshot'', True)"
    "sent w2 h = [?q]" "remote w2 = \<lparr>gs_srv = s\<rparr>" "up w2"
    using client_send [OF 1(5,2) t(1)] 1(3,4) by auto
  obtain st where st: "inbox st = [?q]" "outbox st = []" using server_fresh by blast
  obtain st' where h: "handlerExportSnapshot slib (\<lparr>gs_srv = s\<rparr>, st) = (Ret err, (\<lparr>gs_srv = s'\<rparr>, st'))"
    "outbox st' = (if err = None then map MSnapshotChunk (the ch) else [])"
    using export_handler [OF s'(1) m(2) st] st(1) t(1) by auto
  obtain w3 where 3: "cs_CloseSend lib h w2 = (Ret None, w3)" "up w3"
    "running w3 h True (map MSnapshotChunk (if err = None then the ch else [])) err \<lparr>gs_srv = s'\<rparr>"
    using client_close [OF 2(5,2) service_streams(1), of st] st h 2(3,4) by (cases err) auto
  obtain w4 where 4: "stream_chunks lib h w3 = Some (if err = None then the ch else [], w4)"
    "remote w4 = \<lparr>gs_srv = s'\<rparr>" "up w4" using stream_chunks_all [OF 3(2,3)] t(2) by (cases err) auto
  have "client_ExportSnapshot lib height format c = (export_seen (Ret ((ch, d), err)), c\<lparr>cl_cc := w4\<rparr>)"
    using 1 2 3 4 m(2) by (cases err) (auto simp: client_ExportSnapshot_def on_cc_def)
  then show ?thesis using linked_server [OF assms(1), of w4 "m_ExportSnapshot y height format"] 4 s' by simp
qed

lemma remote_ImportSnapshot:
  assumes "linked remote up app c s" and "served carries (ECImportSnapshot desc chunks) s" and "s_stateSync s = Some y"
  shows "\<exists>c'. client_ImportSnapshot lib desc chunks c =
      (seen_remotely status_error zero_ImportResult (fst (ImportSnapshot desc chunks s)), c') \<and>
     linked remote up app c' (snd (ImportSnapshot desc chunks s))"
proof -
  let ?q = "descriptor_msg desc" and ?qs = "map chunk_msg chunks"
  obtain res err a where m: "m_ImportSnapshot y desc chunks (s_state s) = (Ret (res, err), a)"
    and t: "carries ?q" "list_all carries ?qs" "err = None \<Longrightarrow> carries (MImportResult res)"
    using assms(2,3) by (auto elim!: travels_pair)
  then obtain s' where s': "ImportSnapshot desc chunks s = (Ret (res, err), s')"
    "s' = snd (call (m_ImportSnapshot y desc chunks) s)"
    using assms(3) by (simp add: ImportSnapshot_def call_def)
  have l: "up (cl_cc c)" "remote (cl_cc c) = \<lparr>gs_srv = s\<rparr>" using assms(1) by (simp_all add: linked_def)
  let ?d = "\<lparr>str_StreamName = ''ImportSnapshot'', str_ServerStreams = False, str_ClientStreams = True\<rparr>"
  obtain h w1 where 1: "cc_NewStream lib ?d (fullMethod ''ImportSnapshot'') (cl_cc c) = (Ret (Inr h), w1)"
    "stream_of w1 h = Some (''ImportSnapshot'', False)" "sent w1 h = []" "remote w1 = \<lparr>gs_srv = s\<rparr>" "up w1"
    using client_open [OF l(1), of ?d "''ImportSnapshot''"] l(2) by auto
  obtain w2 where 2: "cs_SendMsg lib h ?q w1 = (Ret None, w2)" "stream_of w2 h = Some (''ImportSnapshot'', False)"
    "sent w2 h = [?q]" "remote w2 = \<lparr>gs_srv = s\<rparr>" "up w2"
    using client_send [OF 1(5,2) t(1)] 1(3,4) by auto
  obtain w3 where 3: "send_import lib h chunks (c\<lparr>cl_cc := w2\<rparr>) = (Ret None, c\<lparr>cl_cc := w3\<rparr>)" "up w3"
    "stream_of w3 h = Some (''ImportSnapshot'', False)" "sent w3 h = ?q # ?qs" "remote w3 = \<lparr>gs_srv = s\<rparr>"
    using send_import_all [of "c\<lparr>cl_cc := w2\<rparr>" h _ _ chunks] 2 t(2) by auto
  obtain st where st: "inbox st = ?q # ?qs" "outbox st = []" using server_fresh by blast
  obtain st' where h: "handlerImportSnapshot slib (\<lparr>gs_srv = s\<rparr>, st) = (Ret err, (\<lparr>gs_srv = s'\<rparr>, st'))"
    "outbox st' = (if err = None then [MImportResult res] else [])"
    using import_handler [OF s'(1) st] st(1) t(1,2) by auto
  obtain w4 where 4: "cs_CloseSend lib h w3 = (Ret None, w4)" "up w4"
    "running w4 h False (if err = None then [MImportResult res] else []) err \<lparr>gs_srv = s'\<rparr>"
    using client_close [OF 3(2,3) service_streams(2), of st] st h 3(4,5) by auto
  obtain w5 where 5: "cs_RecvMsg lib h KImportResult w4 =
      (Ret (case err of None \<Rightarrow> Inr (MImportResult res) | Some e \<Rightarrow> Inl (status_error e)), w5)"
    "remote w5 = \<lparr>gs_srv = s'\<rparr>" "up w5"
    using client_recv [of w4 h False "MImportResult res" "[]" err _ KImportResult] client_end [of w4 h False err _ KImportResult] 4 t(3)
    by (cases err) auto
  have "client_ImportSnapshot lib desc chunks c =
      (seen_remotely status_error zero_ImportResult (Ret (res, err)), c\<lparr>cl_cc := w5\<rparr>)"
    using 1 2 3 4 5 by (cases err) (auto simp: client_ImportSnapshot_def on_cc_def)
  then show ?thesis using linked_server [OF assms(1), of w5 "m_ImportSnapshot y desc chunks"] 5 s' by simp
qed

end

section \<open>Sessions\<close>

definition grpc_conn :: "'w ClientConn \<Rightarrow> 'w Client conn" where
  "grpc_conn lib = \<lparr>
     k_Handshake = Client_Handshake lib, k_CheckTx = Client_CheckTx lib, k_ExecuteBlock = Client_ExecuteBlock lib,
     k_Commit = Client_Commit lib, k_Query = Client_Query lib, k_Capabilities = Client_Capabilities,
     k_AsProposalControl = Client_AsProposalControl lib, k_AsVoteExtender = Client_AsVoteExtender lib,
     k_AsStateSync = Client_AsStateSync lib, k_AsSimulator = Client_AsSimulator lib,
     k_AsMempoolObserver = Client_AsMempoolObserver, k_Close = Client_Close lib\<rparr>"

text \<open>A reply of the application as the engine sees it through the client.\<close>

fun reply_seen :: "(go_error \<Rightarrow> go_error) \<Rightarrow> reply \<Rightarrow> reply" where
  "reply_seen st (RHandshake r) = RHandshake (seen_remotely st zero_HandshakeResponse r)"
| "reply_seen st (RCheckTx r) = RCheckTx (seen_remotely st zero_GateVerdict r)"
| "reply_seen st (RExecuteBlock r) = RExecuteBlock (seen_remotely st zero_BlockOutcome r)"
| "reply_seen st (RCommit r) = RCommit (seen_remotely st \<lparr>cr_RetainHeight = 0\<rparr> r)"
| "reply_seen st (RQuery r) = RQuery (seen_remotely st zero_StateQueryResult r)"
| "reply_seen st (RBuildProposal r) = RBuildProposal (seen_remotely st \<lparr>bp_Txs = []\<rparr> r)"
| "reply_seen st (RVerifyProposal r) =
     RVerifyProposal (seen_remotely st \<lparr>pv_Accept = False, pv_RejectReason = []\<rparr> r)"
| "reply_seen st (RExtendVote r) = RExtendVote (seen_remotely st [] r)"
| "reply_seen st (RVerifyExtension r) = RVerifyExtension (seen_remotely st ExtensionReject r)"
| "reply_seen st (RAvailableSnapshots r) = RAvailableSnapshots (seen_remotely st [] r)"
| "reply_seen st (RExportSnapshot r) = RExportSnapshot (export_seen r)"
| "reply_seen st (RImportSnapshot r) = RImportSnapshot (seen_remotely st zero_ImportResult r)"
| "reply_seen st (RSimulate r) = RSimulate (seen_remotely st zero_TxOutcome r)"
| "reply_seen st r = r"

lemma caps_handshaken:
  assumes "session_ok app s" and "s_caps s \<noteq> 0"
  shows "g_handshakeDone (s_guard s)"
  using assms by (auto simp: session_ok_def server_invar_def guard_invar_def)

lemma Simulate_direct:
  "s_simulator s = Some m \<Longrightarrow> g_handshakeDone (s_guard s) \<Longrightarrow> Simulate tx s = call (m_Simulate m tx) s"
  by (simp add: Simulate_def with_guard_def CheckConcurrent_def)

lemmas conn_unfold = grpc_conn_def local_conn_def conn_defs via_srv_pair via_app_def optional_def
  Client_AsProposalControl_def Client_AsVoteExtender_def Client_AsStateSync_def Client_AsSimulator_def
  AsProposalControl_def AsVoteExtender_def AsStateSync_def AsSimulator_def

context grpc_streams
begin

text \<open>One step of the simulation, for each call.\<close>

lemma conn_step_proposal:
  assumes "linked remote up app c (c_srv l)" and "served carries x (c_srv l)"
    and "x = ECBuildProposal p \<or> x = ECVerifyProposal q \<or> x = ECExtendVote v \<or> x = ECVerifyExtension e"
  shows "\<exists>c'. engine_via (grpc_conn lib) x c = (reply_seen status_error (fst (engine_via local_conn x l)), c') \<and>
     linked remote up app c' (c_srv (snd (engine_via local_conn x l)))"
proof -
  have inv: "server_invar (c_srv l)" and caps: "cl_caps c = s_caps (c_srv l)"
    using assms(1) by (simp_all add: linked_def session_ok_def)
  consider (ctl) "x = ECBuildProposal p \<or> x = ECVerifyProposal q" | (ext) "x = ECExtendVote v \<or> x = ECVerifyExtension e"
    using assms(3) by blast
  then show ?thesis
  proof cases
    case ctl
    show ?thesis
    proof (cases "Capabilities_Has (s_caps (c_srv l)) CapProposalControl")
      case True
      then obtain i where i: "s_proposalCtl (c_srv l) = Some i" using local_optional(1) [OF inv] by blast
      from ctl show ?thesis
      proof
        assume x: "x = ECBuildProposal p"
        show ?thesis using remote_BuildProposal [OF assms(1) assms(2) [unfolded x] i] x i True caps
          by (auto simp: conn_unfold BuildProposal_def)
      next
        assume x: "x = ECVerifyProposal q"
        show ?thesis using remote_VerifyProposal [OF assms(1) assms(2) [unfolded x] i] x i True caps
          by (auto simp: conn_unfold VerifyProposal_def)
      qed
    qed (use assms(1) caps ctl in \<open>auto simp: conn_unfold\<close>)
  next
    case ext
    show ?thesis
    proof (cases "Capabilities_Has (s_caps (c_srv l)) CapVoteExtensions")
      case True
      then obtain i where i: "s_voteExt (c_srv l) = Some i" using local_optional(2) [OF inv] by blast
      from ext show ?thesis
      proof
        assume x: "x = ECExtendVote v"
        show ?thesis using remote_ExtendVote [OF assms(1) assms(2) [unfolded x] i] x i True caps
          by (auto simp: conn_unfold ExtendVote_def)
      next
        assume x: "x = ECVerifyExtension e"
        show ?thesis using remote_VerifyExtension [OF assms(1) assms(2) [unfolded x] i] x i True caps
          by (auto simp: conn_unfold VerifyExtension_def)
      qed
    qed (use assms(1) caps ext in \<open>auto simp: conn_unfold\<close>)
  qed
qed

lemma conn_step_sync:
  assumes "linked remote up app c (c_srv l)" and "served carries x (c_srv l)"
    and "x = ECAvailableSnapshots \<or> x = ECExportSnapshot h f \<or> x = ECImportSnapshot d ch"
  shows "\<exists>c'. engine_via (grpc_conn lib) x c = (reply_seen status_error (fst (engine_via local_conn x l)), c') \<and>
     linked remote up app c' (c_srv (snd (engine_via local_conn x l)))"
proof (cases "Capabilities_Has (s_caps (c_srv l)) CapStateSync")
  case True
  have inv: "server_invar (c_srv l)" and caps: "cl_caps c = s_caps (c_srv l)"
    using assms(1) by (simp_all add: linked_def session_ok_def)
  obtain i where i: "s_stateSync (c_srv l) = Some i" using local_optional(3) [OF inv True] by blast
  consider "x = ECAvailableSnapshots" | "x = ECExportSnapshot h f" | "x = ECImportSnapshot d ch" using assms(3) by blast
  then show ?thesis
  proof cases
    case 1
    show ?thesis using remote_AvailableSnapshots [OF assms(1) assms(2) [unfolded 1] i] 1 i True caps
      by (auto simp: conn_unfold AvailableSnapshots_def)
  next
    case 2
    show ?thesis using remote_ExportSnapshot [OF assms(1) assms(2) [unfolded 2] i] 2 i True caps
      by (auto simp: conn_unfold ExportSnapshot_def)
  next
    case 3
    show ?thesis using remote_ImportSnapshot [OF assms(1) assms(2) [unfolded 3] i] 3 i True caps
      by (auto simp: conn_unfold ImportSnapshot_def)
  qed
qed (use assms(1,3) in \<open>auto simp: conn_unfold linked_def\<close>)

lemma conn_step_simulate:
  assumes "linked remote up app c (c_srv l)" and "served carries (ECSimulate tx) (c_srv l)"
  shows "\<exists>c'. engine_via (grpc_conn lib) (ECSimulate tx) c =
      (reply_seen status_error (fst (engine_via local_conn (ECSimulate tx) l)), c') \<and>
     linked remote up app c' (c_srv (snd (engine_via local_conn (ECSimulate tx) l)))"
proof (cases "Capabilities_Has (s_caps (c_srv l)) CapSimulation")
  case True
  have inv: "server_invar (c_srv l)" and caps: "cl_caps c = s_caps (c_srv l)" and ok: "session_ok app (c_srv l)"
    using assms(1) by (simp_all add: linked_def session_ok_def)
  obtain i where i: "s_simulator (c_srv l) = Some i" using local_optional(4) [OF inv True] by blast
  have "s_caps (c_srv l) \<noteq> 0" using True by auto
  then have "g_handshakeDone (s_guard (c_srv l))" using caps_handshaken [OF ok] by blast
  then show ?thesis using True caps i remote_Simulate [OF assms i] Simulate_direct [OF i]
    by (auto simp: conn_unfold)
qed (use assms(1) in \<open>auto simp: conn_unfold linked_def\<close>)

lemma conn_step_observer:
  assumes "linked remote up app c (c_srv l)" and "served carries x (c_srv l)"
    and "x = ECOnBatchCertified e \<or> x = ECOnBlockConstructed e'"
  shows "\<exists>c'. engine_via (grpc_conn lib) x c = (reply_seen status_error (fst (engine_via local_conn x l)), c') \<and>
     linked remote up app c' (c_srv (snd (engine_via local_conn x l)))"
  using assms by (auto simp: conn_unfold linked_def Client_AsMempoolObserver_def AsMempoolObserver_def)

lemma conn_step:
  assumes "linked remote up app c (c_srv l)" and "served carries x (c_srv l)"
  shows "\<exists>c'. engine_via (grpc_conn lib) x c = (reply_seen status_error (fst (engine_via local_conn x l)), c') \<and>
     linked remote up app c' (c_srv (snd (engine_via local_conn x l)))"
proof (cases x)
  case (ECHandshake req)
  show ?thesis using remote_Handshake [OF assms(1) assms(2) [unfolded ECHandshake]] ECHandshake by (auto simp: conn_unfold)
next
  case (ECCheckTx tx mctx)
  show ?thesis using remote_CheckTx [OF assms(1) assms(2) [unfolded ECCheckTx]] ECCheckTx by (auto simp: conn_unfold)
next
  case (ECExecuteBlock b)
  show ?thesis using remote_ExecuteBlock [OF assms(1) assms(2) [unfolded ECExecuteBlock]] ECExecuteBlock
    by (auto simp: conn_unfold)
next
  case ECCommit
  show ?thesis using remote_Commit [OF assms(1) assms(2) [unfolded ECCommit]] ECCommit by (auto simp: conn_unfold)
next
  case (ECQuery q)
  show ?thesis using remote_Query [OF assms(1) assms(2) [unfolded ECQuery]] ECQuery by (auto simp: conn_unfold)
next
  case (ECSimulate tx)
  show ?thesis using conn_step_simulate [OF assms(1) assms(2) [unfolded ECSimulate]] ECSimulate by simp
qed (rule conn_step_proposal [OF assms], blast | rule conn_step_sync [OF assms], blast | rule conn_step_observer [OF assms], blast)+

end

text \<open>A connection to one application, and the simulation between it and an in-process connection.\<close>

locale grpc_app = grpc_streams lib cram remote up status_error carries slib inbox outbox stream_of sent running
  for lib :: "'w ClientConn" and cram :: "'d cramberry" and remote :: "'w \<Rightarrow> 'a GRPCServer"
    and up :: "'w \<Rightarrow> bool" and status_error :: "go_error \<Rightarrow> go_error" and carries :: "message \<Rightarrow> bool"
    and slib :: "'ss ServerStream" and inbox outbox stream_of sent running +
  fixes app :: "'a Lifecycle"

sublocale grpc_app < sim: conn_simulation local_conn "grpc_conn lib"
    "\<lambda>l c. linked remote up app c (c_srv l)" "reply_seen status_error" "\<lambda>x l. served carries x (c_srv l)"
  by unfold_locales (rule conn_step)

context grpc_app
begin

lemma sessions_alike:
  assumes "linked remote up app c (c_srv l)" and "all_along local_conn (\<lambda>x l. served carries x (c_srv l)) xs l"
  shows "fst (session (grpc_conn lib) xs c) = map (reply_seen status_error) (fst (session local_conn xs l)) \<and>
     linked remote up app (snd (session (grpc_conn lib) xs c)) (Conn_Server (snd (session local_conn xs l)))"
  using sim.sessions [OF assms] by (auto simp: Conn_Server_def)

end

lemma linked_Dial:
  assumes "Dial DialContext addr = (Some c, err)" and "DialContext addr = Inr w"
    and "remote w = NewGRPCServer app a" and "up w"
  shows "linked remote up app c (New app a)"
  using assms session_ok_New [of app a] New_invar [of app a]
  by (auto simp: Dial_def linked_def NewGRPCServer_def) (simp_all add: New_def)

end
