(* ===== verification/Json.thy ===== *)
theory Json
  imports Prelude
begin

text \<open>
  \<^verbatim>\<open>encoding/json\<close>, as far as the order-book application uses it. A document is a tree \<open>json\<close>
  whose strings are the raw text between the quotes and whose numbers are their literals.
  \<open>print_json\<close> writes the compact form of \<open>json.Marshal\<close> and \<open>quote\<close> escapes a string the
  way it does (HTML-safe, invalid UTF-8 replaced). \<open>parse_json\<close> is the scanner of the
  package, one step per byte over a stack of open containers, with its error messages;
  \<open>unquote\<close> reads a raw string back and \<open>fold_name\<close> is the case folding of field names.
  What is decoded from a tree is the business of the theories that have the Go types.
\<close>

section \<open>Trees and their text\<close>

datatype json =
    JNull
  | JBool bool
  | JNum string
  | JStr string
  | JArr "json list"
  | JObj "(string \<times> json) list"

fun join :: "string \<Rightarrow> string list \<Rightarrow> string" where
  "join sep [] = []"
| "join sep [x] = x"
| "join sep (x # y # zs) = x @ sep @ join sep (y # zs)"

fun print_json :: "json \<Rightarrow> string" where
  "print_json JNull = ''null''"
| "print_json (JBool b) = (if b then ''true'' else ''false'')"
| "print_json (JNum n) = n"
| "print_json (JStr s) = [CHR 0x22] @ s @ [CHR 0x22]"
| "print_json (JArr js) = ''['' @ join '','' (map print_json js) @ '']''"
| "print_json (JObj ps) =
     ''{'' @ join '','' (map (\<lambda>(k, j). [CHR 0x22] @ k @ [CHR 0x22] @ '':'' @ print_json j) ps) @ ''}''"

section \<open>UTF-8\<close>

abbreviation code :: "char \<Rightarrow> nat" where
  "code c \<equiv> of_char c"

definition cont :: "char \<Rightarrow> bool" where
  "cont c \<longleftrightarrow> 0x80 \<le> code c \<and> code c \<le> 0xBF"

text \<open>The size of the well-formed UTF-8 sequence at the head of a string, 0 if there is none.\<close>

definition rune_size :: "string \<Rightarrow> nat" where
  "rune_size s =
     (case s of
        [] \<Rightarrow> 0
      | c0 # s1 \<Rightarrow>
          let b0 = code c0 in
          if b0 < 0x80 then 1
          else (case s1 of
             [] \<Rightarrow> 0
           | c1 # s2 \<Rightarrow>
               let b1 = code c1 in
               if 0xC2 \<le> b0 \<and> b0 \<le> 0xDF then (if cont c1 then 2 else 0)
               else (case s2 of
                  [] \<Rightarrow> 0
                | c2 # s3 \<Rightarrow>
                    if 0xE0 \<le> b0 \<and> b0 \<le> 0xEF then
                      (if (if b0 = 0xE0 then 0xA0 \<le> b1 \<and> b1 \<le> 0xBF
                           else if b0 = 0xED then 0x80 \<le> b1 \<and> b1 \<le> 0x9F else cont c1) \<and> cont c2
                       then 3 else 0)
                    else (case s3 of
                       [] \<Rightarrow> 0
                     | c3 # _ \<Rightarrow>
                         if 0xF0 \<le> b0 \<and> b0 \<le> 0xF4 then
                           (if (if b0 = 0xF0 then 0x90 \<le> b1 \<and> b1 \<le> 0xBF
                                else if b0 = 0xF4 then 0x80 \<le> b1 \<and> b1 \<le> 0x8F else cont c1) \<and>
                               cont c2 \<and> cont c3
                            then 4 else 0)
                         else 0))))"

text \<open>The encoding of a code point, and of the replacement character.\<close>

definition rune_error :: string where
  "rune_error = map char_of [0xEF, 0xBF, 0xBD :: nat]"

definition encode_rune :: "nat \<Rightarrow> string" where
  "encode_rune r =
     (if r < 0x80 then [char_of r]
      else if r < 0x800 then map char_of [0xC0 + r div 0x40, 0x80 + r mod 0x40]
      else if (0xD800 \<le> r \<and> r \<le> 0xDFFF) \<or> 0x10FFFF < r then rune_error
      else if r < 0x10000 then
        map char_of [0xE0 + r div 0x1000, 0x80 + r div 0x40 mod 0x40, 0x80 + r mod 0x40]
      else
        map char_of [0xF0 + r div 0x40000, 0x80 + r div 0x1000 mod 0x40,
          0x80 + r div 0x40 mod 0x40, 0x80 + r mod 0x40])"

function valid_utf8 :: "string \<Rightarrow> bool" where
  "valid_utf8 s =
     (if s = [] then True else if rune_size s = 0 then False
      else valid_utf8 (drop (rune_size s) s))"
  by pat_completeness auto
termination
  by (relation "measure length") auto

declare valid_utf8.simps [simp del]

section \<open>Writing strings\<close>

definition esc :: "char \<Rightarrow> string" where
  "esc c = [CHR 0x5C, c]"

text \<open>The escape of one ASCII byte: itself where HTML-safe.\<close>

definition quote_ascii :: "char \<Rightarrow> string" where
  "quote_ascii c =
     (if c = CHR 0x22 \<or> c = CHR 0x5C then esc c
      else if c = CHR 0x08 then esc (CHR ''b'')
      else if c = CHR 0x0C then esc (CHR ''f'')
      else if c = CHR 0x0A then esc (CHR ''n'')
      else if c = CHR 0x0D then esc (CHR ''r'')
      else if c = CHR 0x09 then esc (CHR ''t'')
      else if code c < 0x20 \<or> c = CHR ''<'' \<or> c = CHR ''>'' \<or> c = CHR ''&'' then
        esc (CHR ''u'') @ ''00'' @ [hex_char (code c div 16), hex_char (code c mod 16)]
      else [c])"

function quote :: "string \<Rightarrow> string" where
  "quote s =
     (case s of
        [] \<Rightarrow> []
      | c # cs \<Rightarrow>
          if code c < 0x80 then quote_ascii c @ quote cs
          else if rune_size s = 0 then esc (CHR ''u'') @ ''fffd'' @ quote cs
          else if take 3 s = map char_of [0xE2, 0x80, 0xA8 :: nat] \<or>
                  take 3 s = map char_of [0xE2, 0x80, 0xA9 :: nat] then
            esc (CHR ''u'') @ ''202'' @ [hex_char (code (s ! 2) mod 16)] @ quote (drop 3 s)
          else take (rune_size s) s @ quote (drop (rune_size s) s))"
  by pat_completeness auto
termination
  by (relation "measure length") auto

declare quote.simps [simp del]

section \<open>Reading strings\<close>

definition hex_val :: "char \<Rightarrow> nat option" where
  "hex_val c =
     (let b = code c in
      if 48 \<le> b \<and> b \<le> 57 then Some (b - 48)
      else if 97 \<le> b \<and> b \<le> 102 then Some (b - 87)
      else if 65 \<le> b \<and> b \<le> 70 then Some (b - 55)
      else None)"

text \<open>\<open>getu4\<close>: the code unit of a leading \<open>uXXXX\<close> escape.\<close>

definition getu4 :: "string \<Rightarrow> nat option" where
  "getu4 s =
     (case s of
        c0 # c1 # a # b # c # d # _ \<Rightarrow>
          if c0 = CHR 0x5C \<and> c1 = CHR ''u'' then
            (case (hex_val a, hex_val b, hex_val c, hex_val d) of
               (Some w, Some x, Some y, Some z) \<Rightarrow> Some (((w * 16 + x) * 16 + y) * 16 + z)
             | _ \<Rightarrow> None)
          else None
      | _ \<Rightarrow> None)"

definition simple_escape :: "char \<Rightarrow> char option" where
  "simple_escape c =
     (if c = CHR 0x22 \<or> c = CHR 0x5C \<or> c = CHR ''/'' \<or> c = CHR 0x27 then Some c
      else if c = CHR ''b'' then Some (CHR 0x08)
      else if c = CHR ''f'' then Some (CHR 0x0C)
      else if c = CHR ''n'' then Some (CHR 0x0A)
      else if c = CHR ''r'' then Some (CHR 0x0D)
      else if c = CHR ''t'' then Some (CHR 0x09)
      else None)"

text \<open>
  \<open>unquoteBytes\<close> on the text between the quotes; the scanner has accepted it, so the
  remaining failures (\<open>None\<close>) do not arise.
\<close>

function unquote :: "string \<Rightarrow> string option" where
  "unquote s =
     (case s of
        [] \<Rightarrow> Some []
      | c # cs \<Rightarrow>
          if c = CHR 0x5C then
            (case cs of
               [] \<Rightarrow> None
             | d # ds \<Rightarrow>
                 if d = CHR ''u'' then
                   (case getu4 s of
                      None \<Rightarrow> None
                    | Some r \<Rightarrow>
                        if 0xD800 \<le> r \<and> r < 0xE000 then
                          (case getu4 (drop 6 s) of
                             Some r1 \<Rightarrow>
                               if r < 0xDC00 \<and> 0xDC00 \<le> r1 \<and> r1 < 0xE000 then
                                 map_option (\<lambda>t. encode_rune ((r - 0xD800) * 0x400 + (r1 - 0xDC00) + 0x10000) @ t)
                                   (unquote (drop 12 s))
                               else map_option (\<lambda>t. rune_error @ t) (unquote (drop 6 s))
                           | None \<Rightarrow> map_option (\<lambda>t. rune_error @ t) (unquote (drop 6 s)))
                        else map_option (\<lambda>t. encode_rune r @ t) (unquote (drop 6 s)))
                 else
                   (case simple_escape d of
                      None \<Rightarrow> None
                    | Some e \<Rightarrow> map_option (\<lambda>t. e # t) (unquote ds)))
          else if c = CHR 0x22 \<or> code c < 0x20 then None
          else if code c < 0x80 then map_option (\<lambda>t. c # t) (unquote cs)
          else if rune_size s = 0 then map_option (\<lambda>t. rune_error @ t) (unquote cs)
          else map_option (\<lambda>t. take (rune_size s) s @ t) (unquote (drop (rune_size s) s)))"
  by pat_completeness auto
termination
  by (relation "measure length") auto

declare unquote.simps [simp del]

text \<open>\<open>foldName\<close>: upper-case ASCII, with the two other runes that fold into ASCII.\<close>

fun fold_name :: "string \<Rightarrow> string" where
  "fold_name [] = []"
| "fold_name (c # cs) =
     (if 97 \<le> code c \<and> code c \<le> 122 then char_of (code c - 32) # fold_name cs
      else if take 2 (c # cs) = map char_of [0xC5, 0xBF :: nat] then CHR ''S'' # fold_name (drop 1 cs)
      else if take 3 (c # cs) = map char_of [0xE2, 0x84, 0xAA :: nat] then CHR ''K'' # fold_name (drop 2 cs)
      else c # fold_name cs)"

section \<open>The scanner\<close>

datatype mode =
    MBeginValue | MBeginValueOrEmpty | MBeginString | MBeginStringOrEmpty | MEndValue | MEndTop
  | MString string | MStringEsc string | MStringU nat string
  | MNeg string | M1 string | M0 string | MDot string | MDot0 string | ME string | MESign string
  | ME0 string
  | MLit string string json

datatype frame = FKey "(string \<times> json) list" | FVal "(string \<times> json) list" string | FArr "json list"

text \<open>
  The mode, the open containers (innermost first, their contents in reverse), and the last
  value completed. The text of a string or number being read is kept in reverse.
\<close>

datatype scan = Scan (sc_mode: mode) (sc_stack: "frame list") (sc_cur: json)

definition is_space :: "char \<Rightarrow> bool" where
  "is_space c \<longleftrightarrow> c = CHR '' '' \<or> c = CHR 0x09 \<or> c = CHR 0x0D \<or> c = CHR 0x0A"

definition is_digit :: "char \<Rightarrow> bool" where
  "is_digit c \<longleftrightarrow> 48 \<le> code c \<and> code c \<le> 57"

text \<open>\<open>quoteChar\<close>: the byte as the rune of the same number, in the syntax of a Go literal.\<close>

definition quote_char :: "char \<Rightarrow> string" where
  "quote_char c =
     (let b = code c; q = [CHR 0x27] in
      if c = CHR 0x27 then q @ esc c @ q
      else if c = CHR 0x22 then q @ [c] @ q
      else if c = CHR 0x5C then q @ esc c @ q
      else if b = 7 then q @ esc (CHR ''a'') @ q
      else if b = 8 then q @ esc (CHR ''b'') @ q
      else if b = 9 then q @ esc (CHR ''t'') @ q
      else if b = 10 then q @ esc (CHR ''n'') @ q
      else if b = 11 then q @ esc (CHR ''v'') @ q
      else if b = 12 then q @ esc (CHR ''f'') @ q
      else if b = 13 then q @ esc (CHR ''r'') @ q
      else if b < 0x20 \<or> b = 0x7F then q @ esc (CHR ''x'') @ [hex_char (b div 16), hex_char (b mod 16)] @ q
      else if b < 0x80 then q @ [c] @ q
      else if b < 0xA1 \<or> b = 0xAD then q @ esc (CHR ''u'') @ ''00'' @ [hex_char (b div 16), hex_char (b mod 16)] @ q
      else q @ encode_rune b @ q)"

definition scan_error :: "char \<Rightarrow> string \<Rightarrow> string + 'a" where
  "scan_error c ctx = Inl (''invalid character '' @ quote_char c @ '' '' @ ctx)"

definition max_depth :: nat where
  "max_depth = 10000"

definition push :: "char \<Rightarrow> frame \<Rightarrow> mode \<Rightarrow> frame list \<Rightarrow> json \<Rightarrow> string + scan" where
  "push c f m st cur =
     (if length (f # st) \<le> max_depth then Inr (Scan m (f # st) cur)
      else scan_error c ''exceeded max depth'')"

definition pop :: "json \<Rightarrow> frame list \<Rightarrow> scan" where
  "pop j st = Scan (if st = [] then MEndTop else MEndValue) st j"

definition end_top :: "frame list \<Rightarrow> json \<Rightarrow> char \<Rightarrow> string + scan" where
  "end_top st cur c =
     (if is_space c then Inr (Scan MEndTop st cur) else scan_error c ''after top-level value'')"

fun raw_of :: "json \<Rightarrow> string" where
  "raw_of (JStr s) = s"
| "raw_of _ = []"

definition end_value :: "frame list \<Rightarrow> json \<Rightarrow> char \<Rightarrow> string + scan" where
  "end_value st cur c =
     (case st of
        [] \<Rightarrow> end_top st cur c
      | f # r \<Rightarrow>
          if is_space c then Inr (Scan MEndValue st cur)
          else (case f of
             FKey ps \<Rightarrow>
               if c = CHR '':'' then Inr (Scan MBeginValue (FVal ps (raw_of cur) # r) cur)
               else scan_error c ''after object key''
           | FVal ps k \<Rightarrow>
               if c = CHR '','' then Inr (Scan MBeginString (FKey ((k, cur) # ps) # r) cur)
               else if c = CHR ''}'' then Inr (pop (JObj (rev ((k, cur) # ps))) r)
               else scan_error c ''after object key:value pair''
           | FArr vs \<Rightarrow>
               if c = CHR '','' then Inr (Scan MBeginValue (FArr (cur # vs) # r) cur)
               else if c = CHR '']'' then Inr (pop (JArr (rev (cur # vs))) r)
               else scan_error c ''after array element''))"

definition begin_value :: "frame list \<Rightarrow> json \<Rightarrow> char \<Rightarrow> string + scan" where
  "begin_value st cur c =
     (if is_space c then Inr (Scan MBeginValue st cur)
      else if c = CHR ''{'' then push c (FKey []) MBeginStringOrEmpty st cur
      else if c = CHR ''['' then push c (FArr []) MBeginValueOrEmpty st cur
      else if c = CHR 0x22 then Inr (Scan (MString []) st cur)
      else if c = CHR ''-'' then Inr (Scan (MNeg [c]) st cur)
      else if c = CHR ''0'' then Inr (Scan (M0 [c]) st cur)
      else if c = CHR ''t'' then Inr (Scan (MLit ''true'' ''rue'' (JBool True)) st cur)
      else if c = CHR ''f'' then Inr (Scan (MLit ''false'' ''alse'' (JBool False)) st cur)
      else if c = CHR ''n'' then Inr (Scan (MLit ''null'' ''ull'' JNull) st cur)
      else if is_digit c then Inr (Scan (M1 [c]) st cur)
      else scan_error c ''looking for beginning of value'')"

definition begin_string :: "frame list \<Rightarrow> json \<Rightarrow> char \<Rightarrow> string + scan" where
  "begin_string st cur c =
     (if is_space c then Inr (Scan MBeginString st cur)
      else if c = CHR 0x22 then Inr (Scan (MString []) st cur)
      else scan_error c ''looking for beginning of object key string'')"

text \<open>The transitions inside numbers that several states share.\<close>

definition after_int :: "string \<Rightarrow> frame list \<Rightarrow> json \<Rightarrow> char \<Rightarrow> string + scan" where
  "after_int acc st cur c =
     (if c = CHR ''.'' then Inr (Scan (MDot (c # acc)) st cur)
      else if c = CHR ''e'' \<or> c = CHR ''E'' then Inr (Scan (ME (c # acc)) st cur)
      else end_value st (JNum (rev acc)) c)"

definition exp_digit :: "string \<Rightarrow> frame list \<Rightarrow> json \<Rightarrow> char \<Rightarrow> string + scan" where
  "exp_digit acc st cur c =
     (if is_digit c then Inr (Scan (ME0 (c # acc)) st cur)
      else scan_error c ''in exponent of numeric literal'')"

fun scan_step :: "scan \<Rightarrow> char \<Rightarrow> string + scan" where
  "scan_step (Scan MBeginValue st cur) c = begin_value st cur c"
| "scan_step (Scan MBeginValueOrEmpty st cur) c =
     (if is_space c then Inr (Scan MBeginValueOrEmpty st cur)
      else if c = CHR '']'' then Inr (pop (JArr []) (tl st))
      else begin_value st cur c)"
| "scan_step (Scan MBeginString st cur) c = begin_string st cur c"
| "scan_step (Scan MBeginStringOrEmpty st cur) c =
     (if is_space c then Inr (Scan MBeginStringOrEmpty st cur)
      else if c = CHR ''}'' then Inr (pop (JObj []) (tl st))
      else begin_string st cur c)"
| "scan_step (Scan MEndValue st cur) c = end_value st cur c"
| "scan_step (Scan MEndTop st cur) c = end_top st cur c"
| "scan_step (Scan (MString acc) st cur) c =
     (if c = CHR 0x22 then Inr (Scan MEndValue st (JStr (rev acc)))
      else if c = CHR 0x5C then Inr (Scan (MStringEsc (c # acc)) st cur)
      else if code c < 0x20 then scan_error c ''in string literal''
      else Inr (Scan (MString (c # acc)) st cur))"
| "scan_step (Scan (MStringEsc acc) st cur) c =
     (if c \<in> {CHR ''b'', CHR ''f'', CHR ''n'', CHR ''r'', CHR ''t'', CHR 0x5C, CHR ''/'', CHR 0x22}
      then Inr (Scan (MString (c # acc)) st cur)
      else if c = CHR ''u'' then Inr (Scan (MStringU 0 (c # acc)) st cur)
      else scan_error c ''in string escape code'')"
| "scan_step (Scan (MStringU n acc) st cur) c =
     (if hex_val c \<noteq> None
      then Inr (Scan (if n = 3 then MString (c # acc) else MStringU (Suc n) (c # acc)) st cur)
      else scan_error c (''in '' @ esc (CHR ''u'') @ '' hexadecimal character escape''))"
| "scan_step (Scan (MNeg acc) st cur) c =
     (if c = CHR ''0'' then Inr (Scan (M0 (c # acc)) st cur)
      else if is_digit c then Inr (Scan (M1 (c # acc)) st cur)
      else scan_error c ''in numeric literal'')"
| "scan_step (Scan (M1 acc) st cur) c =
     (if is_digit c then Inr (Scan (M1 (c # acc)) st cur) else after_int acc st cur c)"
| "scan_step (Scan (M0 acc) st cur) c = after_int acc st cur c"
| "scan_step (Scan (MDot acc) st cur) c =
     (if is_digit c then Inr (Scan (MDot0 (c # acc)) st cur)
      else scan_error c ''after decimal point in numeric literal'')"
| "scan_step (Scan (MDot0 acc) st cur) c =
     (if is_digit c then Inr (Scan (MDot0 (c # acc)) st cur)
      else if c = CHR ''e'' \<or> c = CHR ''E'' then Inr (Scan (ME (c # acc)) st cur)
      else end_value st (JNum (rev acc)) c)"
| "scan_step (Scan (ME acc) st cur) c =
     (if c = CHR ''+'' \<or> c = CHR ''-'' then Inr (Scan (MESign (c # acc)) st cur)
      else exp_digit acc st cur c)"
| "scan_step (Scan (MESign acc) st cur) c = exp_digit acc st cur c"
| "scan_step (Scan (ME0 acc) st cur) c =
     (if is_digit c then Inr (Scan (ME0 (c # acc)) st cur) else end_value st (JNum (rev acc)) c)"
| "scan_step (Scan (MLit name rest v) st cur) c =
     (case rest of
        [] \<Rightarrow> end_value st v c
      | x # xs \<Rightarrow>
          if c = x then Inr (if xs = [] then Scan MEndValue st v else Scan (MLit name xs v) st cur)
          else scan_error c (''in literal '' @ name @ '' (expecting '' @ [CHR 0x27, x, CHR 0x27] @ '')''))"

fun scan_all :: "scan \<Rightarrow> string \<Rightarrow> string + scan" where
  "scan_all sc [] = Inr sc"
| "scan_all sc (c # cs) = (case scan_step sc c of Inl e \<Rightarrow> Inl e | Inr sc' \<Rightarrow> scan_all sc' cs)"

text \<open>\<open>eof\<close>: feed a space; the document is complete if that ends the top-level value.\<close>

definition scan_eof :: "scan \<Rightarrow> string + json" where
  "scan_eof sc =
     (if sc_mode sc = MEndTop then Inr (sc_cur sc)
      else case scan_step sc (CHR '' '') of
             Inl e \<Rightarrow> Inl e
           | Inr sc' \<Rightarrow>
               if sc_mode sc' = MEndTop then Inr (sc_cur sc')
               else Inl ''unexpected end of JSON input'')"

definition parse_json :: "string \<Rightarrow> string + json" where
  "parse_json s =
     (case scan_all (Scan MBeginValue [] JNull) s of Inl e \<Rightarrow> Inl e | Inr sc \<Rightarrow> scan_eof sc)"

end
