(* ===== verification/Dex_State.thy ===== *)
theory Dex_State
  imports Types Json Sha256
begin

text \<open>
  \<^verbatim>\<open>example/dex/app.go\<close>, the state of the order-book application: oracle prices, orders, the
  state struct with its nested balance map, \<open>newState\<close>, \<open>clone\<close> and \<open>appHash\<close>, and what
  \<open>json.Marshal\<close> and \<open>json.Unmarshal\<close> do at these types. Slices and maps that are encoded
  keep nil apart from empty. The maps of a state are never shared with another state
  (\<open>newState\<close>, \<open>clone\<close> and \<open>json.Unmarshal\<close> make fresh ones), so a state is a value.

  Decoding follows the decoder of the package: fields are found by their exact name, else
  by case folding; unknown fields are skipped; a repeated field is decoded into the value
  the earlier one left; \<open>null\<close> empties a slice or map and leaves everything else; the first
  error is the one reported, with the struct and field path it occurred in.
\<close>

section \<open>Data\<close>

record OraclePrice =
  op_Pair :: string
  op_Price :: u64

record Order =
  or_Owner :: ValidatorAddress
  or_Pair :: string
  or_Amount :: u64
  or_Price :: u64

type_synonym amounts = "(string, u64) gomap"
type_synonym balances = "(string, amounts) gomap"

record state =
  st_Height :: u64
  st_Balances :: balances
  st_Orders :: "Order slice"
  st_Prices :: amounts

definition zero_OraclePrice :: OraclePrice where
  "zero_OraclePrice = \<lparr>op_Pair = [], op_Price = 0\<rparr>"

definition zero_Order :: Order where
  "zero_Order = \<lparr>or_Owner = zero_address, or_Pair = [], or_Amount = 0, or_Price = 0\<rparr>"

definition newState :: state where
  "newState = \<lparr>st_Height = 0, st_Balances = gm_make, st_Orders = None, st_Prices = gm_make\<rparr>"

text \<open>A loop that copies a map into a fresh one, visiting the keys in the order \<open>ks\<close>.\<close>

definition copy_map :: "('v \<Rightarrow> 'w) \<Rightarrow> (string, 'v) gomap \<Rightarrow> string list \<Rightarrow> (string, 'w) gomap" where
  "copy_map f m ks =
     MkMap (fold (\<lambda>k c. case gm_get m k of None \<Rightarrow> c | Some v \<Rightarrow> fmupd k (f v) c) ks fmempty)"

definition clone :: "range_order \<Rightarrow> state \<Rightarrow> state" where
  "clone ord s = \<lparr>st_Height = st_Height s,
     st_Balances = copy_map (\<lambda>denoms. copy_map (\<lambda>v. v) denoms (ord ''denoms'' (gm_keys denoms)))
       (st_Balances s) (ord ''balances'' (gm_keys (st_Balances s))),
     st_Orders = Some (elems (st_Orders s)),
     st_Prices = copy_map (\<lambda>v. v) (st_Prices s) (ord ''prices'' (gm_keys (st_Prices s)))\<rparr>"

section \<open>json.Marshal\<close>

definition json_u64 :: "u64 \<Rightarrow> json" where
  "json_u64 v = JNum (dec_nat (unat v))"

definition json_string :: "string \<Rightarrow> json" where
  "json_string s = JStr (quote s)"

definition json_slice :: "('a \<Rightarrow> json) \<Rightarrow> 'a slice \<Rightarrow> json" where
  "json_slice f s = (case s of None \<Rightarrow> JNull | Some xs \<Rightarrow> JArr (map f xs))"

definition json_map :: "('v \<Rightarrow> json) \<Rightarrow> (string, 'v) gomap \<Rightarrow> json" where
  "json_map f m =
     (case m of
        NilMap \<Rightarrow> JNull
      | MkMap fm \<Rightarrow> JObj (map (\<lambda>k. (quote k, f (the (gm_get m k)))) (gm_keys m)))"

definition json_OraclePrice :: "OraclePrice \<Rightarrow> json" where
  "json_OraclePrice p = JObj [(''pair'', json_string (op_Pair p)), (''price'', json_u64 (op_Price p))]"

definition json_Order :: "Order \<Rightarrow> json" where
  "json_Order r = JObj [(''owner'', JArr (map (\<lambda>b. JNum (dec_nat (unat b))) (or_Owner r))),
     (''pair'', json_string (or_Pair r)), (''amount'', json_u64 (or_Amount r)),
     (''price'', json_u64 (or_Price r))]"

definition json_state :: "state \<Rightarrow> json" where
  "json_state s = JObj [(''height'', json_u64 (st_Height s)),
     (''balances'', json_map (json_map json_u64) (st_Balances s)),
     (''orders'', json_slice json_Order (st_Orders s)),
     (''prices'', json_map json_u64 (st_Prices s))]"

definition Marshal :: "json \<Rightarrow> byte_slice" where
  "Marshal j = bytes (print_json j)"

definition appHash :: "state \<Rightarrow> AppHash" where
  "appHash s = Sum256 (Marshal (json_state s))"

section \<open>json.Unmarshal\<close>

text \<open>The struct an error is in, and the path of fields that leads there.\<close>

type_synonym error_context = "string \<times> string list"
type_synonym 'a decoded = "string + 'a"

fun fold_err :: "('x \<Rightarrow> 's \<Rightarrow> 's decoded) \<Rightarrow> 'x list \<Rightarrow> 's \<Rightarrow> 's decoded" where
  "fold_err f [] s = Inr s"
| "fold_err f (x # xs) s = (case f x s of Inl e \<Rightarrow> Inl e | Inr s' \<Rightarrow> fold_err f xs s')"

fun map_decoded :: "('a \<Rightarrow> 'b) \<Rightarrow> 'a decoded \<Rightarrow> 'b decoded" where
  "map_decoded f (Inl e) = Inl e"
| "map_decoded f (Inr a) = Inr (f a)"

definition type_error :: "error_context \<Rightarrow> string \<Rightarrow> string \<Rightarrow> 'a decoded" where
  "type_error ctx val ty =
     Inl (''json: cannot unmarshal '' @ val @
       (if snd ctx = [] then '' into Go value of type ''
        else '' into Go struct field '' @ fst ctx @ ''.'' @ join ''.'' (snd ctx) @ '' of type '') @ ty)"

fun json_kind :: "json \<Rightarrow> string" where
  "json_kind JNull = ''null''"
| "json_kind (JBool b) = ''bool''"
| "json_kind (JNum n) = ''number''"
| "json_kind (JStr s) = ''string''"
| "json_kind (JArr js) = ''array''"
| "json_kind (JObj ps) = ''object''"

text \<open>\<open>strconv.ParseUint(s, 10, 64)\<close>.\<close>

definition ParseUint :: "string \<Rightarrow> nat option" where
  "ParseUint s =
     (if s = [] \<or> \<not> list_all is_digit s then None
      else let n = foldl (\<lambda>n c. 10 * n + (code c - 48)) 0 s in if n < 2 ^ 64 then Some n else None)"

definition decode_uint :: "nat \<Rightarrow> string \<Rightarrow> error_context \<Rightarrow> 'w::len word \<Rightarrow> json \<Rightarrow> 'w word decoded" where
  "decode_uint width ty ctx cur j =
     (case j of
        JNull \<Rightarrow> Inr cur
      | JNum lit \<Rightarrow>
          (case ParseUint lit of
             Some n \<Rightarrow> if n < 2 ^ width then Inr (of_nat n) else type_error ctx (''number '' @ lit) ty
           | None \<Rightarrow> type_error ctx (''number '' @ lit) ty)
      | _ \<Rightarrow> type_error ctx (json_kind j) ty)"

definition decode_u64 :: "error_context \<Rightarrow> u64 \<Rightarrow> json \<Rightarrow> u64 decoded" where
  "decode_u64 = decode_uint 64 ''uint64''"

definition unquoted :: "string \<Rightarrow> string decoded" where
  "unquoted raw =
     (case unquote raw of Some s \<Rightarrow> Inr s | None \<Rightarrow> Inl ''JSON decoder out of sync - data changing underfoot?'')"

definition decode_string :: "error_context \<Rightarrow> string \<Rightarrow> json \<Rightarrow> string decoded" where
  "decode_string ctx cur j =
     (case j of
        JNull \<Rightarrow> Inr cur
      | JStr raw \<Rightarrow> unquoted raw
      | _ \<Rightarrow> type_error ctx (json_kind j) ''string'')"

text \<open>The field a key selects: the one of that name, else the first that folds to the same.\<close>

definition lookup_field :: "string list \<Rightarrow> string \<Rightarrow> string option" where
  "lookup_field names key =
     (if key \<in> set names then Some key else find (\<lambda>n. fold_name n = fold_name key) names)"

text \<open>An object into a struct: \<open>dec f v s\<close> decodes the field \<open>f\<close> of \<open>s\<close>.\<close>

definition decode_struct ::
  "string \<Rightarrow> string list \<Rightarrow> (string \<Rightarrow> error_context \<Rightarrow> json \<Rightarrow> 's \<Rightarrow> 's decoded) \<Rightarrow> error_context \<Rightarrow> 's \<Rightarrow> json \<Rightarrow> 's decoded" where
  "decode_struct name names dec ctx cur j =
     (case j of
        JNull \<Rightarrow> Inr cur
      | JObj ps \<Rightarrow>
          fold_err (\<lambda>(raw, v) s.
            case unquoted raw of
              Inl e \<Rightarrow> Inl e
            | Inr key \<Rightarrow>
                (case lookup_field names key of
                   None \<Rightarrow> Inr s
                 | Some f \<Rightarrow> dec f (name, snd ctx @ [f]) v s)) ps cur
      | _ \<Rightarrow> type_error ctx (json_kind j) (''dex.'' @ name))"

definition decode_OraclePrice :: "error_context \<Rightarrow> OraclePrice \<Rightarrow> json \<Rightarrow> OraclePrice decoded" where
  "decode_OraclePrice =
     decode_struct ''OraclePrice'' [''pair'', ''price''] (\<lambda>f ctx v p.
       if f = ''pair'' then map_decoded (\<lambda>x. p\<lparr>op_Pair := x\<rparr>) (decode_string ctx (op_Pair p) v)
       else map_decoded (\<lambda>x. p\<lparr>op_Price := x\<rparr>) (decode_u64 ctx (op_Price p) v))"

text \<open>
  An array into the elements of a backing array: element \<open>i\<close> of the document is decoded
  into element \<open>i\<close> of the backing array while there is one, then into zero values.
\<close>

fun decode_elems :: "('a \<Rightarrow> json \<Rightarrow> 'a decoded) \<Rightarrow> 'a \<Rightarrow> 'a list \<Rightarrow> json list \<Rightarrow> 'a list decoded" where
  "decode_elems dec zero back [] = Inr []"
| "decode_elems dec zero back (j # js) =
     (case dec (case back of [] \<Rightarrow> zero | b # _ \<Rightarrow> b) j of
        Inl e \<Rightarrow> Inl e
      | Inr x \<Rightarrow> map_decoded (\<lambda>xs. x # xs) (decode_elems dec zero (tl back) js))"

text \<open>A slice during decoding: its backing array and its length.\<close>

type_synonym 'a backed = "('a list \<times> nat) option"

definition slice_of :: "'a backed \<Rightarrow> 'a slice" where
  "slice_of b = map_option (\<lambda>(xs, n). take n xs) b"

definition decode_slice ::
  "string \<Rightarrow> (error_context \<Rightarrow> 'a \<Rightarrow> json \<Rightarrow> 'a decoded) \<Rightarrow> 'a \<Rightarrow> error_context \<Rightarrow> 'a backed \<Rightarrow> json \<Rightarrow> 'a backed decoded" where
  "decode_slice ty dec zero ctx cur j =
     (case j of
        JNull \<Rightarrow> Inr None
      | JArr js \<Rightarrow>
          if js = [] then Inr (Some ([], 0))
          else let back = (case cur of None \<Rightarrow> [] | Some (b, _) \<Rightarrow> b) in
               map_decoded (\<lambda>xs. Some (xs @ drop (length js) back, length js))
                 (decode_elems (dec ctx) zero back js)
      | _ \<Rightarrow> type_error ctx (json_kind j) ty)"

definition decode_address :: "error_context \<Rightarrow> ValidatorAddress \<Rightarrow> json \<Rightarrow> ValidatorAddress decoded" where
  "decode_address ctx cur j =
     (case j of
        JNull \<Rightarrow> Inr cur
      | JArr js \<Rightarrow>
          map_decoded (\<lambda>xs. xs @ replicate (length cur - length xs) 0)
            (decode_elems (decode_uint 8 ''uint8'' ctx) 0 cur (take (length cur) js))
      | _ \<Rightarrow> type_error ctx (json_kind j) ''types.ValidatorAddress'')"

definition decode_Order :: "error_context \<Rightarrow> Order \<Rightarrow> json \<Rightarrow> Order decoded" where
  "decode_Order =
     decode_struct ''Order'' [''owner'', ''pair'', ''amount'', ''price''] (\<lambda>f ctx v r.
       if f = ''owner'' then map_decoded (\<lambda>x. r\<lparr>or_Owner := x\<rparr>) (decode_address ctx (or_Owner r) v)
       else if f = ''pair'' then map_decoded (\<lambda>x. r\<lparr>or_Pair := x\<rparr>) (decode_string ctx (or_Pair r) v)
       else if f = ''amount'' then map_decoded (\<lambda>x. r\<lparr>or_Amount := x\<rparr>) (decode_u64 ctx (or_Amount r) v)
       else map_decoded (\<lambda>x. r\<lparr>or_Price := x\<rparr>) (decode_u64 ctx (or_Price r) v))"

text \<open>An object into a map: merged into the map there is, each element decoded from zero.\<close>

definition decode_map ::
  "string \<Rightarrow> (error_context \<Rightarrow> 'v \<Rightarrow> json \<Rightarrow> 'v decoded) \<Rightarrow> 'v \<Rightarrow> error_context \<Rightarrow>
    (string, 'v) gomap \<Rightarrow> json \<Rightarrow> (string, 'v) gomap decoded" where
  "decode_map ty dec zero ctx cur j =
     (case j of
        JNull \<Rightarrow> Inr NilMap
      | JObj ps \<Rightarrow>
          map_decoded MkMap
            (fold_err (\<lambda>(raw, v) fm.
               case unquoted raw of
                 Inl e \<Rightarrow> Inl e
               | Inr key \<Rightarrow> map_decoded (\<lambda>x. fmupd key x fm) (dec ctx zero v)) ps (gm_fmap cur))
      | _ \<Rightarrow> type_error ctx (json_kind j) ty)"

definition decode_amounts :: "error_context \<Rightarrow> amounts \<Rightarrow> json \<Rightarrow> amounts decoded" where
  "decode_amounts = decode_map ''map[string]uint64'' decode_u64 0"

definition decode_balances :: "error_context \<Rightarrow> balances \<Rightarrow> json \<Rightarrow> balances decoded" where
  "decode_balances = decode_map ''map[string]map[string]uint64'' decode_amounts NilMap"

text \<open>The state struct, with the backing array of its order slice beside it.\<close>

definition decode_state :: "state \<times> Order backed \<Rightarrow> json \<Rightarrow> (state \<times> Order backed) decoded" where
  "decode_state =
     decode_struct ''state'' [''height'', ''balances'', ''orders'', ''prices''] (\<lambda>f ctx v (s, b).
       if f = ''height'' then map_decoded (\<lambda>x. (s\<lparr>st_Height := x\<rparr>, b)) (decode_u64 ctx (st_Height s) v)
       else if f = ''balances'' then
         map_decoded (\<lambda>x. (s\<lparr>st_Balances := x\<rparr>, b)) (decode_balances ctx (st_Balances s) v)
       else if f = ''orders'' then
         map_decoded (\<lambda>x. (s\<lparr>st_Orders := slice_of x\<rparr>, x))
           (decode_slice ''[]dex.Order'' decode_Order zero_Order ctx b v)
       else map_decoded (\<lambda>x. (s\<lparr>st_Prices := x\<rparr>, b)) (decode_amounts ctx (st_Prices s) v))
     ('''', [])"

definition Unmarshal_prices :: "byte_slice \<Rightarrow> OraclePrice slice decoded" where
  "Unmarshal_prices data =
     (case parse_json (str data) of
        Inl e \<Rightarrow> Inl e
      | Inr j \<Rightarrow>
          map_decoded slice_of
            (decode_slice ''[]dex.OraclePrice'' decode_OraclePrice zero_OraclePrice ('''', []) None j))"

definition Unmarshal_state :: "byte_slice \<Rightarrow> state \<Rightarrow> state decoded" where
  "Unmarshal_state data s =
     (case parse_json (str data) of
        Inl e \<Rightarrow> Inl e
      | Inr j \<Rightarrow> map_decoded fst (decode_state (s, map_option (\<lambda>xs. (xs, length xs)) (st_Orders s)) j))"

section \<open>Cloning\<close>

text \<open>What a clone is: the same entries, with every map present.\<close>

definition present :: "('k, 'v) gomap \<Rightarrow> ('k, 'v) gomap" where
  "present m = MkMap (gm_fmap m)"

definition cloned :: "state \<Rightarrow> state" where
  "cloned s = \<lparr>st_Height = st_Height s, st_Balances = MkMap (fmmap present (gm_fmap (st_Balances s))),
     st_Orders = Some (elems (st_Orders s)), st_Prices = present (st_Prices s)\<rparr>"

lemma fmlookup_copy:
  "fmlookup (fold (\<lambda>k c. case gm_get m k of None \<Rightarrow> c | Some v \<Rightarrow> fmupd k (f v) c) ks c0) x =
     (if x \<in> set ks \<and> gm_get m x \<noteq> None then map_option f (gm_get m x) else fmlookup c0 x)"
  by (induction ks arbitrary: c0) (auto split: option.splits)

lemma copy_map_eq:
  assumes "set ks = set (gm_keys m)"
  shows "copy_map f m ks = MkMap (fmmap f (gm_fmap m))"
proof -
  have "fold (\<lambda>k c. case gm_get m k of None \<Rightarrow> c | Some v \<Rightarrow> fmupd k (f v) c) ks fmempty = fmmap f (gm_fmap m)"
    by (rule fmap_ext, subst fmlookup_copy)
      (auto simp: assms gm_get_def fmlookup_dom_iff simp del: set_gm_keys simp: in_gm_keys)
  then show ?thesis by (simp add: copy_map_def)
qed

lemma clone_eq:
  assumes "valid_order ord"
  shows "clone ord s = cloned s"
proof -
  have "copy_map (\<lambda>v. v) d (ord l (gm_keys d)) = present d" for l and d :: amounts
    using copy_map_eq [of "ord l (gm_keys d)" d "\<lambda>v. v"] assms by (simp add: present_def fmap.map_ident)
  then show ?thesis
    using copy_map_eq [of "ord ''balances'' (gm_keys (st_Balances s))" "st_Balances s" present] assms
    by (simp add: clone_def cloned_def)
qed

end
