(* ===== verification/Dex_Exec.thy ===== *)
theory Dex_Exec
  imports Dex_State Errors
begin

text \<open>
  \<^verbatim>\<open>example/dex/app.go\<close>, transaction execution: the helpers, the four transaction kinds and the
  dispatcher, as functions from a state to an outcome, the events of the block and the new
  state. Every slice expression, big-endian read and map assignment can panic here as it
  can in Go; that none does on a cloned state is a theorem.
\<close>

section \<open>Definitions\<close>

definition TxDeposit :: u8 where "TxDeposit = 0x01"
definition TxWithdraw :: u8 where "TxWithdraw = 0x02"
definition TxLimitOrder :: u8 where "TxLimitOrder = 0x03"
definition TxOracleUpdate :: u8 where "TxOracleUpdate = 0x04"

definition addrHex :: "byte_slice \<Rightarrow> string" where
  "addrHex b = hex_bytes b"

definition encodeUint64 :: "u64 \<Rightarrow> byte_slice" where
  "encodeUint64 v = PutUint64 v"

fun pairBase :: "string \<Rightarrow> string" where
  "pairBase [] = []"
| "pairBase (c # cs) = (if c = CHR ''/'' then [] else c # pairBase cs)"

text \<open>\<open>s.Balances[addr]\<close> and \<open>s.Balances[addr][denom]\<close>, read and assigned.\<close>

definition inner :: "balances \<Rightarrow> string \<Rightarrow> amounts" where
  "inner b addr = (case gm_get b addr of Some m \<Rightarrow> m | None \<Rightarrow> NilMap)"

definition amount_of :: "amounts \<Rightarrow> string \<Rightarrow> u64" where
  "amount_of m denom = (case gm_get m denom of Some v \<Rightarrow> v | None \<Rightarrow> 0)"

definition balance :: "balances \<Rightarrow> string \<Rightarrow> string \<Rightarrow> u64" where
  "balance b addr denom = amount_of (inner b addr) denom"

definition set_balance :: "balances \<Rightarrow> string \<Rightarrow> string \<Rightarrow> u64 \<Rightarrow> balances go" where
  "set_balance b addr denom v = go_bind (gm_set (inner b addr) denom v) (gm_set b addr)"

definition failed :: "u32 \<Rightarrow> u32 \<Rightarrow> string \<Rightarrow> TxOutcome" where
  "failed index cd info = zero_TxOutcome\<lparr>txo_Index := index, txo_Code := cd, txo_Info := info\<rparr>"

definition attr :: "string \<Rightarrow> string \<Rightarrow> bool \<Rightarrow> EventAttribute" where
  "attr k v i = \<lparr>ea_Key = k, ea_Value = v, ea_Index = i\<rparr>"

type_synonym executed = "(TxOutcome \<times> Event list \<times> state) go"

definition executeDeposit :: "state \<Rightarrow> u32 \<Rightarrow> Tx \<Rightarrow> executed" where
  "executeDeposit s index tx =
     (if length tx < 30 then Ret (failed index 1 ''deposit tx too short'', [], s)
      else
        go_bind (go_slice 1 21 tx) (\<lambda>a.
        go_bind (go_slice 21 29 tx) (\<lambda>n.
        go_bind (Uint64 n) (\<lambda>amount.
        go_bind (go_slice 29 (length tx) tx) (\<lambda>d.
        let addr = addrHex a; denom = str d in
        if amount = 0 then Ret (failed index 1 ''zero deposit'', [], s)
        else
          go_bind (if inner (st_Balances s) addr = NilMap then gm_set (st_Balances s) addr gm_make
                   else Ret (st_Balances s)) (\<lambda>b.
          go_bind (set_balance b addr denom (balance b addr denom + amount)) (\<lambda>b.
          Ret (zero_TxOutcome\<lparr>txo_Index := index, txo_Code := 0,
                 txo_Data := encodeUint64 (balance b addr denom),
                 txo_Events := [\<lparr>ev_Kind = ''deposit'', ev_Attributes =
                   [attr ''address'' addr True, attr ''denom'' denom True,
                    attr ''amount'' (dec_nat (unat amount)) True]\<rparr>]\<rparr>,
               [], s\<lparr>st_Balances := b\<rparr>))))))))"

definition executeWithdraw :: "state \<Rightarrow> u32 \<Rightarrow> Tx \<Rightarrow> executed" where
  "executeWithdraw s index tx =
     (if length tx < 30 then Ret (failed index 1 ''withdraw tx too short'', [], s)
      else
        go_bind (go_slice 1 21 tx) (\<lambda>a.
        go_bind (go_slice 21 29 tx) (\<lambda>n.
        go_bind (Uint64 n) (\<lambda>amount.
        go_bind (go_slice 29 (length tx) tx) (\<lambda>d.
        let addr = addrHex a; denom = str d in
        if amount = 0 then Ret (failed index 1 ''zero withdrawal'', [], s)
        else
          let bal = balance (st_Balances s) addr denom in
          if bal < amount then
            Ret (failed index 2 (''insufficient balance: have '' @ dec_nat (unat bal) @
                   '', need '' @ dec_nat (unat amount)), [], s)
          else
            go_bind (set_balance (st_Balances s) addr denom (bal - amount)) (\<lambda>b.
            go_bind (if balance b addr denom = 0 then
                       go_bind (gm_set b addr (gm_delete (inner b addr) denom)) (\<lambda>b.
                       Ret (if gm_len (inner b addr) = 0 then gm_delete b addr else b))
                     else Ret b) (\<lambda>b.
            Ret (zero_TxOutcome\<lparr>txo_Index := index, txo_Code := 0,
                   txo_Data := encodeUint64 (balance b addr denom),
                   txo_Events := [\<lparr>ev_Kind = ''withdraw'', ev_Attributes =
                     [attr ''address'' addr True, attr ''denom'' denom True,
                      attr ''amount'' (dec_nat (unat amount)) True]\<rparr>]\<rparr>,
                 [], s\<lparr>st_Balances := b\<rparr>))))))))"

definition executeLimitOrder :: "state \<Rightarrow> u32 \<Rightarrow> Tx \<Rightarrow> executed" where
  "executeLimitOrder s index tx =
     (if length tx < 38 then Ret (failed index 1 ''limit_order tx too short'', [], s)
      else
        go_bind (go_slice 1 21 tx) (\<lambda>owner.
        go_bind (go_slice 21 29 tx) (\<lambda>n.
        go_bind (Uint64 n) (\<lambda>amount.
        go_bind (go_slice 29 37 tx) (\<lambda>p.
        go_bind (Uint64 p) (\<lambda>price.
        go_bind (go_slice 37 (length tx) tx) (\<lambda>q.
        let addr = addrHex owner; pair = str q in
        if amount = 0 \<or> price = 0 then Ret (failed index 1 ''zero amount or price'', [], s)
        else
          let baseDenom = pairBase pair; bal = balance (st_Balances s) addr baseDenom in
          if bal < amount then
            Ret (failed index 2 (''insufficient '' @ baseDenom @ '' balance: have '' @
                   dec_nat (unat bal) @ '', need '' @ dec_nat (unat amount)), [], s)
          else
            go_bind (set_balance (st_Balances s) addr baseDenom (bal - amount)) (\<lambda>b.
            let order = \<lparr>or_Owner = owner, or_Pair = pair, or_Amount = amount, or_Price = price\<rparr>;
                orders = append_slice (st_Orders s) [order] in
            Ret (zero_TxOutcome\<lparr>txo_Index := index, txo_Code := 0,
                   txo_Data := encodeUint64 (of_nat (length (elems orders) - 1)),
                   txo_Events := [\<lparr>ev_Kind = ''limit_order'', ev_Attributes =
                     [attr ''address'' addr True, attr ''pair'' pair True,
                      attr ''amount'' (dec_nat (unat amount)) False,
                      attr ''price'' (dec_nat (unat price)) False]\<rparr>]\<rparr>,
                 [], s\<lparr>st_Balances := b, st_Orders := orders\<rparr>)))))))))"

definition oracle_event :: "OraclePrice \<Rightarrow> Event" where
  "oracle_event p = \<lparr>ev_Kind = ''oracle_update'', ev_Attributes =
     [attr ''pair'' (op_Pair p) True, attr ''price'' (dec_nat (unat (op_Price p))) True]\<rparr>"

text \<open>The loop over the prices of an oracle update.\<close>

fun apply_prices :: "amounts \<Rightarrow> OraclePrice list \<Rightarrow> (Event list \<times> amounts) go" where
  "apply_prices m [] = Ret ([], m)"
| "apply_prices m (p # ps) =
     (if op_Pair p = [] \<or> op_Price p = 0 then apply_prices m ps
      else
        go_bind (gm_set m (op_Pair p) (op_Price p)) (\<lambda>m.
        go_bind (apply_prices m ps) (\<lambda>(events, m). Ret (oracle_event p # events, m))))"

definition executeOracleUpdate :: "state \<Rightarrow> u32 \<Rightarrow> Tx \<Rightarrow> executed" where
  "executeOracleUpdate s index tx =
     (if length tx < 2 then Ret (failed index 1 ''oracle_update tx too short'', [], s)
      else
        go_bind (go_slice 1 (length tx) tx) (\<lambda>payload.
        case Unmarshal_prices payload of
          Inl err \<Rightarrow> Ret (failed index 1 (''invalid oracle JSON: '' @ err), [], s)
        | Inr prices \<Rightarrow>
            go_bind (apply_prices (st_Prices s) (elems prices)) (\<lambda>(events, m).
            Ret (zero_TxOutcome\<lparr>txo_Index := index, txo_Code := 0, txo_Events := events\<rparr>,
                 events, s\<lparr>st_Prices := m\<rparr>))))"

definition executeTx :: "state \<Rightarrow> u32 \<Rightarrow> Tx \<Rightarrow> executed" where
  "executeTx s index tx =
     (if length tx = 0 then Ret (failed index 1 ''empty tx'', [], s)
      else
        go_bind (go_index tx 0) (\<lambda>kind.
        if kind = TxDeposit then executeDeposit s index tx
        else if kind = TxWithdraw then executeWithdraw s index tx
        else if kind = TxLimitOrder then executeLimitOrder s index tx
        else if kind = TxOracleUpdate then executeOracleUpdate s index tx
        else Ret (failed index 1 (''unknown tx type 0x'' @ hex_byte kind), [], s)))"

text \<open>The loop of \<open>ExecuteBlock\<close>, from position \<open>i\<close> of the block on.\<close>

fun execute_txs :: "state \<Rightarrow> nat \<Rightarrow> Tx list \<Rightarrow> (TxOutcome list \<times> Event list \<times> state) go" where
  "execute_txs s i [] = Ret ([], [], s)"
| "execute_txs s i (tx # txs) =
     go_bind (executeTx s (of_nat i) tx) (\<lambda>(outcome, events, s).
     go_bind (execute_txs s (Suc i) txs) (\<lambda>(outcomes, blockEvents, s).
       Ret (outcome # outcomes, events @ blockEvents, s)))"

subsection \<open>Transaction builders\<close>

text \<open>
  A builder fills a zeroed buffer piece by piece: \<open>copy_into lo hi src buf\<close> is
  \<open>copy(buf[lo:hi], src)\<close>, which copies as much as fits.
\<close>

definition copy_into :: "nat \<Rightarrow> nat \<Rightarrow> byte_slice \<Rightarrow> byte_slice \<Rightarrow> byte_slice" where
  "copy_into lo hi src buf =
     (let k = min (hi - lo) (length src) in take lo buf @ take k src @ drop (lo + k) buf)"

definition DepositTx :: "ValidatorAddress \<Rightarrow> u64 \<Rightarrow> string \<Rightarrow> Tx" where
  "DepositTx addr amount denom =
     (let tx = replicate (1 + 20 + 8 + length denom) 0;
          tx = tx[0 := TxDeposit];
          tx = copy_into 1 21 addr tx;
          tx = copy_into 21 29 (PutUint64 amount) tx
      in copy_into 29 (length tx) (bytes denom) tx)"

definition WithdrawTx :: "ValidatorAddress \<Rightarrow> u64 \<Rightarrow> string \<Rightarrow> Tx" where
  "WithdrawTx addr amount denom =
     (let tx = replicate (1 + 20 + 8 + length denom) 0;
          tx = tx[0 := TxWithdraw];
          tx = copy_into 1 21 addr tx;
          tx = copy_into 21 29 (PutUint64 amount) tx
      in copy_into 29 (length tx) (bytes denom) tx)"

definition LimitOrderTx :: "ValidatorAddress \<Rightarrow> u64 \<Rightarrow> u64 \<Rightarrow> string \<Rightarrow> Tx" where
  "LimitOrderTx addr amount price pair =
     (let tx = replicate (1 + 20 + 8 + 8 + length pair) 0;
          tx = tx[0 := TxLimitOrder];
          tx = copy_into 1 21 addr tx;
          tx = copy_into 21 29 (PutUint64 amount) tx;
          tx = copy_into 29 37 (PutUint64 price) tx
      in copy_into 37 (length tx) (bytes pair) tx)"

definition OracleUpdateTx :: "OraclePrice slice \<Rightarrow> Tx" where
  "OracleUpdateTx prices =
     (let payload = Marshal (json_slice json_OraclePrice prices);
          tx = replicate (1 + length payload) 0;
          tx = tx[0 := TxOracleUpdate]
      in copy_into 1 (length tx) payload tx)"

definition TestAddress :: "u8 \<Rightarrow> ValidatorAddress" where
  "TestAddress n = zero_address[0 := n, 19 := n]"

section \<open>Balances\<close>

text \<open>Every map of the state is present, as after \<open>clone\<close>.\<close>

definition maps_ok :: "balances \<Rightarrow> bool" where
  "maps_ok b \<longleftrightarrow> b \<noteq> NilMap \<and> (\<forall>a m. gm_get b a = Some m \<longrightarrow> m \<noteq> NilMap)"

definition state_ok :: "state \<Rightarrow> bool" where
  "state_ok s \<longleftrightarrow> maps_ok (st_Balances s) \<and> st_Prices s \<noteq> NilMap"

lemma state_ok_cloned: "state_ok (cloned s)"
  by (auto simp: state_ok_def maps_ok_def cloned_def present_def)

lemma balance_cloned [simp]: "balance (st_Balances (cloned s)) a d = balance (st_Balances s) a d"
  by (simp add: balance_def inner_def amount_of_def cloned_def present_def gm_get_def split: option.splits)

lemma set_balance_ok:
  assumes "b \<noteq> NilMap" and "inner b a \<noteq> NilMap"
  shows "set_balance b a d v = Ret (MkMap (fmupd a (MkMap (fmupd d v (gm_fmap (inner b a)))) (gm_fmap b)))"
  using assms by (cases b; cases "inner b a") (auto simp: set_balance_def)

lemma balance_upd:
  "balance (MkMap (fmupd a (MkMap (fmupd d v (gm_fmap (inner b a)))) (gm_fmap b))) a' d' =
     (if a' = a \<and> d' = d then v else balance b a' d')"
  by (simp add: balance_def inner_def amount_of_def gm_get_def)

lemma maps_ok_upd:
  "maps_ok b \<Longrightarrow> maps_ok (MkMap (fmupd a (MkMap m) (gm_fmap b)))"
  by (auto simp: maps_ok_def gm_get_def split: if_splits)

text \<open>
  Assigning a balance: it succeeds whenever the inner map is there, and changes that one
  balance only.
\<close>

lemma set_balance_spec:
  assumes ok: "maps_ok b" and "inner b a \<noteq> NilMap"
  obtains b' where "set_balance b a d v = Ret b'" and "maps_ok b'" and "inner b' a \<noteq> NilMap"
    and "\<And>a' d'. balance b' a' d' = (if a' = a \<and> d' = d then v else balance b a' d')"
proof (rule that)
  show "set_balance b a d v = Ret (MkMap (fmupd a (MkMap (fmupd d v (gm_fmap (inner b a)))) (gm_fmap b)))"
    using assms set_balance_ok by (simp add: maps_ok_def)
qed (use maps_ok_upd [OF ok] balance_upd in \<open>auto simp: inner_def\<close>)

lemma inner_present_of_balance: "balance b a d \<noteq> 0 \<Longrightarrow> inner b a \<noteq> NilMap"
  by (auto simp: balance_def amount_of_def)

lemma drop_empty_spec:
  assumes "maps_ok b" and "inner b a \<noteq> NilMap" and "balance b a d = 0"
  obtains b' where "go_bind (gm_set b a (gm_delete (inner b a) d)) (\<lambda>b.
      Ret (if gm_len (inner b a) = 0 then gm_delete b a else b)) = Ret b'"
    and "maps_ok b'" and "\<And>a' d'. balance b' a' d' = balance b a' d'"
proof -
  obtain fb where fb: "b = MkMap fb" using assms(1) by (cases b) (auto simp: maps_ok_def)
  obtain fi where fi: "inner b a = MkMap fi" using assms(2) by (cases "inner b a") auto
  let ?b = "MkMap (fmupd a (MkMap (fmdrop d fi)) fb)"
  have get: "gm_get b a = Some (MkMap fi)" using fi by (auto simp: inner_def split: option.splits)
  have bal: "balance ?b a' d' = balance b a' d'" for a' d'
    using assms(3) get fb by (auto simp: balance_def inner_def amount_of_def gm_get_def)
  have ok: "maps_ok ?b" using assms(1) fb by (auto simp: maps_ok_def split: if_splits)
  show ?thesis
  proof (cases "gm_len (MkMap (fmdrop d fi)) = 0")
    case True
    have "balance (gm_delete ?b a) a' d' = balance ?b a' d'" for a' d'
      using True by (auto simp: balance_def inner_def amount_of_def gm_len_0 gm_get_def split: option.splits)
    moreover have "maps_ok (gm_delete ?b a)" using ok by (auto simp: maps_ok_def split: if_splits)
    ultimately show ?thesis using True fb fi get bal by (intro that [of "gm_delete ?b a"]) (simp_all add: inner_def)
  next
    case False
    then show ?thesis using fb fi get bal ok by (intro that [of ?b]) (simp_all add: inner_def)
  qed
qed

section \<open>What each transaction does\<close>

text \<open>The fields of a transaction.\<close>

definition u64_at :: "nat \<Rightarrow> Tx \<Rightarrow> u64" where
  "u64_at i tx = (case Uint64 (take 8 (drop i tx)) of Ret v \<Rightarrow> v | _ \<Rightarrow> 0)"

definition tx_addr :: "Tx \<Rightarrow> string" where "tx_addr tx = addrHex (take 20 (drop 1 tx))"
definition tx_amount :: "Tx \<Rightarrow> u64" where "tx_amount tx = u64_at 21 tx"
definition tx_denom :: "Tx \<Rightarrow> string" where "tx_denom tx = str (drop 29 tx)"
definition tx_price :: "Tx \<Rightarrow> u64" where "tx_price tx = u64_at 29 tx"
definition tx_pair :: "Tx \<Rightarrow> string" where "tx_pair tx = str (drop 37 tx)"

lemma Uint64_of_8: "length b = 8 \<Longrightarrow> \<exists>v. Uint64 b = Ret v"
  by (cases b rule: Uint64.cases) auto

lemma Uint64_at: "i + 8 \<le> length tx \<Longrightarrow> Uint64 (take 8 (drop i tx)) = Ret (u64_at i tx)"
  using Uint64_of_8 [of "take 8 (drop i tx)"] by (auto simp: u64_at_def)

lemmas tx_fields = tx_addr_def tx_amount_def tx_denom_def tx_price_def tx_pair_def

lemmas to_fields = tx_addr_def [unfolded One_nat_def, symmetric] tx_amount_def [symmetric]
  tx_denom_def [symmetric] tx_price_def [symmetric] tx_pair_def [symmetric]

lemma executeDeposit_fields:
  assumes "30 \<le> length tx"
  shows "executeDeposit s i tx =
    (if tx_amount tx = 0 then Ret (failed i 1 ''zero deposit'', [], s)
     else
       go_bind (if inner (st_Balances s) (tx_addr tx) = NilMap then gm_set (st_Balances s) (tx_addr tx) gm_make
                else Ret (st_Balances s)) (\<lambda>b.
       go_bind (set_balance b (tx_addr tx) (tx_denom tx) (balance b (tx_addr tx) (tx_denom tx) + tx_amount tx)) (\<lambda>b.
       Ret (zero_TxOutcome\<lparr>txo_Index := i, txo_Code := 0,
              txo_Data := encodeUint64 (balance b (tx_addr tx) (tx_denom tx)),
              txo_Events := [\<lparr>ev_Kind = ''deposit'', ev_Attributes =
                [attr ''address'' (tx_addr tx) True, attr ''denom'' (tx_denom tx) True,
                 attr ''amount'' (dec_nat (unat (tx_amount tx))) True]\<rparr>]\<rparr>,
            [], s\<lparr>st_Balances := b\<rparr>))))"
  using assms Uint64_at [of 21 tx] by (simp add: executeDeposit_def Let_def to_fields split del: if_split cong: if_cong)

lemma executeWithdraw_fields:
  assumes "30 \<le> length tx"
  shows "executeWithdraw s i tx =
    (if tx_amount tx = 0 then Ret (failed i 1 ''zero withdrawal'', [], s)
     else if balance (st_Balances s) (tx_addr tx) (tx_denom tx) < tx_amount tx then
       Ret (failed i 2 (''insufficient balance: have '' @ dec_nat (unat (balance (st_Balances s) (tx_addr tx) (tx_denom tx))) @
          '', need '' @ dec_nat (unat (tx_amount tx))), [], s)
     else
       go_bind (set_balance (st_Balances s) (tx_addr tx) (tx_denom tx)
          (balance (st_Balances s) (tx_addr tx) (tx_denom tx) - tx_amount tx)) (\<lambda>b.
       go_bind (if balance b (tx_addr tx) (tx_denom tx) = 0 then
                  go_bind (gm_set b (tx_addr tx) (gm_delete (inner b (tx_addr tx)) (tx_denom tx))) (\<lambda>b.
                  Ret (if gm_len (inner b (tx_addr tx)) = 0 then gm_delete b (tx_addr tx) else b))
                else Ret b) (\<lambda>b.
       Ret (zero_TxOutcome\<lparr>txo_Index := i, txo_Code := 0,
              txo_Data := encodeUint64 (balance b (tx_addr tx) (tx_denom tx)),
              txo_Events := [\<lparr>ev_Kind = ''withdraw'', ev_Attributes =
                [attr ''address'' (tx_addr tx) True, attr ''denom'' (tx_denom tx) True,
                 attr ''amount'' (dec_nat (unat (tx_amount tx))) True]\<rparr>]\<rparr>,
            [], s\<lparr>st_Balances := b\<rparr>))))"
  using assms Uint64_at [of 21 tx] by (simp add: executeWithdraw_def Let_def to_fields split del: if_split cong: if_cong)

lemma executeLimitOrder_fields:
  assumes "38 \<le> length tx"
  shows "executeLimitOrder s i tx =
    (if tx_amount tx = 0 \<or> tx_price tx = 0 then Ret (failed i 1 ''zero amount or price'', [], s)
     else if balance (st_Balances s) (tx_addr tx) (pairBase (tx_pair tx)) < tx_amount tx then
       Ret (failed i 2 (''insufficient '' @ pairBase (tx_pair tx) @ '' balance: have '' @
          dec_nat (unat (balance (st_Balances s) (tx_addr tx) (pairBase (tx_pair tx)))) @
          '', need '' @ dec_nat (unat (tx_amount tx))), [], s)
     else
       go_bind (set_balance (st_Balances s) (tx_addr tx) (pairBase (tx_pair tx))
          (balance (st_Balances s) (tx_addr tx) (pairBase (tx_pair tx)) - tx_amount tx)) (\<lambda>b.
       Ret (zero_TxOutcome\<lparr>txo_Index := i, txo_Code := 0,
              txo_Data := encodeUint64 (of_nat (length (elems (st_Orders s)))),
              txo_Events := [\<lparr>ev_Kind = ''limit_order'', ev_Attributes =
                [attr ''address'' (tx_addr tx) True, attr ''pair'' (tx_pair tx) True,
                 attr ''amount'' (dec_nat (unat (tx_amount tx))) False,
                 attr ''price'' (dec_nat (unat (tx_price tx))) False]\<rparr>]\<rparr>,
            [], s\<lparr>st_Balances := b, st_Orders := Some (elems (st_Orders s) @
               [\<lparr>or_Owner = take 20 (drop 1 tx), or_Pair = tx_pair tx, or_Amount = tx_amount tx,
                 or_Price = tx_price tx\<rparr>])\<rparr>)))"
proof -
  have "elems (append_slice q [x]) = elems q @ [x]" "append_slice q [x] = Some (elems q @ [x])" for q and x :: Order
    by (simp_all add: append_slice_def elems_def)
  then show ?thesis using assms Uint64_at [of 21 tx] Uint64_at [of 29 tx]
    by (simp add: executeLimitOrder_def Let_def to_fields split del: if_split cong: if_cong)
qed

lemma failed_simps [simp]:
  "txo_Index (failed i c m) = i" "txo_Code (failed i c m) = c" "txo_Info (failed i c m) = m"
  "txo_Data (failed i c m) = []" "txo_Events (failed i c m) = []"
  by (simp_all add: failed_def zero_TxOutcome_def)

lemma deposit_run:
  assumes ok: "state_ok s" and len: "30 \<le> length tx" and amt: "tx_amount tx \<noteq> 0"
  obtains out b where "executeDeposit s i tx = Ret (out, [], s\<lparr>st_Balances := b\<rparr>)"
    and "maps_ok b" and "txo_Index out = i" and "txo_Code out = 0"
    and "txo_Data out = PutUint64 (balance b (tx_addr tx) (tx_denom tx))"
    and "\<And>a d. balance b a d = (if a = tx_addr tx \<and> d = tx_denom tx
           then balance (st_Balances s) a d + tx_amount tx else balance (st_Balances s) a d)"
proof -
  let ?B = "st_Balances s" and ?a = "tx_addr tx" and ?d = "tx_denom tx"
  have B: "maps_ok ?B" "?B \<noteq> NilMap" using ok by (auto simp: state_ok_def maps_ok_def)
  obtain b1 where b1: "(if inner ?B ?a = NilMap then gm_set ?B ?a gm_make else Ret ?B) = Ret b1"
    "maps_ok b1" "inner b1 ?a \<noteq> NilMap" "\<And>a d. balance b1 a d = balance ?B a d"
  proof (cases "inner ?B ?a = NilMap")
    case True
    obtain fb where fb: "?B = MkMap fb" using B(2) by (cases ?B) auto
    have none: "fmlookup fb ?a = None" using True B(1) fb by (auto simp: inner_def maps_ok_def split: option.splits)
    show ?thesis
      by (rule that [of "MkMap (fmupd ?a gm_make fb)"])
        (use True B(1) fb none in \<open>auto simp: maps_ok_def inner_def balance_def amount_of_def gm_make_def split: if_splits\<close>)
  next
    case False
    then show ?thesis using that [of ?B] B by simp
  qed
  obtain b where b: "set_balance b1 ?a ?d (balance b1 ?a ?d + tx_amount tx) = Ret b" "maps_ok b"
    "\<And>a d. balance b a d = (if a = ?a \<and> d = ?d then balance b1 ?a ?d + tx_amount tx else balance b1 a d)"
    using set_balance_spec [OF b1(2,3)] by metis
  note run = executeDeposit_fields [OF len, of s i, unfolded b1(1) go_bind.simps b(1)]
  show ?thesis using amt run b b1(4) by (intro that [of _ b]) (auto simp: encodeUint64_def)
qed

lemma withdraw_run:
  assumes ok: "state_ok s" and len: "30 \<le> length tx" and amt: "tx_amount tx \<noteq> 0"
    and bal: "tx_amount tx \<le> balance (st_Balances s) (tx_addr tx) (tx_denom tx)"
  obtains out b where "executeWithdraw s i tx = Ret (out, [], s\<lparr>st_Balances := b\<rparr>)"
    and "maps_ok b" and "txo_Index out = i" and "txo_Code out = 0"
    and "txo_Data out = PutUint64 (balance b (tx_addr tx) (tx_denom tx))"
    and "\<And>a d. balance b a d = (if a = tx_addr tx \<and> d = tx_denom tx
           then balance (st_Balances s) a d - tx_amount tx else balance (st_Balances s) a d)"
proof -
  let ?B = "st_Balances s" and ?a = "tx_addr tx" and ?d = "tx_denom tx"
  have B: "maps_ok ?B" using ok by (auto simp: state_ok_def)
  have "balance ?B ?a ?d \<noteq> 0" using bal amt by (metis word_le_0_iff)
  then have inn: "inner ?B ?a \<noteq> NilMap" by (rule inner_present_of_balance)
  obtain b1 where b1: "set_balance ?B ?a ?d (balance ?B ?a ?d - tx_amount tx) = Ret b1" "maps_ok b1"
    "inner b1 ?a \<noteq> NilMap"
    "\<And>a d. balance b1 a d = (if a = ?a \<and> d = ?d then balance ?B ?a ?d - tx_amount tx else balance ?B a d)"
    using set_balance_spec [OF B inn] by metis
  obtain b where b: "(if balance b1 ?a ?d = 0 then
                       go_bind (gm_set b1 ?a (gm_delete (inner b1 ?a) ?d)) (\<lambda>b.
                       Ret (if gm_len (inner b ?a) = 0 then gm_delete b ?a else b))
                     else Ret b1) = Ret b" "maps_ok b" "\<And>a d. balance b a d = balance b1 a d"
  proof (cases "balance b1 ?a ?d = 0")
    case True
    obtain b2 where "go_bind (gm_set b1 ?a (gm_delete (inner b1 ?a) ?d)) (\<lambda>b.
        Ret (if gm_len (inner b ?a) = 0 then gm_delete b ?a else b)) = Ret b2"
      "maps_ok b2" "\<And>a d. balance b2 a d = balance b1 a d"
      by (rule drop_empty_spec [OF b1(2,3) True]) blast
    then show ?thesis using True that [of b2] by simp
  qed (use that [of b1] b1(2) in simp)
  note run = executeWithdraw_fields [OF len, of s i, unfolded b1(1) go_bind.simps b(1)]
  show ?thesis using amt bal run b b1(4) by (intro that [of _ b]) (auto simp: encodeUint64_def not_less [symmetric])
qed

lemma limit_order_run:
  assumes ok: "state_ok s" and len: "38 \<le> length tx" and amt: "tx_amount tx \<noteq> 0" "tx_price tx \<noteq> 0"
    and bal: "tx_amount tx \<le> balance (st_Balances s) (tx_addr tx) (pairBase (tx_pair tx))"
  obtains out b where "executeLimitOrder s i tx = Ret (out, [], s\<lparr>st_Balances := b,
        st_Orders := Some (elems (st_Orders s) @ [\<lparr>or_Owner = take 20 (drop 1 tx), or_Pair = tx_pair tx,
          or_Amount = tx_amount tx, or_Price = tx_price tx\<rparr>])\<rparr>)"
    and "maps_ok b" and "txo_Index out = i" and "txo_Code out = 0"
    and "txo_Data out = PutUint64 (of_nat (length (elems (st_Orders s))))"
    and "\<And>a d. balance b a d = (if a = tx_addr tx \<and> d = pairBase (tx_pair tx)
           then balance (st_Balances s) a d - tx_amount tx else balance (st_Balances s) a d)"
proof -
  let ?B = "st_Balances s" and ?a = "tx_addr tx" and ?d = "pairBase (tx_pair tx)"
  have B: "maps_ok ?B" using ok by (auto simp: state_ok_def)
  have "balance ?B ?a ?d \<noteq> 0" using bal amt by (metis word_le_0_iff)
  then have inn: "inner ?B ?a \<noteq> NilMap" by (rule inner_present_of_balance)
  obtain b where b: "set_balance ?B ?a ?d (balance ?B ?a ?d - tx_amount tx) = Ret b" "maps_ok b"
    "\<And>a d. balance b a d = (if a = ?a \<and> d = ?d then balance ?B ?a ?d - tx_amount tx else balance ?B a d)"
    using set_balance_spec [OF B inn] by metis
  note run = executeLimitOrder_fields [OF len, of s i, unfolded b(1) go_bind.simps]
  show ?thesis using amt bal run b by (intro that [of _ b]) (auto simp: encodeUint64_def not_less [symmetric])
qed

section \<open>Every transaction\<close>

text \<open>The price loop on a map that is there.\<close>

lemma apply_prices_ok: "m \<noteq> NilMap \<Longrightarrow> \<exists>evs m'. apply_prices m ps = Ret (evs, m') \<and> m' \<noteq> NilMap"
proof (induction ps arbitrary: m)
  case (Cons p ps)
  obtain fm where fm: "m = MkMap fm" using Cons.prems by (cases m) auto
  obtain evs m' where "apply_prices (MkMap (fmupd (op_Pair p) (op_Price p) fm)) ps = Ret (evs, m')" "m' \<noteq> NilMap"
    using Cons.IH [of "MkMap (fmupd (op_Pair p) (op_Price p) fm)"] by auto
  then show ?case using fm Cons by auto
qed simp

lemma oracle_run:
  assumes "state_ok s"
  obtains out evs m where "executeOracleUpdate s i tx = Ret (out, evs, s\<lparr>st_Prices := m\<rparr>)"
    and "m \<noteq> NilMap" and "txo_Index out = i" and "txo_Code out \<noteq> 0 \<Longrightarrow> m = st_Prices s \<and> evs = []"
proof -
  have s: "s\<lparr>st_Prices := st_Prices s\<rparr> = s" by simp
  have nn: "st_Prices s \<noteq> NilMap" using assms by (simp add: state_ok_def)
  show ?thesis
  proof (cases "length tx < 2")
    case True
    then show ?thesis by (intro that [of _ _ "st_Prices s"]) (use nn in \<open>auto simp: executeOracleUpdate_def\<close>)
  next
    case False
    show ?thesis
    proof (cases "Unmarshal_prices (drop 1 tx)")
      case (Inl e)
      then show ?thesis using False nn by (intro that [of _ _ "st_Prices s"]) (auto simp: executeOracleUpdate_def)
    next
      case (Inr ps)
      obtain evs m' where "apply_prices (st_Prices s) (elems ps) = Ret (evs, m')" "m' \<noteq> NilMap"
        using apply_prices_ok [OF nn] by blast
      then show ?thesis using False Inr
        by (intro that [of _ _ m']) (auto simp: executeOracleUpdate_def)
    qed
  qed
qed

text \<open>
  What the four kinds have in common: execution returns, keeps the maps present, reports the
  index it was given, and a transaction that fails changes nothing.
\<close>

definition tx_ok :: "state \<Rightarrow> u32 \<Rightarrow> executed \<Rightarrow> bool" where
  "tx_ok s i r \<longleftrightarrow> (\<exists>out evs s'. r = Ret (out, evs, s') \<and> state_ok s' \<and> txo_Index out = i \<and>
     st_Height s' = st_Height s \<and> (txo_Code out \<noteq> 0 \<longrightarrow> s' = s \<and> evs = []))"

lemma state_ok_balances: "state_ok s \<Longrightarrow> maps_ok b \<Longrightarrow> state_ok (s\<lparr>st_Balances := b, st_Orders := q\<rparr>)"
  "state_ok s \<Longrightarrow> maps_ok b \<Longrightarrow> state_ok (s\<lparr>st_Balances := b\<rparr>)"
  by (simp_all add: state_ok_def)

lemma tx_ok_failed: "state_ok s \<Longrightarrow> c \<noteq> 0 \<Longrightarrow> tx_ok s i (Ret (failed i c m, [], s))"
  by (simp add: tx_ok_def)

lemma tx_ok_deposit:
  assumes "state_ok s"
  shows "tx_ok s i (executeDeposit s i tx)"
proof (cases "30 \<le> length tx \<and> tx_amount tx \<noteq> 0")
  case True
  obtain out b where "executeDeposit s i tx = Ret (out, [], s\<lparr>st_Balances := b\<rparr>)" "maps_ok b"
    "txo_Index out = i" "txo_Code out = 0"
    using deposit_run [of s tx i] assms True by metis
  then show ?thesis using assms by (simp add: tx_ok_def state_ok_balances)
next
  case False
  then show ?thesis using assms executeDeposit_fields [of tx s i]
    by (cases "30 \<le> length tx") (auto simp: executeDeposit_def intro: tx_ok_failed)
qed

lemma tx_ok_withdraw:
  assumes "state_ok s"
  shows "tx_ok s i (executeWithdraw s i tx)"
proof (cases "30 \<le> length tx \<and> tx_amount tx \<noteq> 0 \<and> tx_amount tx \<le> balance (st_Balances s) (tx_addr tx) (tx_denom tx)")
  case True
  obtain out b where "executeWithdraw s i tx = Ret (out, [], s\<lparr>st_Balances := b\<rparr>)" "maps_ok b"
    "txo_Index out = i" "txo_Code out = 0"
    using withdraw_run [of s tx i] assms True by metis
  then show ?thesis using assms by (simp add: tx_ok_def state_ok_balances)
next
  case False
  then show ?thesis using assms executeWithdraw_fields [of tx s i]
    by (cases "30 \<le> length tx") (auto simp: executeWithdraw_def not_le intro: tx_ok_failed)
qed

lemma tx_ok_limit_order:
  assumes "state_ok s"
  shows "tx_ok s i (executeLimitOrder s i tx)"
proof (cases "38 \<le> length tx \<and> tx_amount tx \<noteq> 0 \<and> tx_price tx \<noteq> 0 \<and>
    tx_amount tx \<le> balance (st_Balances s) (tx_addr tx) (pairBase (tx_pair tx))")
  case True
  obtain out b q where "executeLimitOrder s i tx = Ret (out, [], s\<lparr>st_Balances := b, st_Orders := q\<rparr>)" "maps_ok b"
    "txo_Index out = i" "txo_Code out = 0"
    using limit_order_run [of s tx i] assms True by metis
  then show ?thesis using assms by (simp add: tx_ok_def state_ok_balances)
next
  case False
  then show ?thesis using assms executeLimitOrder_fields [of tx s i]
    by (cases "38 \<le> length tx") (auto simp: executeLimitOrder_def not_le intro: tx_ok_failed)
qed

lemma tx_ok_oracle:
  assumes "state_ok s"
  shows "tx_ok s i (executeOracleUpdate s i tx)"
proof -
  obtain out evs m where "executeOracleUpdate s i tx = Ret (out, evs, s\<lparr>st_Prices := m\<rparr>)"
    "m \<noteq> NilMap" "txo_Index out = i" "txo_Code out \<noteq> 0 \<Longrightarrow> m = st_Prices s \<and> evs = []"
    using oracle_run [OF assms, of i tx] by metis
  then show ?thesis using assms by (auto simp: tx_ok_def state_ok_def)
qed

lemma tx_ok_executeTx: "state_ok s \<Longrightarrow> tx_ok s i (executeTx s i tx)"
  by (cases tx) (auto simp: executeTx_def tx_ok_deposit tx_ok_withdraw tx_ok_limit_order tx_ok_oracle
      intro: tx_ok_failed)

lemma executeTx_run:
  assumes "state_ok s"
  obtains out evs s' where "executeTx s i tx = Ret (out, evs, s')" and "state_ok s'" and "txo_Index out = i"
    and "st_Height s' = st_Height s"
  using tx_ok_executeTx [OF assms, of i tx] by (auto simp: tx_ok_def)

lemma execute_txs_run:
  assumes "state_ok s"
  shows "\<exists>outs evs s'. execute_txs s i txs = Ret (outs, evs, s') \<and> state_ok s' \<and>
     st_Height s' = st_Height s \<and> map txo_Index outs = map of_nat [i..<i + length txs]"
  using assms
proof (induction txs arbitrary: s i)
  case (Cons tx txs)
  obtain out evs s1 where 1: "executeTx s (of_nat i) tx = Ret (out, evs, s1)" "state_ok s1"
    "txo_Index out = of_nat i" "st_Height s1 = st_Height s" using executeTx_run [OF Cons.prems] by metis
  obtain outs evs' s' where 2: "execute_txs s1 (Suc i) txs = Ret (outs, evs', s')" "state_ok s'"
    "st_Height s' = st_Height s1" "map txo_Index outs = map of_nat [Suc i..<Suc i + length txs]"
    using Cons.IH [OF 1(2), of "Suc i"] by auto
  have "[i..<i + length (tx # txs)] = i # [Suc i..<Suc i + length txs]"
    using upt_conv_Cons [of i "i + length (tx # txs)"] by simp
  then show ?case using 1 2 by (simp del: upt_Suc)
qed simp

end
