(* ===== verification/Dex_Ledger.thy ===== *)
theory Dex_Ledger
  imports Dex_Exec
begin

text \<open>
  \<^verbatim>\<open>example/dex/app.go\<close>, what transaction execution does to the ledger: the amount of each
  denomination held in balances and orders together, the builders of test transactions
  read back, and the behaviour of every transaction kind on every branch.
\<close>

section \<open>Holdings\<close>

text \<open>
  What the application holds of a denomination: the balances of all accounts and the
  amounts locked in orders, as a natural number. Every amount is below \<open>2\<^sup>6\<^sup>4\<close>; the sum of
  several need not be.
\<close>

definition total_balance :: "balances \<Rightarrow> string \<Rightarrow> nat" where
  "total_balance b d = sum_list (map (\<lambda>a. unat (balance b a d)) (gm_keys b))"

definition locked :: "Order slice \<Rightarrow> string \<Rightarrow> nat" where
  "locked q d = sum_list (map (unat \<circ> or_Amount) (filter (\<lambda>r. pairBase (or_Pair r) = d) (elems q)))"

definition holdings :: "state \<Rightarrow> string \<Rightarrow> nat" where
  "holdings s d = total_balance (st_Balances s) d + locked (st_Orders s) d"

lemma balance_not_key: "a \<notin> set (gm_keys b) \<Longrightarrow> balance b a d = 0"
  by (simp add: in_gm_keys balance_def inner_def amount_of_def del: set_gm_keys)

lemma total_balance_sum:
  assumes "finite A" and "set (gm_keys b) \<subseteq> A"
  shows "total_balance b d = (\<Sum>a\<in>A. unat (balance b a d))"
proof -
  have "total_balance b d = (\<Sum>a\<in>set (gm_keys b). unat (balance b a d))"
    by (simp add: total_balance_def sum_list_distinct_conv_sum_set del: set_gm_keys)
  also have "\<dots> = (\<Sum>a\<in>A. unat (balance b a d))"
    by (rule sum.mono_neutral_left) (use assms balance_not_key in auto)
  finally show ?thesis .
qed

lemma total_balance_change:
  assumes "\<And>a. balance b' a d = (if a = x then v else balance b a d)"
  shows "total_balance b' d + unat (balance b x d) = total_balance b d + unat v"
proof -
  let ?A = "insert x (set (gm_keys b) \<union> set (gm_keys b'))"
  have fin: "finite ?A" by simp
  have split: "total_balance c d = unat (balance c x d) + (\<Sum>a\<in>?A - {x}. unat (balance c a d))" if "set (gm_keys c) \<subseteq> ?A" for c
    unfolding total_balance_sum [OF fin that] by (rule sum.remove [OF fin]) simp
  have "(\<Sum>a\<in>?A - {x}. unat (balance b' a d)) = (\<Sum>a\<in>?A - {x}. unat (balance b a d))" using assms by simp
  moreover have "set (gm_keys b) \<subseteq> ?A" "set (gm_keys b') \<subseteq> ?A" by auto
  ultimately show ?thesis using split [of b] split [of b'] assms [of x] by presburger
qed

lemma total_balance_same:
  assumes "\<And>a. balance b' a d = balance b a d"
  shows "total_balance b' d = total_balance b d"
  using total_balance_change [of b' d undefined "balance b undefined d" b] assms by simp

lemma total_balance_at:
  assumes "\<And>a d. balance b' a d = (if a = x \<and> d = y then f (balance b a d) else balance b a d)"
  shows "total_balance b' y + unat (balance b x y) = total_balance b y + unat (f (balance b x y))"
    and "d \<noteq> y \<Longrightarrow> total_balance b' d = total_balance b d"
proof -
  show "total_balance b' y + unat (balance b x y) = total_balance b y + unat (f (balance b x y))"
    by (rule total_balance_change) (simp add: assms)
  show "total_balance b' d = total_balance b d" if "d \<noteq> y" by (rule total_balance_same) (simp add: assms that)
qed

text \<open>What a transaction with a given outcome brings in and takes out.\<close>

definition credited :: "string \<Rightarrow> Tx \<times> TxOutcome \<Rightarrow> nat" where
  "credited d = (\<lambda>(tx, out). if TxOutcome_OK out \<and> tx ! 0 = TxDeposit \<and> tx_denom tx = d then unat (tx_amount tx) else 0)"

definition debited :: "string \<Rightarrow> Tx \<times> TxOutcome \<Rightarrow> nat" where
  "debited d = (\<lambda>(tx, out). if TxOutcome_OK out \<and> tx ! 0 = TxWithdraw \<and> tx_denom tx = d then unat (tx_amount tx) else 0)"

lemma tx_kinds_distinct [simp]:
  "TxDeposit \<noteq> TxWithdraw" "TxDeposit \<noteq> TxLimitOrder" "TxDeposit \<noteq> TxOracleUpdate"
  "TxWithdraw \<noteq> TxDeposit" "TxWithdraw \<noteq> TxLimitOrder" "TxWithdraw \<noteq> TxOracleUpdate"
  "TxLimitOrder \<noteq> TxDeposit" "TxLimitOrder \<noteq> TxWithdraw" "TxLimitOrder \<noteq> TxOracleUpdate"
  "TxOracleUpdate \<noteq> TxDeposit" "TxOracleUpdate \<noteq> TxWithdraw" "TxOracleUpdate \<noteq> TxLimitOrder"
  by (simp_all add: TxDeposit_def TxWithdraw_def TxLimitOrder_def TxOracleUpdate_def)

lemma executeTx_kind:
  assumes "tx \<noteq> []"
  shows "executeTx s i tx =
    (if tx ! 0 = TxDeposit then executeDeposit s i tx
     else if tx ! 0 = TxWithdraw then executeWithdraw s i tx
     else if tx ! 0 = TxLimitOrder then executeLimitOrder s i tx
     else if tx ! 0 = TxOracleUpdate then executeOracleUpdate s i tx
     else Ret (failed i 1 (''unknown tx type 0x'' @ hex_byte (tx ! 0)), [], s))"
  using assms by (simp add: executeTx_def)

lemma deposit_accepted:
  assumes "executeDeposit s i tx = Ret (out, evs, s')" and "TxOutcome_OK out"
  shows "30 \<le> length tx" and "tx_amount tx \<noteq> 0"
  using assms executeDeposit_fields [of tx s i]
  by (auto simp: executeDeposit_def TxOutcome_OK_def not_le [symmetric] split: if_splits)

lemma withdraw_accepted:
  assumes "executeWithdraw s i tx = Ret (out, evs, s')" and "TxOutcome_OK out"
  shows "30 \<le> length tx" and "tx_amount tx \<noteq> 0"
    and "tx_amount tx \<le> balance (st_Balances s) (tx_addr tx) (tx_denom tx)"
  using assms executeWithdraw_fields [of tx s i]
  by (auto simp: executeWithdraw_def TxOutcome_OK_def not_le [symmetric] split: if_splits)

lemma limit_order_accepted:
  assumes "executeLimitOrder s i tx = Ret (out, evs, s')" and "TxOutcome_OK out"
  shows "38 \<le> length tx" and "tx_amount tx \<noteq> 0" and "tx_price tx \<noteq> 0"
    and "tx_amount tx \<le> balance (st_Balances s) (tx_addr tx) (pairBase (tx_pair tx))"
  using assms executeLimitOrder_fields [of tx s i]
  by (auto simp: executeLimitOrder_def TxOutcome_OK_def not_le [symmetric] split: if_splits)

text \<open>
  The one place where a balance can exceed its width: a deposit onto it, which then loses
  \<open>2\<^sup>6\<^sup>4\<close>.
\<close>

lemma holdings_deposit:
  assumes ok: "state_ok s" and run: "executeDeposit s i tx = Ret (out, evs, s')" and acc: "TxOutcome_OK out"
  shows "\<exists>k \<le> of_bool (tx_denom tx = d). holdings s' d + 2 ^ 64 * k = holdings s d + (if tx_denom tx = d then unat (tx_amount tx) else 0)"
proof -
  note go = deposit_accepted [OF run acc]
  obtain b where b: "s' = s\<lparr>st_Balances := b\<rparr>"
    "\<And>a d. balance b a d = (if a = tx_addr tx \<and> d = tx_denom tx
           then balance (st_Balances s) a d + tx_amount tx else balance (st_Balances s) a d)"
    by (rule deposit_run [OF ok go, of i]) (use run in auto)
  let ?x = "balance (st_Balances s) (tx_addr tx) (tx_denom tx)"
  let ?k = "of_bool (2 ^ 64 \<le> unat ?x + unat (tx_amount tx)) :: nat"
  have "unat (?x + tx_amount tx) + 2 ^ 64 * ?k = unat ?x + unat (tx_amount tx)"
    by (auto simp: unat_plus_if')
  then have "tx_denom tx = d \<Longrightarrow> ?thesis" using total_balance_at(1) [OF b(2)] by (intro exI [of _ ?k]) (auto simp: holdings_def b(1))
  moreover have "tx_denom tx \<noteq> d \<Longrightarrow> ?thesis" using total_balance_at(2) [OF b(2), of d] by (auto simp: holdings_def b(1))
  ultimately show ?thesis by blast
qed

lemma holdings_withdraw:
  assumes ok: "state_ok s" and run: "executeWithdraw s i tx = Ret (out, evs, s')" and acc: "TxOutcome_OK out"
  shows "holdings s' d + (if tx_denom tx = d then unat (tx_amount tx) else 0) = holdings s d"
proof -
  note go = withdraw_accepted [OF run acc]
  obtain b where b: "s' = s\<lparr>st_Balances := b\<rparr>"
    "\<And>a d. balance b a d = (if a = tx_addr tx \<and> d = tx_denom tx
           then balance (st_Balances s) a d - tx_amount tx else balance (st_Balances s) a d)"
    by (rule withdraw_run [OF ok go, of i]) (use run in auto)
  let ?x = "balance (st_Balances s) (tx_addr tx) (tx_denom tx)"
  have "unat (?x - tx_amount tx) + unat (tx_amount tx) = unat ?x" using go(3) by (simp add: unat_sub word_le_nat_alt)
  then show ?thesis using total_balance_at [OF b(2)] by (auto simp: holdings_def b(1))
qed

lemma locked_append:
  "locked (Some (elems q @ [r])) d = locked q d + (if pairBase (or_Pair r) = d then unat (or_Amount r) else 0)"
  by (simp add: locked_def elems_def)

lemma holdings_limit_order:
  assumes ok: "state_ok s" and run: "executeLimitOrder s i tx = Ret (out, evs, s')" and acc: "TxOutcome_OK out"
  shows "holdings s' d = holdings s d"
proof -
  note go = limit_order_accepted [OF run acc]
  obtain b where b: "s' = s\<lparr>st_Balances := b,
        st_Orders := Some (elems (st_Orders s) @ [\<lparr>or_Owner = take 20 (drop 1 tx), or_Pair = tx_pair tx,
          or_Amount = tx_amount tx, or_Price = tx_price tx\<rparr>])\<rparr>"
    "\<And>a d. balance b a d = (if a = tx_addr tx \<and> d = pairBase (tx_pair tx)
           then balance (st_Balances s) a d - tx_amount tx else balance (st_Balances s) a d)"
    by (rule limit_order_run [OF ok go, of i]) (use run in auto)
  let ?x = "balance (st_Balances s) (tx_addr tx) (pairBase (tx_pair tx))"
  have "unat (?x - tx_amount tx) + unat (tx_amount tx) = unat ?x" using go(4) by (simp add: unat_sub word_le_nat_alt)
  then show ?thesis using total_balance_at [OF b(2)] by (cases "d = pairBase (tx_pair tx)") (auto simp: holdings_def b(1) locked_append)
qed

lemma holdings_executeTx:
  assumes ok: "state_ok s" and run: "executeTx s i tx = Ret (out, evs, s')"
  shows "\<exists>k \<le> of_bool (0 < credited d (tx, out)).
     holdings s' d + debited d (tx, out) + 2 ^ 64 * k = holdings s d + credited d (tx, out)"
proof (cases "TxOutcome_OK out")
  case False
  then have "s' = s" using tx_ok_executeTx [OF ok, of i tx] run by (auto simp: tx_ok_def TxOutcome_OK_def)
  then show ?thesis using False by (simp add: credited_def debited_def)
next
  case True
  have ne: "tx \<noteq> []" using run True by (auto simp: executeTx_def TxOutcome_OK_def)
  consider (deposit) "tx ! 0 = TxDeposit" "executeDeposit s i tx = Ret (out, evs, s')"
    | (withdraw) "tx ! 0 = TxWithdraw" "executeWithdraw s i tx = Ret (out, evs, s')"
    | (other) "tx ! 0 \<noteq> TxDeposit" "tx ! 0 \<noteq> TxWithdraw" "executeLimitOrder s i tx = Ret (out, evs, s') \<or> executeOracleUpdate s i tx = Ret (out, evs, s')"
    using run True by (auto simp: executeTx_kind [OF ne] TxOutcome_OK_def split: if_splits)
  then show ?thesis
  proof cases
    case deposit
    then have "unat (tx_amount tx) > 0" using deposit_accepted(2) [OF deposit(2) True] by (simp add: unat_gt_0)
    then show ?thesis using holdings_deposit [OF ok deposit(2) True, of d] deposit(1) True
      by (auto simp: credited_def debited_def split: if_splits)
  next
    case withdraw
    then show ?thesis using holdings_withdraw [OF ok withdraw(2) True, of d] True by (auto simp: credited_def debited_def)
  next
    case other
    have "holdings s' d = holdings s d" if "executeOracleUpdate s i tx = Ret (out, evs, s')"
      by (rule oracle_run [OF ok, of i tx]) (use that in \<open>simp add: holdings_def\<close>)
    then show ?thesis using other holdings_limit_order [OF ok _ True, of i tx evs s' d] by (auto simp: credited_def debited_def)
  qed
qed

lemma holdings_execute_txs:
  assumes "state_ok s" and "execute_txs s i txs = Ret (outs, evs, s')"
  shows "\<exists>k \<le> length (filter (\<lambda>p. 0 < credited d p) (zip txs outs)).
     holdings s' d + sum_list (map (debited d) (zip txs outs)) + 2 ^ 64 * k =
     holdings s d + sum_list (map (credited d) (zip txs outs))"
  using assms
proof (induction txs arbitrary: s i outs evs)
  case (Cons tx txs)
  obtain out evs1 s1 where 1: "executeTx s (of_nat i) tx = Ret (out, evs1, s1)" "state_ok s1"
    using executeTx_run [OF Cons.prems(1)] by metis
  obtain outs2 evs2 where 2: "execute_txs s1 (Suc i) txs = Ret (outs2, evs2, s')" "outs = out # outs2"
    using Cons.prems(2) 1 by (auto simp: go_bind_Ret_iff)
  obtain j where "j \<le> of_bool (0 < credited d (tx, out))"
    "holdings s1 d + debited d (tx, out) + 2 ^ 64 * j = holdings s d + credited d (tx, out)"
    using holdings_executeTx [OF Cons.prems(1) 1(1), of d] by blast
  moreover obtain k where "k \<le> length (filter (\<lambda>p. 0 < credited d p) (zip txs outs2))"
    "holdings s' d + sum_list (map (debited d) (zip txs outs2)) + 2 ^ 64 * k = holdings s1 d + sum_list (map (credited d) (zip txs outs2))"
    using Cons.IH [OF 1(2) 2(1)] by blast
  ultimately show ?case using 2(2) by (intro exI [of _ "j + k"]) (auto split: if_splits)
qed simp

lemma deposit_refused:
  assumes "length tx < 30 \<or> tx_amount tx = 0"
  shows "\<exists>m. executeDeposit s i tx = Ret (failed i 1 m, [], s)"
proof (cases "30 \<le> length tx")
  case True
  then show ?thesis using assms by (auto simp: executeDeposit_fields)
qed (auto simp: executeDeposit_def)

lemma withdraw_refused:
  assumes "length tx < 30 \<or> tx_amount tx = 0 \<or> balance (st_Balances s) (tx_addr tx) (tx_denom tx) < tx_amount tx"
  shows "\<exists>m. executeWithdraw s i tx = Ret (failed i (if length tx < 30 \<or> tx_amount tx = 0 then 1 else 2) m, [], s)"
proof (cases "30 \<le> length tx")
  case True
  then show ?thesis using assms by (auto simp: executeWithdraw_fields)
qed (auto simp: executeWithdraw_def)

lemma limit_order_refused:
  assumes "length tx < 38 \<or> tx_amount tx = 0 \<or> tx_price tx = 0 \<or>
    balance (st_Balances s) (tx_addr tx) (pairBase (tx_pair tx)) < tx_amount tx"
  shows "\<exists>m. executeLimitOrder s i tx = Ret (failed i (if length tx < 38 \<or> tx_amount tx = 0 \<or> tx_price tx = 0 then 1 else 2) m, [], s)"
proof (cases "38 \<le> length tx")
  case True
  then show ?thesis using assms by (auto simp: executeLimitOrder_fields)
qed (auto simp: executeLimitOrder_def)

lemma unat_sub_at:
  "y \<le> x \<Longrightarrow> unat (x - y) = unat x - unat (y :: u64)"
  by (simp add: unat_sub)

section \<open>Transaction builders read back\<close>

lemma fresh_buffer [simp]: "0 < n \<Longrightarrow> (replicate n 0)[0 := x] = x # replicate (n - 1) 0"
  by (cases n) auto

text \<open>Each copy fills the next piece of the buffer.\<close>

lemma copy_into_next:
  assumes "lo = length pre" and "hi = lo + length src" and "m = length src + n"
  shows "copy_into lo hi src (pre @ replicate m 0) = (pre @ src) @ replicate n 0"
  using assms by (simp add: copy_into_def)

lemma tx_head:
  assumes "length addr = 20" and "28 \<le> m"
  shows "copy_into 21 29 (PutUint64 amount) (copy_into 1 21 addr ((replicate (Suc m) 0)[0 := k])) =
     (k # addr @ PutUint64 amount) @ replicate (m - 28) 0"
proof -
  have "copy_into 1 21 addr ([k] @ replicate m 0) = ([k] @ addr) @ replicate (m - 20) 0"
    by (rule copy_into_next) (use assms in auto)
  moreover have "copy_into 21 29 (PutUint64 amount) (([k] @ addr) @ replicate (m - 20) 0) =
      (([k] @ addr) @ PutUint64 amount) @ replicate (m - 28) 0"
    by (rule copy_into_next) (use assms in auto)
  ultimately show ?thesis by simp
qed

lemma copy_into_last:
  assumes "lo = length pre" and "length src = n"
  shows "copy_into lo (length (pre @ replicate n 0)) src (pre @ replicate n 0) = pre @ src"
  using assms by (simp add: copy_into_def)

lemma DepositTx_eq:
  assumes "is_address addr"
  shows "DepositTx addr amount denom = TxDeposit # addr @ PutUint64 amount @ bytes denom"
proof -
  have "copy_into 29 (length ((TxDeposit # addr @ PutUint64 amount) @ replicate (length denom) 0)) (bytes denom)
      ((TxDeposit # addr @ PutUint64 amount) @ replicate (length denom) 0) =
      (TxDeposit # addr @ PutUint64 amount) @ bytes denom"
    by (rule copy_into_last) (use assms in \<open>simp_all add: is_address_def\<close>)
  then show ?thesis using tx_head [of addr "28 + length denom" amount TxDeposit] assms
    by (simp add: DepositTx_def Let_def is_address_def del: fresh_buffer replicate.simps)
qed

lemma WithdrawTx_eq:
  assumes "is_address addr"
  shows "WithdrawTx addr amount denom = TxWithdraw # addr @ PutUint64 amount @ bytes denom"
proof -
  have "copy_into 29 (length ((TxWithdraw # addr @ PutUint64 amount) @ replicate (length denom) 0)) (bytes denom)
      ((TxWithdraw # addr @ PutUint64 amount) @ replicate (length denom) 0) =
      (TxWithdraw # addr @ PutUint64 amount) @ bytes denom"
    by (rule copy_into_last) (use assms in \<open>simp_all add: is_address_def\<close>)
  then show ?thesis using tx_head [of addr "28 + length denom" amount TxWithdraw] assms
    by (simp add: WithdrawTx_def Let_def is_address_def del: fresh_buffer replicate.simps)
qed

lemma LimitOrderTx_eq:
  assumes "is_address addr"
  shows "LimitOrderTx addr amount price pair =
    TxLimitOrder # addr @ PutUint64 amount @ PutUint64 price @ bytes pair"
proof -
  let ?h = "TxLimitOrder # addr @ PutUint64 amount"
  have len: "length ?h = 29" using assms by (simp add: is_address_def)
  have 1: "copy_into 29 37 (PutUint64 price) (?h @ replicate (8 + length pair) 0) =
      (?h @ PutUint64 price) @ replicate (length pair) 0"
    by (rule copy_into_next) (use len in simp_all)
  have 2: "copy_into 37 (length ((?h @ PutUint64 price) @ replicate (length pair) 0)) (bytes pair)
      ((?h @ PutUint64 price) @ replicate (length pair) 0) = (?h @ PutUint64 price) @ bytes pair"
    by (rule copy_into_last) (use len in simp_all)
  show ?thesis using tx_head [of addr "36 + length pair" amount TxLimitOrder] 1 2 assms
    by (simp add: LimitOrderTx_def Let_def is_address_def del: fresh_buffer replicate.simps)
qed

lemma tx_fields_of:
  assumes "length addr = 20"
  shows "tx_addr (k # addr @ PutUint64 amount @ rest) = addrHex addr"
    and "tx_amount (k # addr @ PutUint64 amount @ rest) = amount"
    and "tx_denom (k # addr @ PutUint64 amount @ rest) = str rest"
    and "tx_price (k # addr @ PutUint64 amount @ PutUint64 price @ rest) = price"
    and "tx_pair (k # addr @ PutUint64 amount @ PutUint64 price @ rest) = str rest"
  using assms Uint64_PutUint64 [of amount "[]"] Uint64_PutUint64 [of price "[]"]
  by (simp_all add: tx_fields u64_at_def)

text \<open>An account that holds the largest amount there is.\<close>

definition full_state :: state where
  "full_state = newState\<lparr>st_Balances := MkMap (fmupd (addrHex (TestAddress 1))
     (MkMap (fmupd ''ETH'' (- 1) fmempty)) fmempty)\<rparr>"

lemma full_state: "state_ok full_state"
  "balance (st_Balances full_state) (addrHex (TestAddress 1)) ''ETH'' = - 1"
  by (auto simp: full_state_def state_ok_def maps_ok_def newState_def gm_make_def balance_def inner_def
      amount_of_def split: if_splits)

lemma TestAddress_address [simp]: "is_address (TestAddress n)"
  by (simp add: is_address_def TestAddress_def zero_address_def)

lemma DepositTx_fields:
  assumes "is_address addr"
  shows "length (DepositTx addr amount denom) = 29 + length denom"
    and "tx_addr (DepositTx addr amount denom) = addrHex addr"
    and "tx_amount (DepositTx addr amount denom) = amount"
    and "tx_denom (DepositTx addr amount denom) = denom"
  using assms by (simp_all add: DepositTx_eq tx_fields_of is_address_def)

lemma WithdrawTx_fields:
  assumes "is_address addr"
  shows "length (WithdrawTx addr amount denom) = 29 + length denom"
    and "tx_addr (WithdrawTx addr amount denom) = addrHex addr"
    and "tx_amount (WithdrawTx addr amount denom) = amount"
    and "tx_denom (WithdrawTx addr amount denom) = denom"
  using assms by (simp_all add: WithdrawTx_eq tx_fields_of is_address_def)

lemma LimitOrderTx_fields:
  assumes "is_address addr"
  shows "length (LimitOrderTx addr amount price pair) = 37 + length pair"
    and "tx_addr (LimitOrderTx addr amount price pair) = addrHex addr"
    and "tx_amount (LimitOrderTx addr amount price pair) = amount"
    and "tx_price (LimitOrderTx addr amount price pair) = price"
    and "tx_pair (LimitOrderTx addr amount price pair) = pair"
  using assms tx_fields_of(1,2) [of addr TxLimitOrder amount "PutUint64 price @ bytes pair"]
  by (simp_all add: LimitOrderTx_eq tx_fields_of is_address_def)

section \<open>Properties\<close>

text \<open>
  C27. Deposits, on every branch: a transaction that is too short or moves nothing fails with
  code 1 and changes nothing; any other succeeds, adds the amount to that one balance,
  modulo \<open>2\<^sup>6\<^sup>4\<close>, and returns the new balance. The instance shows the wrap-around: one more
  unit on a full balance leaves nothing.
\<close>

theorem deposit_spec:
  assumes "state_ok s"
  shows "\<exists>out b. executeDeposit s i tx = Ret (out, [], s\<lparr>st_Balances := b\<rparr>) \<and>
    (if length tx < 30 \<or> tx_amount tx = 0 then txo_Code out = 1 \<and> b = st_Balances s
     else txo_Code out = 0 \<and> txo_Data out = PutUint64 (balance b (tx_addr tx) (tx_denom tx)) \<and>
       (\<forall>a d. balance b a d = balance (st_Balances s) a d +
          (if a = tx_addr tx \<and> d = tx_denom tx then tx_amount tx else 0)))"
proof (cases "length tx < 30 \<or> tx_amount tx = 0")
  case True
  then obtain m where "executeDeposit s i tx = Ret (failed i 1 m, [], s)"
    using deposit_refused by blast
  then show ?thesis using True by (intro exI [of _ "failed i 1 m"] exI [of _ "st_Balances s"]) simp
next
  case False
  then have go: "30 \<le> length tx" "tx_amount tx \<noteq> 0" by auto
  obtain out b where "executeDeposit s i tx = Ret (out, [], s\<lparr>st_Balances := b\<rparr>)" "txo_Code out = 0"
    "txo_Data out = PutUint64 (balance b (tx_addr tx) (tx_denom tx))"
    "\<And>a d. balance b a d = (if a = tx_addr tx \<and> d = tx_denom tx
       then balance (st_Balances s) a d + tx_amount tx else balance (st_Balances s) a d)"
    by (rule deposit_run [OF assms go, of i]) blast
  then show ?thesis using False by (intro exI [of _ out] exI [of _ b]) simp
qed

theorem deposit_spec_witness:
  "\<exists>out b. executeDeposit full_state 0 (DepositTx (TestAddress 1) 1 ''ETH'') =
      Ret (out, [], full_state\<lparr>st_Balances := b\<rparr>) \<and>
     txo_Code out = 0 \<and> balance b (addrHex (TestAddress 1)) ''ETH'' = 0"
proof -
  let ?tx = "DepositTx (TestAddress 1) 1 ''ETH''"
  have go: "\<not> (length ?tx < 30 \<or> tx_amount ?tx = 0)" by (simp add: DepositTx_fields)
  obtain out b where run: "executeDeposit full_state 0 ?tx = Ret (out, [], full_state\<lparr>st_Balances := b\<rparr>)"
    and "txo_Code out = 0" and upd: "\<And>a d. balance b a d = balance (st_Balances full_state) a d +
      (if a = tx_addr ?tx \<and> d = tx_denom ?tx then tx_amount ?tx else 0)"
    using deposit_spec [OF full_state(1), of 0 ?tx] by (subst (asm) if_not_P [OF go]) blast
  moreover have "balance b (addrHex (TestAddress 1)) ''ETH'' = 0"
    by (subst upd) (simp add: DepositTx_fields full_state(2))
  ultimately show ?thesis by blast
qed

text \<open>
  C16. Withdrawals, on every branch: too short or nothing to move is code 1, more than the
  balance is code 2, and both change nothing; any other withdrawal succeeds and takes
  exactly the amount from that one balance, as a number, so no balance ever goes below
  zero.
\<close>

theorem withdraw_spec:
  assumes "state_ok s"
  shows "\<exists>out b. executeWithdraw s i tx = Ret (out, [], s\<lparr>st_Balances := b\<rparr>) \<and>
    (if length tx < 30 \<or> tx_amount tx = 0 then txo_Code out = 1 \<and> b = st_Balances s
     else if balance (st_Balances s) (tx_addr tx) (tx_denom tx) < tx_amount tx
     then txo_Code out = 2 \<and> b = st_Balances s
     else txo_Code out = 0 \<and> txo_Data out = PutUint64 (balance b (tx_addr tx) (tx_denom tx)) \<and>
       (\<forall>a d. int (unat (balance b a d)) = int (unat (balance (st_Balances s) a d)) -
          (if a = tx_addr tx \<and> d = tx_denom tx then int (unat (tx_amount tx)) else 0)))"
proof (cases "length tx < 30 \<or> tx_amount tx = 0 \<or> balance (st_Balances s) (tx_addr tx) (tx_denom tx) < tx_amount tx")
  case True
  let ?c = "if length tx < 30 \<or> tx_amount tx = 0 then 1 else 2"
  obtain m where m: "executeWithdraw s i tx = Ret (failed i ?c m, [], s)"
    using withdraw_refused [OF True] by blast
  then show ?thesis using True
    by (intro exI [of _ "failed i ?c m"] exI [of _ "st_Balances s"]) auto
next
  case False
  then have le: "tx_amount tx \<le> balance (st_Balances s) (tx_addr tx) (tx_denom tx)" by (simp add: not_less)
  then have "int (unat (balance (st_Balances s) (tx_addr tx) (tx_denom tx) - tx_amount tx)) =
      int (unat (balance (st_Balances s) (tx_addr tx) (tx_denom tx))) - int (unat (tx_amount tx))"
    by (simp add: unat_sub_at word_le_nat_alt of_nat_diff)
  moreover have go: "30 \<le> length tx" "tx_amount tx \<noteq> 0" using False by auto
  obtain out b where "executeWithdraw s i tx = Ret (out, [], s\<lparr>st_Balances := b\<rparr>)" "txo_Code out = 0"
    "txo_Data out = PutUint64 (balance b (tx_addr tx) (tx_denom tx))"
    "\<And>a d. balance b a d = (if a = tx_addr tx \<and> d = tx_denom tx
       then balance (st_Balances s) a d - tx_amount tx else balance (st_Balances s) a d)"
    by (rule withdraw_run [OF assms go le, of i]) blast
  ultimately show ?thesis using False by (intro exI [of _ out] exI [of _ b]) simp
qed

theorem withdraw_spec_witness:
  "\<exists>out b. executeWithdraw full_state 0 (WithdrawTx (TestAddress 1) 5 ''ETH'') =
      Ret (out, [], full_state\<lparr>st_Balances := b\<rparr>) \<and>
     txo_Code out = 0 \<and> int (unat (balance b (addrHex (TestAddress 1)) ''ETH'')) = 2 ^ 64 - 6"
proof -
  let ?tx = "WithdrawTx (TestAddress 1) 5 ''ETH''"
  have go: "\<not> (length ?tx < 30 \<or> tx_amount ?tx = 0)" by (simp add: WithdrawTx_fields)
  have enough: "\<not> balance (st_Balances full_state) (tx_addr ?tx) (tx_denom ?tx) < tx_amount ?tx"
    by (simp add: WithdrawTx_fields full_state(2))
  obtain out b where run: "executeWithdraw full_state 0 ?tx = Ret (out, [], full_state\<lparr>st_Balances := b\<rparr>)"
    and "txo_Code out = 0" and upd: "\<And>a d. int (unat (balance b a d)) =
      int (unat (balance (st_Balances full_state) a d)) -
      (if a = tx_addr ?tx \<and> d = tx_denom ?tx then int (unat (tx_amount ?tx)) else 0)"
    using withdraw_spec [OF full_state(1), of 0 ?tx]
    by (subst (asm) if_not_P [OF go], subst (asm) if_not_P [OF enough]) blast
  moreover have "int (unat (balance b (addrHex (TestAddress 1)) ''ETH'')) = 2 ^ 64 - 6"
    by (subst upd) (simp add: WithdrawTx_fields full_state(2) unsigned_minus_1_eq_mask mask_eq_exp_minus_1)
  ultimately show ?thesis by blast
qed

text \<open>
  C25. Limit orders, on every branch: malformed is code 1, more than the balance of the
  pair's base denomination is code 2, and both change nothing; any other order takes the
  amount from that balance, appends the order to the book and returns its position there.
\<close>

theorem limit_order_spec:
  assumes "state_ok s"
  shows "\<exists>out b q. executeLimitOrder s i tx = Ret (out, [], s\<lparr>st_Balances := b, st_Orders := q\<rparr>) \<and>
    (if length tx < 38 \<or> tx_amount tx = 0 \<or> tx_price tx = 0
     then txo_Code out = 1 \<and> b = st_Balances s \<and> q = st_Orders s
     else if balance (st_Balances s) (tx_addr tx) (pairBase (tx_pair tx)) < tx_amount tx
     then txo_Code out = 2 \<and> b = st_Balances s \<and> q = st_Orders s
     else txo_Code out = 0 \<and> txo_Data out = PutUint64 (of_nat (length (elems (st_Orders s)))) \<and>
       q = Some (elems (st_Orders s) @ [\<lparr>or_Owner = take 20 (drop 1 tx), or_Pair = tx_pair tx,
             or_Amount = tx_amount tx, or_Price = tx_price tx\<rparr>]) \<and>
       (\<forall>a d. int (unat (balance b a d)) = int (unat (balance (st_Balances s) a d)) -
          (if a = tx_addr tx \<and> d = pairBase (tx_pair tx) then int (unat (tx_amount tx)) else 0)))"
proof (cases "length tx < 38 \<or> tx_amount tx = 0 \<or> tx_price tx = 0 \<or>
    balance (st_Balances s) (tx_addr tx) (pairBase (tx_pair tx)) < tx_amount tx")
  case True
  let ?c = "if length tx < 38 \<or> tx_amount tx = 0 \<or> tx_price tx = 0 then 1 else 2"
  obtain m where m: "executeLimitOrder s i tx = Ret (failed i ?c m, [], s)"
    using limit_order_refused [OF True] by blast
  then show ?thesis using True
    by (intro exI [of _ "failed i ?c m"] exI [of _ "st_Balances s"] exI [of _ "st_Orders s"]) auto
next
  case False
  then have le: "tx_amount tx \<le> balance (st_Balances s) (tx_addr tx) (pairBase (tx_pair tx))" by (simp add: not_less)
  then have "int (unat (balance (st_Balances s) (tx_addr tx) (pairBase (tx_pair tx)) - tx_amount tx)) =
      int (unat (balance (st_Balances s) (tx_addr tx) (pairBase (tx_pair tx)))) - int (unat (tx_amount tx))"
    by (simp add: unat_sub_at word_le_nat_alt of_nat_diff)
  moreover have go: "38 \<le> length tx" "tx_amount tx \<noteq> 0" "tx_price tx \<noteq> 0" using False by auto
  obtain out b where "executeLimitOrder s i tx = Ret (out, [], s\<lparr>st_Balances := b,
        st_Orders := Some (elems (st_Orders s) @ [\<lparr>or_Owner = take 20 (drop 1 tx), or_Pair = tx_pair tx,
          or_Amount = tx_amount tx, or_Price = tx_price tx\<rparr>])\<rparr>)" "txo_Code out = 0"
    "txo_Data out = PutUint64 (of_nat (length (elems (st_Orders s))))"
    "\<And>a d. balance b a d = (if a = tx_addr tx \<and> d = pairBase (tx_pair tx)
       then balance (st_Balances s) a d - tx_amount tx else balance (st_Balances s) a d)"
    by (rule limit_order_run [OF assms go le, of i]) blast
  ultimately show ?thesis using False by (intro exI [of _ out] exI [of _ b] exI) auto
qed

theorem limit_order_spec_witness:
  "\<exists>out b q. executeLimitOrder full_state 0 (LimitOrderTx (TestAddress 1) 5 200 ''ETH/USD'') =
      Ret (out, [], full_state\<lparr>st_Balances := b, st_Orders := q\<rparr>) \<and> txo_Code out = 0 \<and> length (elems q) = 1"
proof -
  have "\<not> (- 1 :: u64) < 5" by simp
  then show ?thesis
    using limit_order_spec [OF full_state(1), of 0 "LimitOrderTx (TestAddress 1) 5 200 ''ETH/USD''"] full_state(2)
    by (auto simp: LimitOrderTx_fields elems_def) (auto simp: full_state_def newState_def)
qed

text \<open>
  C28. On a state whose maps are all there, as after \<open>clone\<close>, executing any byte string as a
  transaction returns (no panic), keeps the maps there, carries the given index, and leaves
  the state untouched and emits nothing when the outcome is a failure.
\<close>

theorem executeTx_atomic:
  assumes "state_ok s"
  shows "\<exists>out evs s'. executeTx s i tx = Ret (out, evs, s') \<and> state_ok s' \<and> txo_Index out = i \<and>
     (\<not> TxOutcome_OK out \<longrightarrow> s' = s \<and> evs = [])"
  using tx_ok_executeTx [OF assms, of i tx] by (auto simp: tx_ok_def TxOutcome_OK_def)

theorem executeTx_atomic_witness:
  "\<exists>out evs s'. executeTx full_state 7 [TxWithdraw, 1, 2, 3] = Ret (out, evs, s') \<and> state_ok s' \<and> txo_Index out = 7 \<and>
     (\<not> TxOutcome_OK out \<longrightarrow> s' = full_state \<and> evs = [])"
  by (rule executeTx_atomic [OF full_state(1)])

end
