(* ===== verification/Json_Roundtrip.thy ===== *)
theory Json_Roundtrip
  imports Json
begin

text \<open>
  What \<^verbatim>\<open>encoding/json\<close> writes, it reads back: the scanner run on the printed form of a
  well-formed tree gives the tree, \<open>unquote\<close> undoes \<open>quote\<close> on valid UTF-8, and what
  \<open>unquote\<close> gives is always valid UTF-8. The scanner's part is by induction on the tree,
  generalised to an arbitrary stack of open containers and whatever text follows.
\<close>

section \<open>Well-formed trees\<close>

text \<open>What the scanner accepts between quotes, and the numbers \<open>json.Marshal\<close> writes.\<close>

fun raw_ok :: "string \<Rightarrow> bool" where
  "raw_ok [] = True"
| "raw_ok (c # cs) =
     (if c = CHR 0x5C then
        (case cs of
           [] \<Rightarrow> False
         | d # ds \<Rightarrow>
             if d = CHR ''u'' then
               (case ds of
                  w # x # y # z # rest \<Rightarrow>
                    hex_val w \<noteq> None \<and> hex_val x \<noteq> None \<and> hex_val y \<noteq> None \<and> hex_val z \<noteq> None \<and> raw_ok rest
                | _ \<Rightarrow> False)
             else d \<in> {CHR ''b'', CHR ''f'', CHR ''n'', CHR ''r'', CHR ''t'', CHR 0x5C, CHR ''/'', CHR 0x22} \<and> raw_ok ds)
      else c \<noteq> CHR 0x22 \<and> \<not> code c < 0x20 \<and> raw_ok cs)"

definition num_ok :: "string \<Rightarrow> bool" where
  "num_ok s \<longleftrightarrow> s \<noteq> [] \<and> list_all is_digit s \<and> (hd s = CHR ''0'' \<longrightarrow> tl s = [])"

fun wf_json :: "nat \<Rightarrow> json \<Rightarrow> bool" where
  "wf_json n JNull = True"
| "wf_json n (JBool b) = True"
| "wf_json n (JNum s) = num_ok s"
| "wf_json n (JStr s) = raw_ok s"
| "wf_json n (JArr js) = (0 < n \<and> (\<forall>j\<in>set js. wf_json (n - 1) j))"
| "wf_json n (JObj ps) = (0 < n \<and> (\<forall>p\<in>set ps. raw_ok (fst p) \<and> wf_json (n - 1) (snd p)))"

section \<open>Scanning what was printed\<close>

definition resume :: "string + scan \<Rightarrow> string \<Rightarrow> string + scan" where
  "resume r s = (case r of Inl e \<Rightarrow> Inl e | Inr sc \<Rightarrow> scan_all sc s)"

lemma scan_all_Cons: "scan_all sc (c # cs) = resume (scan_step sc c) cs"
  by (simp add: resume_def)

lemma resume_Inr [simp]: "resume (Inr sc) s = scan_all sc s"
  by (simp add: resume_def)

lemma scan_raw:
  "raw_ok k \<Longrightarrow> scan_all (Scan (MString acc) st cur) (k @ CHR 0x22 # rest) =
     scan_all (Scan MEndValue st (JStr (rev acc @ k))) rest"
proof (induction k arbitrary: acc rule: raw_ok.induct)
  case 1
  then show ?case by simp
next
  case (2 c cs)
  show ?case
  proof (cases "c = CHR 0x5C")
    case False
    then show ?thesis using 2 by (auto)
  next
    case True
    then obtain d ds where cs: "cs = d # ds" using 2 by (cases cs) auto
    show ?thesis
    proof (cases "d = CHR ''u''")
      case False
      have "scan_all (Scan (MString (d # CHR 0x5C # acc)) st cur) (ds @ CHR 0x22 # rest) =
         scan_all (Scan MEndValue st (JStr (rev (d # CHR 0x5C # acc) @ ds))) rest"
        using 2 True cs False by auto
      then show ?thesis using 2 True cs False by auto
    next
      case u: True
      obtain w x y z r where ds: "ds = w # x # y # z # r"
        using 2 True cs u by (auto split: list.splits)
      have "scan_all (Scan (MString (z # y # x # w # CHR ''u'' # CHR 0x5C # acc)) st cur) (r @ CHR 0x22 # rest) =
         scan_all (Scan MEndValue st (JStr (rev (z # y # x # w # CHR ''u'' # CHR 0x5C # acc) @ r))) rest"
        using 2 True cs u ds by auto
      then show ?thesis using 2 True cs u ds by (auto simp: eval_nat_numeral)
    qed
  qed
qed

definition delim :: "char \<Rightarrow> bool" where
  "delim c \<longleftrightarrow> c = CHR '','' \<or> c = CHR '']'' \<or> c = CHR ''}''"

lemma delim_simps: "delim c \<Longrightarrow> \<not> is_digit c \<and> c \<noteq> CHR ''.'' \<and> c \<noteq> CHR ''e'' \<and> c \<noteq> CHR ''E'' \<and> \<not> is_space c"
  by (auto simp: delim_def is_digit_def is_space_def)

lemma scan_digits:
  "list_all is_digit ds \<Longrightarrow> delim c \<Longrightarrow>
   scan_all (Scan (M1 acc) st cur) (ds @ c # rest) = resume (end_value st (JNum (rev acc @ ds)) c) rest"
proof (induction ds arbitrary: acc)
  case Nil
  then show ?case using delim_simps [of c] by (simp add: resume_def after_int_def)
next
  case (Cons d ds)
  then show ?case by simp
qed

lemma digit_not: "is_digit d \<Longrightarrow> \<not> is_space d \<and> d \<noteq> CHR ''{'' \<and> d \<noteq> CHR ''['' \<and> d \<noteq> CHR 0x22 \<and> d \<noteq> CHR ''-'' \<and>
   d \<noteq> CHR ''t'' \<and> d \<noteq> CHR ''f'' \<and> d \<noteq> CHR ''n'' \<and> d \<noteq> CHR '']''"
  by (auto simp: is_digit_def is_space_def)

lemma scan_num:
  assumes "num_ok s" and "delim c"
  shows "scan_all (Scan MBeginValue st cur) (s @ c # rest) = resume (end_value st (JNum s) c) rest"
proof -
  obtain d ds where s: "s = d # ds" "is_digit d" "list_all is_digit ds" "d = CHR ''0'' \<longrightarrow> ds = []"
    using assms(1) by (cases s) (auto simp: num_ok_def)
  show ?thesis
  proof (cases "d = CHR ''0''")
    case True
    then show ?thesis using s delim_simps [OF assms(2)]
      by (simp add: begin_value_def is_space_def after_int_def resume_def)
  next
    case False
    have "scan_step (Scan MBeginValue st cur) d = Inr (Scan (M1 [d]) st cur)"
      using s(2) False digit_not [OF s(2)] by (simp add: begin_value_def)
    then show ?thesis using s scan_digits [of ds c "[d]" st cur rest] assms(2) by (simp add: scan_all_Cons del: scan_all.simps)
  qed
qed

text \<open>A value never starts with a space or a closing bracket.\<close>

lemma print_head:
  assumes "wf_json n j"
  obtains a as where "print_json j = a # as" and "\<not> is_space a" and "a \<noteq> CHR '']''"
proof (cases j)
  case (JNum s)
  then obtain d ds where "s = d # ds" "is_digit d" using assms by (cases s) (auto simp: num_ok_def)
  then show ?thesis using that [of d ds] JNum digit_not [of d] by simp
next
  case (JBool b)
  then show ?thesis using that by (cases b) (auto simp: is_space_def)
qed (use that in \<open>auto simp: is_space_def\<close>)

lemma scan_or_empty:
  assumes "wf_json n j"
  shows "scan_all (Scan MBeginValueOrEmpty st cur) (print_json j @ rest) =
     scan_all (Scan MBeginValue st cur) (print_json j @ rest)"
proof -
  obtain a as where "print_json j = a # as" "\<not> is_space a" "a \<noteq> CHR '']''" by (rule print_head [OF assms])
  then show ?thesis by simp
qed

text \<open>
  The statement for one value inside a container: scanning its text and the delimiter after
  it is what ends the value there.
\<close>

definition scans :: "nat \<Rightarrow> json \<Rightarrow> bool" where
  "scans n j \<longleftrightarrow> (\<forall>st cur c rest. st \<noteq> [] \<and> length st + n \<le> max_depth \<and> delim c \<longrightarrow>
     scan_all (Scan MBeginValue st cur) (print_json j @ c # rest) = resume (end_value st j c) rest)"

lemma scansD:
  "scans n j \<Longrightarrow> st \<noteq> [] \<Longrightarrow> length st + n \<le> max_depth \<Longrightarrow> delim c \<Longrightarrow>
   scan_all (Scan MBeginValue st cur) (print_json j @ c # rest) = resume (end_value st j c) rest"
  by (simp add: scans_def)

lemma end_value_arr [simp]:
  "end_value (FArr vs # st) j (CHR '','') = Inr (Scan MBeginValue (FArr (j # vs) # st) j)"
  "end_value (FArr vs # st) j (CHR '']'') = Inr (pop (JArr (rev vs @ [j])) st)"
  by (simp_all add: end_value_def is_space_def)

lemma end_value_obj [simp]:
  "end_value (FVal ps k # st) j (CHR '','') = Inr (Scan MBeginString (FKey ((k, j) # ps) # st) j)"
  "end_value (FVal ps k # st) j (CHR ''}'') = Inr (pop (JObj (rev ps @ [(k, j)])) st)"
  "end_value (FKey ps # st) (JStr k) (CHR '':'') = Inr (Scan MBeginValue (FVal ps k # st) (JStr k))"
  by (simp_all add: end_value_def is_space_def)

lemma delims [simp]: "delim (CHR '','')" "delim (CHR '']'')" "delim (CHR ''}'')"
  by (simp_all add: delim_def)

lemma scan_elems:
  assumes "\<forall>x\<in>set (j # js). scans n x" and "Suc (length st) + n \<le> max_depth"
  shows "scan_all (Scan MBeginValue (FArr vs # st) cur) (join '','' (map print_json (j # js)) @ CHR '']'' # rest) =
     scan_all (pop (JArr (rev vs @ j # js)) st) rest"
  using assms(1)
proof (induction js arbitrary: j vs cur)
  case Nil
  then show ?case using scansD [of n j "FArr vs # st" "CHR '']''" cur rest] assms(2) by simp
next
  case (Cons k js)
  let ?r = "join '','' (map print_json (k # js)) @ CHR '']'' # rest"
  have "scan_all (Scan MBeginValue (FArr vs # st) cur) (print_json j @ CHR '','' # ?r) =
      scan_all (Scan MBeginValue (FArr (j # vs) # st) j) ?r"
    using scansD [of n j "FArr vs # st" "CHR '',''" cur ?r] Cons.prems assms(2) by simp
  then show ?case using Cons.IH [of k "j # vs" j] Cons.prems by simp
qed

lemma scan_key:
  assumes "raw_ok k"
  shows "scan_all (Scan MBeginString (FKey ps # st) cur) (CHR 0x22 # k @ CHR 0x22 # CHR '':'' # rest) =
     scan_all (Scan MBeginValue (FVal ps k # st) (JStr k)) rest"
  using scan_raw [OF assms, of "[]"] by (simp add: begin_string_def is_space_def)

abbreviation print_field :: "string \<times> json \<Rightarrow> string" where
  "print_field p \<equiv> (case p of (k, j) \<Rightarrow> [CHR 0x22] @ k @ [CHR 0x22] @ '':'' @ print_json j)"

lemma scan_fields:
  assumes "\<forall>x\<in>set (p # qs). raw_ok (fst x) \<and> scans n (snd x)" and "Suc (length st) + n \<le> max_depth"
  shows "scan_all (Scan MBeginString (FKey ps # st) cur) (join '','' (map print_field (p # qs)) @ CHR ''}'' # rest) =
     scan_all (pop (JObj (rev ps @ p # qs)) st) rest"
  using assms(1)
proof (induction qs arbitrary: p ps cur)
  case Nil
  obtain k j where p: "p = (k, j)" by force
  show ?case
    using scan_key [of k ps st cur "print_json j @ CHR ''}'' # rest"]
      scansD [of n j "FVal ps k # st" "CHR ''}''" "JStr k" rest] Nil assms(2) p by simp
next
  case (Cons q qs)
  obtain k j where p: "p = (k, j)" by force
  let ?r = "join '','' (map print_field (q # qs)) @ CHR ''}'' # rest"
  have "scan_all (Scan MBeginString (FKey ps # st) cur) (CHR 0x22 # k @ CHR 0x22 # CHR '':'' # print_json j @ CHR '','' # ?r) =
      scan_all (Scan MBeginString (FKey ((k, j) # ps) # st) j) ?r"
    using scan_key [of k ps st cur "print_json j @ CHR '','' # ?r"]
      scansD [of n j "FVal ps k # st" "CHR '',''" "JStr k" ?r] Cons.prems assms(2) p by simp
  then show ?case using Cons.IH [of q "(k, j) # ps" j] Cons.prems p by simp
qed

lemma scan_array:
  assumes "\<forall>x\<in>set js. wf_json n x \<and> scans n x" and "Suc (length st) + n \<le> max_depth"
  shows "scan_all (Scan MBeginValue st cur) (print_json (JArr js) @ rest) = scan_all (pop (JArr js) st) rest"
proof (cases js)
  case Nil
  then show ?thesis using assms(2) by (simp add: begin_value_def is_space_def push_def)
next
  case (Cons k ks)
  let ?r = "join '','' (map print_json (k # ks)) @ CHR '']'' # rest"
  have "scan_all (Scan MBeginValue st cur) (CHR ''['' # ?r) = scan_all (Scan MBeginValueOrEmpty (FArr [] # st) cur) ?r"
    using assms(2) by (simp add: begin_value_def is_space_def push_def)
  also have "\<dots> = scan_all (Scan MBeginValue (FArr [] # st) cur) ?r"
    using scan_or_empty [of n k] assms(1) Cons by (cases ks) auto
  also have "\<dots> = scan_all (pop (JArr (k # ks)) st) rest"
    using scan_elems [of k ks n st "[]" cur rest] assms Cons by simp
  finally show ?thesis using Cons by simp
qed

lemma scan_object:
  assumes "\<forall>x\<in>set ps. raw_ok (fst x) \<and> scans n (snd x)" and "Suc (length st) + n \<le> max_depth"
  shows "scan_all (Scan MBeginValue st cur) (print_json (JObj ps) @ rest) = scan_all (pop (JObj ps) st) rest"
proof (cases ps)
  case Nil
  then show ?thesis using assms(2) by (simp add: begin_value_def is_space_def push_def)
next
  case (Cons q qs)
  let ?r = "join '','' (map print_field (q # qs)) @ CHR ''}'' # rest"
  have hd: "\<exists>as. ?r = CHR 0x22 # as" by (cases qs; cases q) auto
  have "scan_all (Scan MBeginValue st cur) (CHR ''{'' # ?r) = scan_all (Scan MBeginStringOrEmpty (FKey [] # st) cur) ?r"
    using assms(2) by (simp add: begin_value_def is_space_def push_def)
  also have "\<dots> = scan_all (Scan MBeginString (FKey [] # st) cur) ?r"
    using hd by (auto simp: is_space_def)
  also have "\<dots> = scan_all (pop (JObj (q # qs)) st) rest"
    using scan_fields [of q qs n st "[]" cur rest] assms Cons by simp
  finally show ?thesis using Cons by simp
qed

lemma pop_inside: "st \<noteq> [] \<Longrightarrow> scan_all (pop j st) (c # rest) = resume (end_value st j c) rest"
  by (simp add: pop_def resume_def)

lemma scans_wf: "wf_json n j \<Longrightarrow> scans n j"
proof (induction j arbitrary: n rule: print_json.induct)
  case 1
  show ?case by (auto simp: scans_def begin_value_def is_space_def resume_def)
next
  case (2 b)
  show ?case by (cases b) (auto simp: scans_def begin_value_def is_space_def resume_def)
next
  case (3 s)
  then show ?case using scan_num by (auto simp: scans_def)
next
  case (4 s)
  then show ?case using scan_raw [of s "[]"] by (auto simp: scans_def begin_value_def is_space_def resume_def)
next
  case (5 js)
  have "\<forall>x\<in>set js. wf_json (n - 1) x \<and> scans (n - 1) x" using 5 by auto
  note inner = scan_array [OF this, THEN trans, OF _ pop_inside]
  show ?case unfolding scans_def by (intro allI impI inner) (use 5(2) in auto)
next
  case (6 ps)
  have "\<forall>x\<in>set ps. raw_ok (fst x) \<and> scans (n - 1) (snd x)" using 6 by fastforce
  note inner = scan_object [OF this, THEN trans, OF _ pop_inside]
  show ?case unfolding scans_def by (intro allI impI inner) (use 6(2) in auto)
qed

lemma parse_print_container:
  assumes "wf_json n j" and "n \<le> max_depth" and "(\<exists>js. j = JArr js) \<or> (\<exists>ps. j = JObj ps)"
  shows "parse_json (print_json j) = Inr j"
proof -
  have "scan_all (Scan MBeginValue [] JNull) (print_json j @ []) = scan_all (pop j []) []"
  proof (cases j)
    case (JArr js)
    have "\<forall>x\<in>set js. wf_json (n - 1) x \<and> scans (n - 1) x" using assms(1) JArr scans_wf by auto
    moreover have "Suc (length ([] :: frame list)) + (n - 1) \<le> max_depth" using assms(1,2) JArr by auto
    ultimately show ?thesis using scan_array [of js "n - 1" "[]"] JArr by blast
  next
    case (JObj ps)
    have "\<forall>x\<in>set ps. raw_ok (fst x) \<and> scans (n - 1) (snd x)" using assms(1) JObj scans_wf by auto
    moreover have "Suc (length ([] :: frame list)) + (n - 1) \<le> max_depth" using assms(1,2) JObj by auto
    ultimately show ?thesis using scan_object [of ps "n - 1" "[]"] JObj by blast
  qed (use assms(3) in auto)
  then show ?thesis by (simp add: parse_json_def pop_def scan_eof_def)
qed

lemma parse_null: "parse_json ''null'' = Inr JNull"
  by (simp add: parse_json_def begin_value_def is_space_def scan_eof_def end_value_def end_top_def)

section \<open>Strings\<close>

lemma hex_val_hex_char [simp]: "n < 16 \<Longrightarrow> hex_val (hex_char n) = Some n"
  by (simp add: hex_val_def Let_def of_char_hex_char)

lemma hex_val_digits [simp]:
  "hex_val (CHR ''0'') = Some 0" "hex_val (CHR ''2'') = Some 2" "hex_val (CHR ''d'') = Some 13"
  "hex_val (CHR ''f'') = Some 15"
  by (simp_all add: hex_val_def Let_def)

lemma raw_ok_high: "list_all (\<lambda>c. 0x80 \<le> code c) cs \<Longrightarrow> raw_ok r \<Longrightarrow> raw_ok (cs @ r)"
  by (induction cs) auto

lemma raw_ok_quote_ascii:
  assumes "code c < 0x80" and "raw_ok r"
  shows "raw_ok (quote_ascii c @ r)"
proof -
  have "code c div 16 < 16" using assms by auto
  then show ?thesis using assms by (auto simp: quote_ascii_def esc_def)
qed

text \<open>The shapes of a well-formed sequence.\<close>

lemma rune_sizeE:
  assumes "rune_size s \<noteq> 0"
  obtains (one) c r where "s = c # r" "code c < 0x80" "rune_size s = 1"
  | (two) c0 c1 r where "s = c0 # c1 # r" "0xC2 \<le> code c0" "code c0 \<le> 0xDF" "cont c1" "rune_size s = 2"
  | (three) c0 c1 c2 r where "s = c0 # c1 # c2 # r" "0xE0 \<le> code c0" "code c0 \<le> 0xEF" "cont c1" "cont c2"
      "if code c0 = 0xE0 then 0xA0 \<le> code c1 else if code c0 = 0xED then code c1 \<le> 0x9F else True" "rune_size s = 3"
  | (four) c0 c1 c2 c3 r where "s = c0 # c1 # c2 # c3 # r" "0xF0 \<le> code c0" "code c0 \<le> 0xF4" "cont c1" "cont c2" "cont c3"
      "if code c0 = 0xF0 then 0x90 \<le> code c1 else if code c0 = 0xF4 then code c1 \<le> 0x8F else True" "rune_size s = 4"
proof -
  obtain c0 s1 where s: "s = c0 # s1" using assms by (cases s) (auto simp: rune_size_def)
  show ?thesis
  proof (cases "code c0 < 0x80")
    case True
    then show ?thesis using one s by (simp add: rune_size_def Let_def)
  next
    case big: False
    then obtain c1 s2 where s1: "s1 = c1 # s2" using assms s by (cases s1) (auto simp: rune_size_def Let_def)
    show ?thesis
    proof (cases "0xC2 \<le> code c0 \<and> code c0 \<le> 0xDF")
      case True
      then show ?thesis using two assms s s1 big by (simp add: rune_size_def Let_def split: if_splits)
    next
      case not2: False
      then obtain c2 s3 where s2: "s2 = c2 # s3" using assms s s1 big
        by (cases s2) (auto simp: rune_size_def Let_def)
      show ?thesis
      proof (cases "0xE0 \<le> code c0 \<and> code c0 \<le> 0xEF")
        case True
        then show ?thesis using three [of c0 c1 c2 s3] assms s s1 s2 big not2
          by (auto simp: rune_size_def Let_def cont_def split: if_splits)
      next
        case not3: False
        then obtain c3 s4 where s3: "s3 = c3 # s4" using assms s s1 s2 big not2
          by (cases s3) (auto simp: rune_size_def Let_def)
        show ?thesis using four [of c0 c1 c2 c3 s4] assms s s1 s2 s3 big not2 not3
          by (auto simp: rune_size_def Let_def cont_def split: if_splits)
      qed
    qed
  qed
qed

lemma rune_size_high:
  assumes "rune_size s \<noteq> 0" and "\<not> code (hd s) < 0x80"
  shows "list_all (\<lambda>c. 0x80 \<le> code c) (take (rune_size s) s)"
  using assms by (cases rule: rune_sizeE) (auto simp: cont_def eval_nat_numeral)

lemma rune_size_prefix:
  assumes "rune_size s \<noteq> 0"
  shows "rune_size (take (rune_size s) s @ t) = rune_size s"
  using assms by (cases rule: rune_sizeE) (auto simp: rune_size_def Let_def cont_def eval_nat_numeral)

lemma rune_size_le: "rune_size s \<le> length s"
proof (cases "rune_size s = 0")
  case False
  then show ?thesis by (cases rule: rune_sizeE) auto
qed simp

lemma quote_Cons:
  "quote (c # cs) =
     (if code c < 0x80 then quote_ascii c @ quote cs
      else if rune_size (c # cs) = 0 then esc (CHR ''u'') @ ''fffd'' @ quote cs
      else if take 3 (c # cs) = map char_of [0xE2, 0x80, 0xA8 :: nat] \<or>
              take 3 (c # cs) = map char_of [0xE2, 0x80, 0xA9 :: nat] then
        esc (CHR ''u'') @ ''202'' @ [hex_char (code ((c # cs) ! 2) mod 16)] @ quote (drop 3 (c # cs))
      else take (rune_size (c # cs)) (c # cs) @ quote (drop (rune_size (c # cs)) (c # cs)))"
  by (subst quote.simps) simp

lemma quote_Nil [simp]: "quote [] = []"
  by (simp add: quote.simps)

lemma raw_ok_esc_u: "w < 16 \<Longrightarrow> x < 16 \<Longrightarrow> y < 16 \<Longrightarrow> z < 16 \<Longrightarrow> raw_ok r \<Longrightarrow>
   raw_ok (CHR 0x5C # CHR ''u'' # hex_char w # hex_char x # hex_char y # hex_char z # r)"
  by simp

lemma raw_ok_quote: "raw_ok (quote s)"
proof (induction s rule: length_induct)
  case (1 s)
  show ?case
  proof (cases s)
    case (Cons c cs)
    have ih: "raw_ok (quote t)" if "length t < length s" for t using 1 that by blast
    consider "code c < 0x80" | "\<not> code c < 0x80" "rune_size (c # cs) = 0"
      | "\<not> code c < 0x80" "rune_size (c # cs) \<noteq> 0" by blast
    then show ?thesis
    proof cases
      case 1
      then show ?thesis using ih [of cs] Cons by (simp add: quote_Cons raw_ok_quote_ascii)
    next
      case 2
      then show ?thesis using ih [of cs] Cons by (simp add: quote_Cons esc_def)
    next
      case 3
      have "raw_ok (take (rune_size (c # cs)) (c # cs) @ quote (drop (rune_size (c # cs)) (c # cs)))"
        using 3 ih [of "drop (rune_size (c # cs)) (c # cs)"] Cons rune_size_high [of "c # cs"]
        by (intro raw_ok_high) auto
      moreover have "raw_ok (quote (drop 3 (c # cs)))" using ih [of "drop 3 (c # cs)"] Cons by simp
      ultimately show ?thesis using 3 Cons by (simp add: quote_Cons esc_def)
    qed
  qed simp
qed


text \<open>Reading back what was written.\<close>

lemma unquote_Nil [simp]: "unquote [] = Some []"
  by (simp add: unquote.simps)

lemma unquote_plain:
  "code c < 0x80 \<Longrightarrow> \<not> code c < 0x20 \<Longrightarrow> c \<noteq> CHR 0x22 \<Longrightarrow> c \<noteq> CHR 0x5C \<Longrightarrow>
   unquote (c # cs) = map_option (\<lambda>t. c # t) (unquote cs)"
  by (subst unquote.simps) simp

lemma unquote_simple:
  "d \<noteq> CHR ''u'' \<Longrightarrow> simple_escape d = Some e \<Longrightarrow>
   unquote (CHR 0x5C # d # ds) = map_option (\<lambda>t. e # t) (unquote ds)"
  by (subst unquote.simps) simp

lemma unquote_u:
  assumes "getu4 (CHR 0x5C # CHR ''u'' # w # x # y # z # rest) = Some r" and "r < 0xD800"
  shows "unquote (CHR 0x5C # CHR ''u'' # w # x # y # z # rest) =
     map_option (\<lambda>t. encode_rune r @ t) (unquote rest)"
  using assms by (subst unquote.simps) simp

lemma unquote_rune:
  assumes "rune_size s \<noteq> 0" and "\<not> code (hd s) < 0x80"
  shows "unquote s = map_option (\<lambda>t. take (rune_size s) s @ t) (unquote (drop (rune_size s) s))"
proof (cases s)
  case (Cons c r)
  have "c \<noteq> CHR 0x5C" "c \<noteq> CHR 0x22" "\<not> code c < 0x20" using assms(2) Cons by auto
  then show ?thesis using assms Cons by (subst unquote.simps) simp
qed (use assms(1) in \<open>simp add: rune_size_def\<close>)

lemma unquote_quote_ascii:
  assumes "code c < 0x80"
  shows "unquote (quote_ascii c @ r) = map_option (\<lambda>t. c # t) (unquote r)"
proof -
  have h: "code c div 16 < 16" "code c div 16 * 16 + code c mod 16 = code c" using assms by auto
  have enc: "encode_rune (code c) = [c]" using assms by (simp add: encode_rune_def)
  show ?thesis using assms h enc unquote_u [of "CHR ''0''" "CHR ''0''" "hex_char (code c div 16)" "hex_char (code c mod 16)" r "code c"]
    by (auto simp: quote_ascii_def esc_def unquote_simple simple_escape_def unquote_plain getu4_def)
qed

lemma unquote_quote: "valid_utf8 s \<Longrightarrow> unquote (quote s) = Some s"
proof (induction s rule: length_induct)
  case (1 s)
  show ?case
  proof (cases s)
    case (Cons c cs)
    have size: "rune_size s \<noteq> 0" and rest: "valid_utf8 (drop (rune_size s) s)"
      using 1(2) Cons valid_utf8.simps [of s] by (auto split: if_splits)
    have ih: "unquote (quote (drop (rune_size s) s)) = Some (drop (rune_size s) s)"
      using 1(1) rest size Cons by auto
    show ?thesis
    proof (cases "code c < 0x80")
      case True
      then have "rune_size s = 1" using Cons by (simp add: rune_size_def Let_def)
      then show ?thesis using ih Cons True by (simp add: quote_Cons unquote_quote_ascii)
    next
      case False
      show ?thesis
      proof (cases "take 3 s = map char_of [0xE2, 0x80, 0xA8 :: nat] \<or> take 3 s = map char_of [0xE2, 0x80, 0xA9 :: nat]")
        case True
        then obtain d r where s: "s = char_of (0xE2 :: nat) # char_of (0x80 :: nat) # d # r" and d: "d = char_of (0xA8 :: nat) \<or> d = char_of (0xA9 :: nat)"
          using Cons by (cases cs; cases "tl cs") (auto simp: eval_nat_numeral)
        have n: "rune_size s = 3" using s d by (auto simp: rune_size_def Let_def cont_def)
        show ?thesis using ih True n s d False Cons
            unquote_u [of "CHR ''2''" "CHR ''0''" "CHR ''2''" "hex_char (code d mod 16)" "quote r" "0x2020 + code d mod 16"]
          by (auto simp: quote_Cons esc_def getu4_def encode_rune_def)
      next
        case no: False
        have "unquote (take (rune_size s) s @ quote (drop (rune_size s) s)) =
            map_option (\<lambda>t. take (rune_size s) s @ t) (unquote (quote (drop (rune_size s) s)))"
          using unquote_rune [of "take (rune_size s) s @ quote (drop (rune_size s) s)"] rune_size_prefix [OF size]
            size False Cons rune_size_le [of s] by (simp add: min_absorb1 hd_append)
        then show ?thesis using ih no size False Cons by (auto simp: quote_Cons)
      qed
    qed
  qed simp
qed

section \<open>Decoded strings are valid UTF-8\<close>

lemma valid_Nil [simp]: "valid_utf8 []"
  by (simp add: valid_utf8.simps)

lemma valid_rune:
  assumes "rune_size s \<noteq> 0" and "valid_utf8 t"
  shows "valid_utf8 (take (rune_size s) s @ t)"
proof -
  let ?s = "take (rune_size s) s @ t"
  have "rune_size ?s = rune_size s" using rune_size_prefix [OF assms(1)] .
  moreover have "drop (rune_size s) ?s = t" using rune_size_le [of s] by simp
  ultimately show ?thesis using assms valid_utf8.simps [of ?s] by simp
qed

lemma valid_whole: "rune_size s = length s \<Longrightarrow> valid_utf8 t \<Longrightarrow> valid_utf8 (s @ t)"
  using valid_rune [of s t] by (cases "s = []") auto

lemma valid_ascii: "code c < 0x80 \<Longrightarrow> valid_utf8 t \<Longrightarrow> valid_utf8 (c # t)"
  using valid_whole [of "[c]" t] by (simp add: rune_size_def Let_def)

lemma valid_rune_error: "valid_utf8 t \<Longrightarrow> valid_utf8 (rune_error @ t)"
  by (rule valid_whole) (simp add: rune_error_def rune_size_def Let_def cont_def)

lemma valid_encode_rune:
  assumes "valid_utf8 t"
  shows "valid_utf8 (encode_rune r @ t)"
proof -
  consider "r < 0x80" | "0x80 \<le> r" "r < 0x800" | "(0xD800 \<le> r \<and> r \<le> 0xDFFF) \<or> 0x10FFFF < r"
    | "0x800 \<le> r" "r < 0x10000" "r < 0xD800 \<or> 0xDFFF < r" | "0x10000 \<le> r" "r \<le> 0x10FFFF" by linarith
  then show ?thesis
  proof cases
    case 1
    then show ?thesis using assms valid_ascii [of "char_of r" t] by (simp add: encode_rune_def)
  next
    case 2
    have "2 \<le> r div 0x40" "r div 0x40 < 0x20" using 2 by auto
    then have "rune_size (encode_rune r) = length (encode_rune r)"
      using 2 by (simp add: encode_rune_def rune_size_def Let_def cont_def)
    then show ?thesis using valid_whole assms by blast
  next
    case 3
    then have "encode_rune r = rune_error" by (auto simp: encode_rune_def)
    then show ?thesis using valid_rune_error assms by simp
  next
    case 4
    have d: "r div 0x40 div 0x40 = r div 0x1000" by (simp add: div_mult2_eq [symmetric])
    have hi: "r div 0x1000 < 16" using 4 by auto
    have m: "r div 0x40 = r div 0x1000 * 0x40 + r div 0x40 mod 0x40"
      using d by (metis div_mult_mod_eq)
    have lo: "r div 0x1000 = 0 \<Longrightarrow> 0x20 \<le> r div 0x40 mod 0x40" using m 4 by auto
    have sur: "r div 0x1000 = 13 \<Longrightarrow> r div 0x40 mod 0x40 < 0x20" using m 4 by auto
    have "rune_size (encode_rune r) = length (encode_rune r)"
      using 4 hi lo sur by (auto simp: encode_rune_def rune_size_def Let_def cont_def)
    then show ?thesis using valid_whole assms by blast
  next
    case 5
    have d: "r div 0x1000 div 0x40 = r div 0x40000" by (simp add: div_mult2_eq [symmetric])
    have hi: "r div 0x40000 < 5" using 5 by auto
    have m: "r div 0x1000 = r div 0x40000 * 0x40 + r div 0x1000 mod 0x40"
      using d by (metis div_mult_mod_eq)
    have lo: "r div 0x40000 = 0 \<Longrightarrow> 0x10 \<le> r div 0x1000 mod 0x40" using m 5 by auto
    have top: "r div 0x40000 = 4 \<Longrightarrow> r div 0x1000 mod 0x40 < 0x10" using m 5 by auto
    have "rune_size (encode_rune r) = length (encode_rune r)"
      using 5 hi lo top by (auto simp: encode_rune_def rune_size_def Let_def cont_def)
    then show ?thesis using valid_whole assms by blast
  qed
qed

lemma simple_escape_ascii: "simple_escape d = Some e \<Longrightarrow> code e < 0x80"
  by (auto simp: simple_escape_def split: if_splits)

lemma unquote_lone: "unquote [CHR 0x5C] = None"
  by (subst unquote.simps) simp

lemma unquote_u_step:
  assumes "unquote s = Some t" and s: "s = CHR 0x5C # CHR ''u'' # ds"
  shows "\<exists>n t' x. 0 < n \<and> unquote (drop n s) = Some t' \<and> t = x @ t' \<and> (x = rune_error \<or> (\<exists>r. x = encode_rune r))"
proof -
  have step: "\<exists>n t' x. 0 < n \<and> unquote (drop n s) = Some t' \<and> t = x @ t' \<and> (x = rune_error \<or> (\<exists>r. x = encode_rune r))"
    if "map_option (\<lambda>t. x @ t) (unquote (drop n s)) = Some t" "0 < n" "x = rune_error \<or> (\<exists>r. x = encode_rune r)" for n x
    using that by auto
  have eq: "unquote s = (case getu4 s of
      None \<Rightarrow> None
    | Some r \<Rightarrow>
        if 0xD800 \<le> r \<and> r < 0xE000 then
          (case getu4 (drop 6 s) of
             Some r1 \<Rightarrow>
               if r < 0xDC00 \<and> 0xDC00 \<le> r1 \<and> r1 < 0xE000 then
                 map_option (\<lambda>t. encode_rune ((r - 0xD800) * 0x400 + (r1 - 0xDC00) + 0x10000) @ t) (unquote (drop 12 s))
               else map_option (\<lambda>t. rune_error @ t) (unquote (drop 6 s))
           | None \<Rightarrow> map_option (\<lambda>t. rune_error @ t) (unquote (drop 6 s)))
        else map_option (\<lambda>t. encode_rune r @ t) (unquote (drop 6 s)))"
    unfolding s by (subst unquote.simps) (simp only: list.case if_True HOL.simp_thms)
  obtain r where r: "getu4 s = Some r" using assms(1) eq by (cases "getu4 s") auto
  show ?thesis
  proof (cases "0xD800 \<le> r \<and> r < 0xE000")
    case False
    then have "map_option (\<lambda>t. encode_rune r @ t) (unquote (drop 6 s)) = Some t" using assms(1) eq r by auto
    then show ?thesis by (rule step) auto
  next
    case True
    show ?thesis
    proof (cases "getu4 (drop 6 s)")
      case None
      then have "map_option (\<lambda>t. rune_error @ t) (unquote (drop 6 s)) = Some t" using assms(1) eq r True by auto
      then show ?thesis by (rule step) auto
    next
      case (Some r1)
      show ?thesis
      proof (cases "r < 0xDC00 \<and> 0xDC00 \<le> r1 \<and> r1 < 0xE000")
        case pair: True
        then have "map_option (\<lambda>t. encode_rune ((r - 0xD800) * 0x400 + (r1 - 0xDC00) + 0x10000) @ t) (unquote (drop 12 s)) = Some t"
          using assms(1) eq r True Some by auto
        then show ?thesis by (rule step) auto
      next
        case False
        then have "map_option (\<lambda>t. rune_error @ t) (unquote (drop 6 s)) = Some t" using assms(1) eq r True Some by auto
        then show ?thesis by (rule step) auto
      qed
    qed
  qed
qed

lemma unquote_valid: "unquote s = Some t \<Longrightarrow> valid_utf8 t"
proof (induction s arbitrary: t rule: length_induct)
  case (1 s)
  have ih: "valid_utf8 t'" if "length s' < length s" "unquote s' = Some t'" for s' t' using 1 that by blast
  show ?case
  proof (cases s)
    case Nil
    then show ?thesis using 1(2) by simp
  next
    case (Cons c cs)
    consider (plain) "c \<noteq> CHR 0x5C" | (esc) d ds where "c = CHR 0x5C" "cs = d # ds"
      using 1(2) Cons by (cases cs; cases "c = CHR 0x5C") (auto simp: unquote_lone)
    then show ?thesis
    proof cases
      case plain
      then consider t' where "unquote cs = Some t'" "t = c # t'" "code c < 0x80"
        | t' where "unquote cs = Some t'" "t = rune_error @ t'"
        | t' where "unquote (drop (rune_size s) s) = Some t'" "t = take (rune_size s) s @ t'" "rune_size s \<noteq> 0"
        using 1(2) Cons by (auto simp: unquote.simps [of "c # cs"] split: if_splits)
      then show ?thesis
        using ih [of cs] ih [of "drop (rune_size s) s"] Cons
        by cases (auto intro: valid_ascii valid_rune_error valid_rune)
    next
      case (esc d ds)
      show ?thesis
      proof (cases "d = CHR ''u''")
        case True
        then obtain n t' x where "0 < n" "unquote (drop n s) = Some t'" "t = x @ t'"
          "x = rune_error \<or> (\<exists>r. x = encode_rune r)"
          using unquote_u_step [OF 1(2), of ds] esc Cons by auto
        then show ?thesis using ih [of "drop n s" t'] Cons by (auto intro: valid_rune_error valid_encode_rune)
      next
        case False
        then obtain e where "simple_escape d = Some e"
          using 1(2) esc Cons unquote.simps [of s] by (auto split: option.splits)
        then show ?thesis using 1(2) False esc Cons ih [of ds] unquote_simple [of d e ds]
          by (auto intro: valid_ascii simple_escape_ascii)
      qed
    qed
  qed
qed

end
