(* ===== verification/Dex_Codec.thy ===== *)
theory Dex_Codec
  imports Dex_State Json_Roundtrip
begin

text \<open>
  The JSON forms of \<^verbatim>\<open>example/dex/app.go\<close> read back: numbers, strings, prices, orders, the
  nested maps and whole states, each decoded from what was encoded.
\<close>

section \<open>Numbers\<close>

lemma dec_nat_digits: "list_all is_digit (dec_nat n)"
proof (induction n rule: dec_nat.induct)
  case (1 n)
  have "n < 10 \<Longrightarrow> is_digit (digit_char n)" "is_digit (digit_char (n mod 10))"
    by (simp_all add: is_digit_def digit)
  then show ?case using 1 by (subst dec_nat.simps) auto
qed

lemma dec_nat_nonempty [simp]: "dec_nat n \<noteq> []"
  by (subst dec_nat.simps) simp

lemma dec_nat_value: "foldl (\<lambda>n c. 10 * n + (code c - 48)) 0 (dec_nat n) = n"
proof (induction n rule: dec_nat.induct)
  case (1 n)
  show ?case
  proof (cases "n < 10")
    case False
    then show ?thesis using 1 by (subst dec_nat.simps) (simp add: digit)
  qed (subst dec_nat.simps, simp add: digit)
qed

lemma dec_nat_head: "hd (dec_nat n) = CHR ''0'' \<Longrightarrow> n = 0"
proof (induction n rule: dec_nat.induct)
  case (1 n)
  show ?case
  proof (cases "n < 10")
    case True
    then have "code (hd (dec_nat n)) = 48 + n" by (subst dec_nat.simps) (simp add: digit)
    then show ?thesis using 1(2) by simp
  next
    case False
    then have "hd (dec_nat n) = hd (dec_nat (n div 10))" by (subst dec_nat.simps) (simp add: hd_append)
    then show ?thesis using 1 False by (metis div_greater_zero_iff less_numeral_extra(3) not_less zero_less_numeral)
  qed
qed

lemma num_ok_dec: "num_ok (dec_nat n)"
proof -
  have "tl (dec_nat 0) = []" by (subst dec_nat.simps) simp
  then show ?thesis using dec_nat_digits [of n] dec_nat_head [of n] by (auto simp: num_ok_def)
qed

lemma ParseUint_dec: "n < 2 ^ 64 \<Longrightarrow> ParseUint (dec_nat n) = Some n"
  using dec_nat_digits [of n] dec_nat_value [of n] by (simp add: ParseUint_def Let_def)

section \<open>Decoding what was encoded\<close>

lemma decode_u64_json [simp]: "decode_u64 ctx cur (json_u64 v) = Inr v"
proof -
  have "unat v < 2 ^ LENGTH(64)" by (rule unsigned_less)
  then show ?thesis using ParseUint_dec [of "unat v"]
    by (simp add: decode_u64_def decode_uint_def json_u64_def)
qed

lemma decode_u8_json [simp]: "decode_uint 8 ty ctx cur (JNum (dec_nat (unat (b :: u8)))) = Inr b"
proof -
  have "unat b < 2 ^ 64" by (rule less_trans [OF unat_u8_less]) simp
  then show ?thesis using ParseUint_dec [of "unat b"] by (simp add: decode_uint_def)
qed

lemma decode_string_json [simp]: "valid_utf8 s \<Longrightarrow> decode_string ctx cur (json_string s) = Inr s"
  by (simp add: decode_string_def json_string_def unquoted_def unquote_quote)

lemma unquoted_quote [simp]: "valid_utf8 s \<Longrightarrow> unquoted (quote s) = Inr s"
  by (simp add: unquoted_def unquote_quote)

lemma unquoted_plain:
  "list_all (\<lambda>c. code c < 0x80 \<and> \<not> code c < 0x20 \<and> c \<noteq> CHR 0x22 \<and> c \<noteq> CHR 0x5C) s \<Longrightarrow> unquoted s = Inr s"
  by (induction s) (auto simp: unquoted_def unquote_plain split: option.splits)

lemma raw_ok_plain:
  "list_all (\<lambda>c. code c < 0x80 \<and> \<not> code c < 0x20 \<and> c \<noteq> CHR 0x22 \<and> c \<noteq> CHR 0x5C) s \<Longrightarrow> raw_ok s"
  by (induction s) auto

lemma field_names [simp]:
  "unquoted ''pair'' = Inr ''pair''" "unquoted ''price'' = Inr ''price''" "unquoted ''owner'' = Inr ''owner''"
  "unquoted ''amount'' = Inr ''amount''" "unquoted ''height'' = Inr ''height''"
  "unquoted ''balances'' = Inr ''balances''" "unquoted ''orders'' = Inr ''orders''" "unquoted ''prices'' = Inr ''prices''"
  by (simp_all add: unquoted_plain)

lemma field_names_ok [simp]:
  "raw_ok ''pair''" "raw_ok ''price''" "raw_ok ''owner''" "raw_ok ''amount''" "raw_ok ''height''"
  "raw_ok ''balances''" "raw_ok ''orders''" "raw_ok ''prices''"
  by (simp_all add: raw_ok_plain)

lemma decode_price_json: "valid_utf8 (op_Pair p) \<Longrightarrow> decode_OraclePrice ctx cur (json_OraclePrice p) = Inr p"
  by (simp add: decode_OraclePrice_def decode_struct_def json_OraclePrice_def lookup_field_def)

lemma decode_elems_map:
  assumes "\<And>x cur. x \<in> set xs \<Longrightarrow> dec cur (f x) = Inr x"
  shows "decode_elems dec zero bs (map f xs) = Inr xs"
  using assms by (induction xs arbitrary: bs) auto

lemma decode_address_json:
  assumes "length cur = 20" and "length a = 20"
  shows "decode_address ctx cur (JArr (map (\<lambda>b. JNum (dec_nat (unat b))) a)) = Inr a"
  using assms decode_elems_map [of a "decode_uint 8 ''uint8'' ctx" "\<lambda>b. JNum (dec_nat (unat b))" 0 cur]
  by (simp add: decode_address_def)

definition order_ok :: "Order \<Rightarrow> bool" where
  "order_ok r \<longleftrightarrow> is_address (or_Owner r) \<and> valid_utf8 (or_Pair r)"

lemma decode_order_json:
  "order_ok r \<Longrightarrow> length (or_Owner cur) = 20 \<Longrightarrow> decode_Order ctx cur (json_Order r) = Inr r"
  by (simp add: decode_Order_def decode_struct_def json_Order_def lookup_field_def order_ok_def is_address_def
      decode_address_json)

lemma decode_elems_fresh:
  assumes "\<And>x. x \<in> set xs \<Longrightarrow> dec zero (f x) = Inr x"
  shows "decode_elems dec zero [] (map f xs) = Inr xs"
  using assms by (induction xs) auto

lemma decode_slice_json:
  assumes "\<And>x. x \<in> set (elems q) \<Longrightarrow> dec ctx zero (f x) = Inr x"
  shows "map_decoded slice_of (decode_slice ty dec zero ctx None (json_slice f q)) = Inr q"
proof (cases q)
  case (Some xs)
  then show ?thesis using assms decode_elems_fresh [of xs "dec ctx" zero f]
    by (auto simp: decode_slice_def json_slice_def slice_of_def elems_def)
qed (simp add: decode_slice_def json_slice_def slice_of_def)

lemma fold_fields:
  assumes "\<forall>k\<in>set ks. valid_utf8 k \<and> (\<exists>v. gm_get m k = Some v \<and> dec ctx zero (f v) = Inr v)"
  shows "fold_err (\<lambda>(raw, v) fm.
      case unquoted raw of
        Inl e \<Rightarrow> Inl e
      | Inr key \<Rightarrow> map_decoded (\<lambda>x. fmupd key x fm) (dec ctx zero v))
    (map (\<lambda>k. (quote k, f (the (gm_get m k)))) ks) fm =
    Inr (fold (\<lambda>k c. case gm_get m k of None \<Rightarrow> c | Some v \<Rightarrow> fmupd k v c) ks fm)"
  using assms
proof (induction ks arbitrary: fm)
  case (Cons k ks)
  obtain v where v: "gm_get m k = Some v" "dec ctx zero (f v) = Inr v" using Cons.prems by auto
  show ?case using Cons.IH [of "fmupd k v fm"] Cons.prems v by simp
qed simp

lemma decode_map_json:
  assumes "gm_fmap cur = fmempty"
    and "\<And>k v. gm_get m k = Some v \<Longrightarrow> valid_utf8 k \<and> dec ctx zero (f v) = Inr v"
  shows "decode_map ty dec zero ctx cur (json_map f m) = Inr m"
proof (cases m)
  case (MkMap fm)
  have "\<forall>k\<in>set (gm_keys m). valid_utf8 k \<and> (\<exists>v. gm_get m k = Some v \<and> dec ctx zero (f v) = Inr v)"
    using assms(2) by (auto simp: in_gm_keys simp del: set_gm_keys)
  note fold = fold_fields [where fm = fmempty and dec = dec and ctx = ctx and zero = zero and f = f, OF this]
  have "MkMap (fold (\<lambda>k c. case gm_get m k of None \<Rightarrow> c | Some v \<Rightarrow> fmupd k v c) (gm_keys m) fmempty) = MkMap fm"
    using copy_map_eq [of "gm_keys m" m "\<lambda>v. v"] MkMap by (simp add: copy_map_def fmap.map_ident)
  then show ?thesis using assms(1) MkMap fold by (simp add: decode_map_def json_map_def)
qed (simp add: decode_map_def json_map_def)

text \<open>
  The states whose text is faithful: every string in them is valid UTF-8 (the encoder
  replaces other bytes), and every owner is twenty bytes long.
\<close>

definition amounts_ok :: "amounts \<Rightarrow> bool" where
  "amounts_ok m \<longleftrightarrow> (\<forall>k v. gm_get m k = Some v \<longrightarrow> valid_utf8 k)"

definition json_ok :: "state \<Rightarrow> bool" where
  "json_ok s \<longleftrightarrow> (\<forall>a m. gm_get (st_Balances s) a = Some m \<longrightarrow> valid_utf8 a \<and> amounts_ok m) \<and>
     amounts_ok (st_Prices s) \<and> (\<forall>r\<in>set (elems (st_Orders s)). order_ok r)"

lemma decode_amounts_json:
  "gm_fmap cur = fmempty \<Longrightarrow> amounts_ok m \<Longrightarrow> decode_amounts ctx cur (json_map json_u64 m) = Inr m"
  unfolding decode_amounts_def by (rule decode_map_json) (auto simp: amounts_ok_def)

lemma decode_balances_json:
  assumes "gm_fmap cur = fmempty" and "\<And>a m. gm_get b a = Some m \<Longrightarrow> valid_utf8 a \<and> amounts_ok m"
  shows "decode_balances ctx cur (json_map (json_map json_u64) b) = Inr b"
  unfolding decode_balances_def by (rule decode_map_json [OF assms(1)]) (use assms(2) in \<open>auto simp: decode_amounts_json\<close>)

lemma decode_state_json:
  assumes "json_ok s"
  shows "map_decoded fst (decode_state (newState, None) (json_state s)) = Inr s"
proof -
  have orders: "map_decoded slice_of (decode_slice ''[]dex.Order'' decode_Order zero_Order ctx None
      (json_slice json_Order (st_Orders s))) = Inr (st_Orders s)" for ctx
    by (rule decode_slice_json) (use assms in \<open>auto simp: json_ok_def decode_order_json zero_Order_def zero_address_def\<close>)
  obtain x where x: "decode_slice ''[]dex.Order'' decode_Order zero_Order (''state'', [''orders'']) None
      (json_slice json_Order (st_Orders s)) = Inr x" "slice_of x = st_Orders s"
    using orders [of "(''state'', [''orders''])"]
    by (cases "decode_slice ''[]dex.Order'' decode_Order zero_Order (''state'', [''orders'']) None
      (json_slice json_Order (st_Orders s))") auto
  have "amounts_ok (st_Prices s)" "\<And>a m. gm_get (st_Balances s) a = Some m \<Longrightarrow> valid_utf8 a \<and> amounts_ok m"
    using assms by (auto simp: json_ok_def)
  then show ?thesis using x
    by (simp add: decode_state_def decode_struct_def json_state_def lookup_field_def newState_def gm_make_def
        decode_amounts_json decode_balances_json)
qed

section \<open>The documents are well formed\<close>

lemma wf_u64 [simp]: "wf_json n (json_u64 v)"
  by (simp add: json_u64_def num_ok_dec)

lemma wf_string [simp]: "wf_json n (json_string s)"
  by (simp add: json_string_def raw_ok_quote)

lemma wf_map: "0 < n \<Longrightarrow> (\<And>v. wf_json (n - 1) (f v)) \<Longrightarrow> wf_json n (json_map f m)"
  by (cases m) (auto simp: json_map_def raw_ok_quote)

lemma wf_slice: "0 < n \<Longrightarrow> (\<And>v. wf_json (n - 1) (f v)) \<Longrightarrow> wf_json n (json_slice f q)"
  by (cases q) (auto simp: json_slice_def)

lemma wf_price: "0 < n \<Longrightarrow> wf_json n (json_OraclePrice p)"
  by (simp add: json_OraclePrice_def)

lemma wf_order: "wf_json 2 (json_Order r)"
  by (simp add: json_Order_def num_ok_dec)

lemma wf_state: "wf_json 4 (json_state s)"
proof -
  have "wf_json 3 (json_map (json_map json_u64) (st_Balances s))" by (intro wf_map) auto
  moreover have "wf_json 3 (json_slice json_Order (st_Orders s))" by (intro wf_slice) (auto simp: wf_order)
  moreover have "wf_json 3 (json_map json_u64 (st_Prices s))" by (intro wf_map) auto
  ultimately show ?thesis by (simp add: json_state_def)
qed

lemma parse_slice:
  assumes "\<And>v. wf_json 3 (f v)"
  shows "parse_json (print_json (json_slice f q)) = Inr (json_slice f q)"
proof (cases q)
  case None
  then show ?thesis using parse_null by (simp add: json_slice_def)
next
  case (Some xs)
  have "wf_json 4 (json_slice f q)" by (intro wf_slice) (use assms in auto)
  then show ?thesis using Some by (intro parse_print_container [of 4]) (auto simp: json_slice_def max_depth_def)
qed

lemma parse_state: "parse_json (print_json (json_state s)) = Inr (json_state s)"
  by (rule parse_print_container [OF wf_state]) (auto simp: json_state_def max_depth_def)

lemma state_roundtrip:
  assumes "json_ok s"
  shows "Unmarshal_state (Marshal (json_state s)) newState = Inr s"
  using decode_state_json [OF assms] by (simp add: Unmarshal_state_def Marshal_def parse_state) (simp add: newState_def)

lemma prices_roundtrip:
  assumes "\<forall>p\<in>set (elems q). valid_utf8 (op_Pair p)"
  shows "Unmarshal_prices (Marshal (json_slice json_OraclePrice q)) = Inr q"
proof -
  have "parse_json (print_json (json_slice json_OraclePrice q)) = Inr (json_slice json_OraclePrice q)"
    by (rule parse_slice) (simp add: wf_price)
  then show ?thesis using assms
    by (simp add: Unmarshal_prices_def Marshal_def decode_slice_json decode_price_json)
qed

end
