(* ===== verification/Dex_Oracle.thy ===== *)
theory Dex_Oracle
  imports Dex_Ledger Dex_Codec "HOL-Library.Sublist"
begin

text \<open>
  \<^verbatim>\<open>example/dex/app.go\<close>, oracle prices from vote extensions: the median aggregation, and the
  proposal and vote-extension handlers over a committed state. A loop over a map visits its
  keys in an order that is a parameter; \<open>sort.Slice\<close> is a sort by key (the keys it is
  given here are distinct, or equal keys are equal elements, so it has one result).
\<close>

section \<open>Definitions\<close>

text \<open>One extension's usable prices, added to the prices collected per pair.\<close>

definition collect_price :: "OraclePrice \<Rightarrow> (string, u64 list) fmap \<Rightarrow> (string, u64 list) fmap" where
  "collect_price p m =
     (if op_Pair p \<noteq> [] \<and> op_Price p > 0 then
        fmupd (op_Pair p) ((case fmlookup m (op_Pair p) of Some vs \<Rightarrow> vs | None \<Rightarrow> []) @ [op_Price p]) m
      else m)"

definition collect_extension ::
  "CommittedVoteExtension \<Rightarrow> (string, u64 list) fmap \<Rightarrow> (string, u64 list) fmap" where
  "collect_extension ext m =
     (if length (cve_Extension ext) = 0 then m
      else case Unmarshal_prices (cve_Extension ext) of
             Inl err \<Rightarrow> m
           | Inr prices \<Rightarrow> fold collect_price (elems prices) m)"

definition median :: "u64 list \<Rightarrow> u64 go" where
  "median vals = (let vals = sort vals in go_index vals (length vals div 2))"

text \<open>The loop over the collected pairs, in the order \<open>ks\<close>.\<close>

fun medians :: "(string, u64 list) fmap \<Rightarrow> string list \<Rightarrow> OraclePrice list go" where
  "medians m [] = Ret []"
| "medians m (k # ks) =
     go_bind (median (case fmlookup m k of Some vs \<Rightarrow> vs | None \<Rightarrow> [])) (\<lambda>v.
     go_bind (medians m ks) (\<lambda>ps. Ret (\<lparr>op_Pair = k, op_Price = v\<rparr> # ps)))"

definition buildOracleTxFromExtensions ::
  "range_order \<Rightarrow> CommittedVoteExtension list \<Rightarrow> Tx option go" where
  "buildOracleTxFromExtensions ord exts =
     (let pairPrices = fold collect_extension exts fmempty;
          pairs = gm_keys (MkMap pairPrices) in
      if length pairs = 0 then Ret None
      else
        go_bind (medians pairPrices (ord ''pairPrices'' pairs)) (\<lambda>aggregated.
        let aggregated = sort_key op_Pair aggregated;
            payload = Marshal (json_slice json_OraclePrice (append_slice None aggregated));
            tx = (replicate (1 + length payload) 0)[0 := TxOracleUpdate]
        in Ret (Some (copy_into 1 (length tx) payload tx))))"

text \<open>The loop that fills a proposal from the mempool, with the bytes used so far.\<close>

fun fill :: "u64 \<Rightarrow> u64 \<Rightarrow> Tx list \<Rightarrow> Tx list" where
  "fill maxBytes totalBytes [] = []"
| "fill maxBytes totalBytes (tx # txs) =
     (let txSize = of_nat (length tx) in
      if totalBytes + txSize > maxBytes then fill maxBytes totalBytes txs
      else if length tx > 0 \<and> tx ! 0 = TxOracleUpdate then fill maxBytes totalBytes txs
      else tx # fill maxBytes (totalBytes + txSize) txs)"

definition build_proposal :: "range_order \<Rightarrow> ProposalContext \<Rightarrow> BuiltProposal go" where
  "build_proposal ord pctx =
     go_bind (if length (pc_VoteExtensions pctx) > 0
              then buildOracleTxFromExtensions ord (pc_VoteExtensions pctx) else Ret None) (\<lambda>oracleTx.
     let first = (case oracleTx of
                    Some tx \<Rightarrow> if (of_nat (length tx) :: u64) \<le> pc_MaxTxBytes pctx then [tx] else []
                  | None \<Rightarrow> []);
         totalBytes = sum_list (map (\<lambda>tx. of_nat (length tx)) first)
     in Ret \<lparr>bp_Txs = first @ fill (pc_MaxTxBytes pctx) totalBytes (pc_MempoolTxs pctx)\<rparr>)"

definition is_oracle_tx :: "Tx \<Rightarrow> bool" where
  "is_oracle_tx tx \<longleftrightarrow> length tx > 0 \<and> tx ! 0 = TxOracleUpdate"

definition reject :: "string \<Rightarrow> ProposalVerdict" where
  "reject reason = \<lparr>pv_Accept = False, pv_RejectReason = reason\<rparr>"

definition accept :: ProposalVerdict where
  "accept = \<lparr>pv_Accept = True, pv_RejectReason = []\<rparr>"

definition no_later_oracle :: "Tx list \<Rightarrow> ProposalVerdict" where
  "no_later_oracle txs =
     (if list_ex is_oracle_tx (tl txs) then reject ''oracle_update tx must only appear at index 0''
      else accept)"

definition verify_proposal :: "ReceivedProposal \<Rightarrow> ProposalVerdict go" where
  "verify_proposal proposal =
     (let hasExtensions = length (rp_VoteExtensions proposal) > 0 in
      if length (rp_Txs proposal) = 0 then Ret accept
      else
        go_bind (go_index (rp_Txs proposal) 0) (\<lambda>firstTx.
        let firstIsOracle = is_oracle_tx firstTx in
        if hasExtensions \<and> \<not> firstIsOracle then Ret accept
        else if firstIsOracle then
          go_bind (go_slice 1 (length firstTx) firstTx) (\<lambda>payload.
          case Unmarshal_prices payload of
            Inl err \<Rightarrow> Ret (reject (''invalid oracle_update tx: '' @ err))
          | Inr prices \<Rightarrow>
              if list_ex (\<lambda>p. op_Pair p = [] \<or> op_Price p = 0) (elems prices)
              then Ret (reject ''oracle_update contains empty pair or zero price'')
              else Ret (no_later_oracle (rp_Txs proposal)))
        else Ret (no_later_oracle (rp_Txs proposal))))"

text \<open>The loop of \<open>ExtendVote\<close> over the price map, in the order \<open>ks\<close>.\<close>

definition extension_prices :: "range_order \<Rightarrow> amounts \<Rightarrow> OraclePrice list" where
  "extension_prices ord m =
     sort_key op_Pair (map (\<lambda>k. \<lparr>op_Pair = k, op_Price = amount_of m k\<rparr>) (ord ''prices'' (gm_keys m)))"

definition extend_vote :: "range_order \<Rightarrow> state \<Rightarrow> byte_slice" where
  "extend_vote ord s =
     Marshal (json_slice json_OraclePrice (append_slice None (extension_prices ord (st_Prices s))))"

definition verify_extension :: "ReceivedExtension \<Rightarrow> ExtensionVerdict" where
  "verify_extension ext =
     (if length (re_Extension ext) = 0 then ExtensionAccept
      else case Unmarshal_prices (re_Extension ext) of
             Inl err \<Rightarrow> ExtensionReject
           | Inr prices \<Rightarrow>
               if list_ex (\<lambda>p. op_Pair p = []) (elems prices) then ExtensionReject else ExtensionAccept)"

section \<open>The median\<close>

lemma filter_take_drop: "length (filter P (take k xs)) + length (filter P (drop k xs)) = length (filter P xs)"
  by (metis append_take_drop_id filter_append length_append)

lemma filter_none: "\<forall>x\<in>set xs. \<not> P x \<Longrightarrow> length (filter P xs) = 0"
  by simp

lemma median_sorted:
  assumes "vals \<noteq> []"
  shows "median vals = Ret (sort vals ! (length vals div 2))"
  using assms by (simp add: median_def Let_def)

lemma sorted_majority:
  fixes xs :: "u64 list"
  assumes "sorted xs" and maj: "length xs < 2 * length (filter P xs)" and conv: "\<And>x y z. P x \<Longrightarrow> P z \<Longrightarrow> x \<le> y \<Longrightarrow> y \<le> z \<Longrightarrow> P y"
  shows "P (xs ! (length xs div 2))"
proof (rule ccontr)
  let ?k = "length xs div 2" and ?m = "xs ! (length xs div 2)"
  assume no: "\<not> P ?m"
  have ne: "xs \<noteq> []" using maj by auto
  then have k: "?k < length xs" by simp
  have low: "x \<le> ?m" if "x \<in> set (take (Suc ?k) xs)" for x
    using that assms(1) k by (auto simp: in_set_conv_nth sorted_iff_nth_mono less_Suc_eq_le)
  have high: "?m \<le> x" if "x \<in> set (drop ?k xs)" for x
    using that assms(1) k by (auto simp: in_set_conv_nth sorted_iff_nth_mono)
  consider "\<forall>x\<in>set (take (Suc ?k) xs). \<not> P x" | "\<forall>x\<in>set (drop ?k xs). \<not> P x"
    using conv no low high by blast
  then show False
  proof cases
    case 1
    have "length (filter P xs) \<le> length (drop (Suc ?k) xs)"
      using filter_take_drop [of P "Suc ?k" xs] filter_none [OF 1] length_filter_le [of P "drop (Suc ?k) xs"] by simp
    then show False using maj k by simp
  next
    case 2
    have "length (filter P xs) \<le> length (take ?k xs)"
      using filter_take_drop [of P ?k xs] filter_none [OF 2] length_filter_le [of P "take ?k xs"] by simp
    then show False using maj k by simp
  qed
qed

lemma median_value:
  fixes vals :: "u64 list"
  assumes "length vals < 2 * length (filter (\<lambda>v. lo \<le> v \<and> v \<le> hi) vals)"
  shows "vals \<noteq> []" and "lo \<le> sort vals ! (length vals div 2)" and "sort vals ! (length vals div 2) \<le> hi"
proof -
  show "vals \<noteq> []" using assms by auto
  have "length (filter P (sort vals)) = length (filter P vals)" for P by (metis mset_filter mset_sort size_mset)
  then have "lo \<le> sort vals ! (length (sort vals) div 2) \<and> sort vals ! (length (sort vals) div 2) \<le> hi"
    using assms by (intro sorted_majority [where P = "\<lambda>v. lo \<le> v \<and> v \<le> hi"]) auto
  then show "lo \<le> sort vals ! (length vals div 2)" and "sort vals ! (length vals div 2) \<le> hi" by simp_all
qed

text \<open>
  The oracle price is robust: if more than half of the prices reported for a pair lie in
  a range, so does the median, which is there. A minority of validators cannot move the
  price out of the range of the others.
\<close>

theorem median_majority:
  assumes "length vals < 2 * length (filter (\<lambda>v. lo \<le> v \<and> v \<le> hi) vals)"
  shows "\<exists>m. median vals = Ret m \<and> lo \<le> m \<and> m \<le> hi"
  using median_value [OF assms] by (simp add: median_sorted)

theorem median_majority_witness:
  "\<exists>m. median [900000, 101, 100] = Ret m \<and> 100 \<le> m \<and> m \<le> 101"
  by (rule median_majority) simp

section \<open>No order of visiting maps shows\<close>

lemma sort_visited:
  assumes "valid_order ord" and "distinct ks" and "sorted ks" and "\<And>k. f (g k) = k"
  shows "sort_key f (map g (ord l ks)) = map g ks"
proof (rule sort_key_inj_key_eq)
  show "mset (map g (ord l ks)) = mset (map g ks)" using valid_orderD [OF assms(1)] by simp
  show "inj_on f (set (map g (ord l ks)))" using assms(4) by (auto simp: inj_on_def)
  show "sorted (map f (map g ks))" using assms(3,4) by (simp add: comp_def)
qed

lemma extension_prices_eq:
  assumes "valid_order ord"
  shows "extension_prices ord m = map (\<lambda>k. \<lparr>op_Pair = k, op_Price = amount_of m k\<rparr>) (gm_keys m)"
  unfolding extension_prices_def by (rule sort_visited [OF assms]) auto

text \<open>Every collected pair has a price.\<close>

definition collected :: "(string, u64 list) fmap \<Rightarrow> bool" where
  "collected m \<longleftrightarrow> (\<forall>k vs. fmlookup m k = Some vs \<longrightarrow> k \<noteq> [] \<and> vs \<noteq> [] \<and> (\<forall>v\<in>set vs. v \<noteq> 0))"

lemma collected_price: "collected m \<Longrightarrow> collected (collect_price p m)"
  unfolding collected_def collect_price_def
  by (auto simp: word_neq_0_conv split: if_splits option.splits) metis

lemma collected_fold: "collected m \<Longrightarrow> collected (fold collect_price ps m)"
  by (induction ps arbitrary: m) (auto intro: collected_price)

lemma collected_extensions: "collected m \<Longrightarrow> collected (fold collect_extension exts m)"
proof (induction exts arbitrary: m)
  case (Cons e exts)
  have "collected (collect_extension e m)"
    using Cons.prems by (auto simp: collect_extension_def intro: collected_fold split: sum.splits)
  then show ?case using Cons.IH by simp
qed simp

definition median_of :: "(string, u64 list) fmap \<Rightarrow> string \<Rightarrow> u64" where
  "median_of m k = (case fmlookup m k of Some vs \<Rightarrow> sort vs ! (length vs div 2) | None \<Rightarrow> 0)"

lemma medians_eq:
  assumes "collected m" and "\<forall>k\<in>set ks. fmlookup m k \<noteq> None"
  shows "medians m ks = Ret (map (\<lambda>k. \<lparr>op_Pair = k, op_Price = median_of m k\<rparr>) ks)"
  using assms(2)
proof (induction ks)
  case (Cons k ks)
  obtain vs where vs: "fmlookup m k = Some vs" using Cons.prems by auto
  then have "vs \<noteq> []" using assms(1) by (auto simp: collected_def)
  then show ?case using Cons vs by (simp add: median_sorted median_of_def)
qed simp

text \<open>The prices of all extensions, and their medians in the order of the pairs.\<close>

definition aggregated_prices :: "CommittedVoteExtension list \<Rightarrow> OraclePrice list" where
  "aggregated_prices exts =
     (let m = fold collect_extension exts fmempty
      in map (\<lambda>k. \<lparr>op_Pair = k, op_Price = median_of m k\<rparr>) (gm_keys (MkMap m)))"

lemma oracle_tx_eq:
  "(let tx = (replicate (1 + length payload) 0)[0 := k] in copy_into 1 (length tx) payload tx) = k # payload"
  by (simp add: copy_into_def Let_def)

lemma buildOracleTx_eq:
  assumes "valid_order ord"
  shows "buildOracleTxFromExtensions ord exts =
    Ret (if aggregated_prices exts = [] then None
         else Some (TxOracleUpdate # Marshal (json_slice json_OraclePrice (Some (aggregated_prices exts)))))"
proof -
  let ?m = "fold collect_extension exts fmempty"
  let ?ks = "gm_keys (MkMap ?m)"
  have coll: "collected ?m" by (rule collected_extensions) (simp add: collected_def)
  have "\<forall>k\<in>set (ord ''pairPrices'' ?ks). fmlookup ?m k \<noteq> None"
    using assms by (auto simp: fmlookup_dom_iff)
  then have "medians ?m (ord ''pairPrices'' ?ks) =
      Ret (map (\<lambda>k. \<lparr>op_Pair = k, op_Price = median_of ?m k\<rparr>) (ord ''pairPrices'' ?ks))"
    by (rule medians_eq [OF coll])
  moreover have "sort_key op_Pair (map (\<lambda>k. \<lparr>op_Pair = k, op_Price = median_of ?m k\<rparr>) (ord ''pairPrices'' ?ks)) =
      aggregated_prices exts"
    unfolding aggregated_prices_def Let_def by (rule sort_visited [OF assms]) auto
  moreover have "aggregated_prices exts = [] \<longleftrightarrow> ?ks = []" by (simp add: aggregated_prices_def Let_def)
  ultimately show ?thesis
    by (simp add: buildOracleTxFromExtensions_def Let_def append_slice_def elems_def copy_into_def)
qed

section \<open>Proposals\<close>

lemma fill_spec:
  assumes "unat tot + sum_list (map length txs) < 2 ^ 64" and "tot \<le> maxB"
  shows "unat tot + sum_list (map length (fill maxB tot txs)) \<le> unat maxB"
  using assms
proof (induction txs arbitrary: tot)
  case (Cons tx txs)
  have len: "length tx < 2 ^ 64" using Cons.prems by simp
  have plus: "unat (tot + of_nat (length tx)) = unat tot + length tx"
    using Cons.prems(1) by (subst unat_plus_simple [THEN iffD1]) (auto simp: word_le_nat_alt unat_word_ariths unsigned_of_nat take_bit_eq_mod)
  show ?case
  proof (cases "tot + of_nat (length tx) > maxB \<or> (length tx > 0 \<and> tx ! 0 = TxOracleUpdate)")
    case True
    then show ?thesis using Cons by (auto simp: Let_def)
  next
    case False
    then have "tot + of_nat (length tx) \<le> maxB" by (simp add: not_less)
    then show ?thesis using False Cons.IH [of "tot + of_nat (length tx)"] Cons.prems plus by auto
  qed
qed (simp add: word_le_nat_alt)

lemma fill_subseq: "subseq (fill maxB tot txs) txs"
  by (induction maxB tot txs rule: fill.induct) (auto simp: Let_def)

lemma fill_no_oracle: "list_all (\<lambda>tx. \<not> is_oracle_tx tx) (fill maxB tot txs)"
  by (induction maxB tot txs rule: fill.induct) (auto simp: Let_def is_oracle_tx_def)

lemma build_proposal_eq:
  assumes "valid_order ord"
  obtains first where "build_proposal ord pctx =
      Ret \<lparr>bp_Txs = first @ fill (pc_MaxTxBytes pctx) (sum_list (map (\<lambda>tx. of_nat (length tx)) first)) (pc_MempoolTxs pctx)\<rparr>"
    and "first = [] \<or> (\<exists>tx. first = [tx] \<and> (of_nat (length tx) :: u64) \<le> pc_MaxTxBytes pctx \<and>
       aggregated_prices (pc_VoteExtensions pctx) \<noteq> [] \<and>
       tx = TxOracleUpdate # Marshal (json_slice json_OraclePrice (Some (aggregated_prices (pc_VoteExtensions pctx)))))"
proof (cases "pc_VoteExtensions pctx = [] \<or> aggregated_prices (pc_VoteExtensions pctx) = []")
  case True
  then show ?thesis using that [of "[]"] buildOracleTx_eq [OF assms] by (auto simp: build_proposal_def)
next
  case False
  let ?tx = "TxOracleUpdate # Marshal (json_slice json_OraclePrice (Some (aggregated_prices (pc_VoteExtensions pctx))))"
  show ?thesis
    by (rule that [of "if (of_nat (length ?tx) :: u64) \<le> pc_MaxTxBytes pctx then [?tx] else []"])
      (use False buildOracleTx_eq [OF assms] in \<open>auto simp: build_proposal_def\<close>)
qed

text \<open>
  C26. What \<open>BuildProposal\<close> returns, in whatever order maps are visited: at most one oracle
  transaction, then some of the mempool's transactions in their order, none of them an
  oracle update, and all together no larger than \<open>MaxTxBytes\<close> (where the sizes are a number
  that 64 bits can hold).
\<close>

theorem build_proposal_bound:
  assumes "valid_order ord"
    and "length (Marshal (json_slice json_OraclePrice (Some (aggregated_prices (pc_VoteExtensions pctx))))) + 1 +
       sum_list (map length (pc_MempoolTxs pctx)) < 2 ^ 64"
  shows "\<exists>first rest. build_proposal ord pctx = Ret \<lparr>bp_Txs = first @ rest\<rparr> \<and>
     sum_list (map length (first @ rest)) \<le> unat (pc_MaxTxBytes pctx) \<and>
     length first \<le> 1 \<and> list_all is_oracle_tx first \<and>
     subseq rest (pc_MempoolTxs pctx) \<and> list_all (\<lambda>tx. \<not> is_oracle_tx tx) rest"
proof -
  obtain first where f: "build_proposal ord pctx =
      Ret \<lparr>bp_Txs = first @ fill (pc_MaxTxBytes pctx) (sum_list (map (\<lambda>tx. of_nat (length tx)) first)) (pc_MempoolTxs pctx)\<rparr>"
    "first = [] \<or> (\<exists>tx. first = [tx] \<and> (of_nat (length tx) :: u64) \<le> pc_MaxTxBytes pctx \<and>
       aggregated_prices (pc_VoteExtensions pctx) \<noteq> [] \<and>
       tx = TxOracleUpdate # Marshal (json_slice json_OraclePrice (Some (aggregated_prices (pc_VoteExtensions pctx)))))"
    by (rule build_proposal_eq [OF assms(1)])
  let ?tot = "sum_list (map (\<lambda>tx. of_nat (length tx)) first) :: u64"
  have tot: "unat ?tot = sum_list (map length first)" "?tot \<le> pc_MaxTxBytes pctx"
    "unat ?tot + sum_list (map length (pc_MempoolTxs pctx)) < 2 ^ 64"
  proof -
    have "first = [] \<or> (\<exists>tx. first = [tx] \<and> (of_nat (length tx) :: u64) \<le> pc_MaxTxBytes pctx \<and>
        length tx + sum_list (map length (pc_MempoolTxs pctx)) < 2 ^ 64)"
      using f(2) assms(2) by auto
    then show "unat ?tot = sum_list (map length first)" "?tot \<le> pc_MaxTxBytes pctx"
      "unat ?tot + sum_list (map length (pc_MempoolTxs pctx)) < 2 ^ 64"
      using assms(2) by (auto simp: unsigned_of_nat take_bit_eq_mod)
  qed
  show ?thesis
    by (intro exI conjI, rule f(1))
      (use fill_spec [OF tot(3,2)] tot(1) f(2) fill_subseq fill_no_oracle in \<open>auto simp: is_oracle_tx_def\<close>)
qed

theorem build_proposal_bound_witness:
  "\<exists>first rest. build_proposal (\<lambda>l ks. rev ks) \<lparr>pc_Height = 2, pc_Time = \<lparr>ts_Seconds = 0, ts_Nanos = 0\<rparr>,
       pc_Proposer = zero_address, pc_MempoolTxs = [[TxDeposit, 1, 2], [TxOracleUpdate], [TxDeposit]], pc_MaxTxBytes = 2,
       pc_VoteExtensions = []\<rparr> = Ret \<lparr>bp_Txs = first @ rest\<rparr> \<and> sum_list (map length (first @ rest)) \<le> 2"
proof -
  have "aggregated_prices [] = []" by (simp add: aggregated_prices_def gm_keys_def sorted_list_of_fset.rep_eq)
  then show ?thesis
    using build_proposal_bound [of "\<lambda>l ks. rev ks" "\<lparr>pc_Height = 2, pc_Time = \<lparr>ts_Seconds = 0, ts_Nanos = 0\<rparr>,
       pc_Proposer = zero_address, pc_MempoolTxs = [[TxDeposit, 1, 2], [TxOracleUpdate], [TxDeposit]], pc_MaxTxBytes = 2,
       pc_VoteExtensions = []\<rparr>"]
    by (fastforce simp: valid_order_def Marshal_def json_slice_def)
qed

end
