(* ===== verification/Dex_Consensus.thy ===== *)
theory Dex_Consensus
  imports Dex_Oracle
begin

text \<open>
  \<^verbatim>\<open>example/dex/app.go\<close>, the two ends of consensus: what one validator's \<open>BuildProposal\<close> and
  \<open>ExtendVote\<close> make, every other validator's \<open>VerifyProposal\<close> and \<open>VerifyExtension\<close> accept.
  The decoded prices have valid names, so have the medians taken from them, and so have the
  prices that any block leaves in the state; the encoder and the decoder are inverse there.
\<close>

section \<open>Decoded prices\<close>

lemma fold_err_invar:
  assumes "\<And>x s s'. P s \<Longrightarrow> f x s = Inr s' \<Longrightarrow> P s'" and "P s" and "fold_err f xs s = Inr s'"
  shows "P s'"
  using assms(2,3) by (induction xs arbitrary: s) (auto split: sum.splits intro: assms(1))

lemma map_decoded_Inr: "map_decoded f d = Inr b \<longleftrightarrow> (\<exists>a. d = Inr a \<and> b = f a)"
  by (cases d) auto

lemma unquoted_valid: "unquoted raw = Inr s \<Longrightarrow> valid_utf8 s"
  by (auto simp: unquoted_def intro: unquote_valid split: option.splits)

lemma decode_string_valid: "decode_string ctx cur j = Inr s \<Longrightarrow> valid_utf8 cur \<Longrightarrow> valid_utf8 s"
  by (cases j) (auto simp: decode_string_def type_error_def intro: unquoted_valid)

lemma decode_price_valid:
  assumes "decode_OraclePrice ctx cur j = Inr p" and "valid_utf8 (op_Pair cur)"
  shows "valid_utf8 (op_Pair p)"
proof (cases j)
  case (JObj ps)
  then show ?thesis using assms
    by (auto simp: decode_OraclePrice_def decode_struct_def elim!: fold_err_invar [where P = "\<lambda>p. valid_utf8 (op_Pair p)", rotated 2])
      (auto simp: map_decoded_Inr dest: decode_string_valid split: sum.splits option.splits if_splits)
qed (use assms in \<open>auto simp: decode_OraclePrice_def decode_struct_def type_error_def\<close>)

lemma decode_elems_invar:
  assumes "\<And>cur j x. P cur \<Longrightarrow> dec cur j = Inr x \<Longrightarrow> P x" and "P zero" and "\<forall>x\<in>set bs. P x"
    and "decode_elems dec zero bs js = Inr xs"
  shows "\<forall>x\<in>set xs. P x"
  using assms(3,4)
proof (induction js arbitrary: bs xs)
  case (Cons j js)
  obtain x ys where x: "dec (case bs of [] \<Rightarrow> zero | b # _ \<Rightarrow> b) j = Inr x"
    "decode_elems dec zero (tl bs) js = Inr ys" "xs = x # ys"
    using Cons.prems(2) by (auto simp: map_decoded_Inr split: sum.splits)
  have "P x" using assms(1,2) x(1) Cons.prems(1) by (cases bs) auto
  moreover have "\<forall>y\<in>set ys. P y" using Cons.IH [of "tl bs" ys] x(2) Cons.prems(1) by (cases bs) auto
  ultimately show ?case using x(3) by simp
qed simp

lemma Unmarshal_prices_valid:
  assumes "Unmarshal_prices data = Inr q"
  shows "\<forall>p\<in>set (elems q). valid_utf8 (op_Pair p)"
proof -
  obtain j b where j: "decode_slice ''[]dex.OraclePrice'' decode_OraclePrice zero_OraclePrice ('''', []) None j = Inr b"
    "q = slice_of b" using assms by (auto simp: Unmarshal_prices_def map_decoded_Inr split: sum.splits)
  show ?thesis
  proof (cases j)
    case (JArr js)
    show ?thesis
    proof (cases "js = []")
      case False
      then obtain xs where xs: "decode_elems (decode_OraclePrice ('''', [])) zero_OraclePrice [] js = Inr xs" "b = Some (xs, length js)"
        using j(1) JArr by (auto simp: decode_slice_def map_decoded_Inr)
      have "\<forall>p\<in>set xs. valid_utf8 (op_Pair p)"
        by (rule decode_elems_invar [OF _ _ _ xs(1)]) (auto simp: zero_OraclePrice_def intro: decode_price_valid)
      then show ?thesis using j(2) xs(2) by (auto simp: slice_of_def elems_def dest: in_set_takeD)
    qed (use j JArr in \<open>auto simp: decode_slice_def slice_of_def elems_def\<close>)
  qed (use j in \<open>auto simp: decode_slice_def slice_of_def elems_def type_error_def\<close>)
qed

text \<open>So are the pairs that are collected from extensions, and their medians are not zero.\<close>

definition collected_valid :: "(string, u64 list) fmap \<Rightarrow> bool" where
  "collected_valid m \<longleftrightarrow> (\<forall>k. fmlookup m k \<noteq> None \<longrightarrow> valid_utf8 k)"

lemma collected_valid_price:
  "valid_utf8 (op_Pair p) \<Longrightarrow> collected_valid m \<Longrightarrow> collected_valid (collect_price p m)"
  by (simp add: collected_valid_def collect_price_def)

lemma collected_valid_fold:
  "\<forall>p\<in>set ps. valid_utf8 (op_Pair p) \<Longrightarrow> collected_valid m \<Longrightarrow> collected_valid (fold collect_price ps m)"
  by (induction ps arbitrary: m) (auto intro: collected_valid_price)

lemma collected_valid_extensions: "collected_valid m \<Longrightarrow> collected_valid (fold collect_extension exts m)"
proof (induction exts arbitrary: m)
  case (Cons e exts)
  have "collected_valid (collect_extension e m)"
    using Cons.prems Unmarshal_prices_valid [of "cve_Extension e"]
    by (auto simp: collect_extension_def intro: collected_valid_fold split: sum.splits)
  then show ?case using Cons.IH by simp
qed simp

lemma aggregated_prices_ok:
  assumes "p \<in> set (aggregated_prices exts)"
  shows "op_Pair p \<noteq> []" and "op_Price p \<noteq> 0" and "valid_utf8 (op_Pair p)"
proof -
  let ?m = "fold collect_extension exts fmempty"
  have coll: "collected ?m" by (rule collected_extensions) (simp add: collected_def)
  have val: "collected_valid ?m" by (rule collected_valid_extensions) (simp add: collected_valid_def)
  obtain k where p: "p = \<lparr>op_Pair = k, op_Price = median_of ?m k\<rparr>" "k \<in> set (gm_keys (MkMap ?m))"
    using assms by (auto simp: aggregated_prices_def Let_def simp del: set_gm_keys)
  obtain vs where vs: "fmlookup ?m k = Some vs" using p(2) by (auto simp: in_gm_keys simp del: set_gm_keys)
  then have ok: "k \<noteq> []" "vs \<noteq> []" "\<forall>v\<in>set vs. v \<noteq> 0" using coll by (auto simp: collected_def)
  have "sort vs ! (length vs div 2) \<in> set (sort vs)" using ok(2) by (intro nth_mem) simp
  then have "median_of ?m k \<noteq> 0" using ok(3) vs by (simp add: median_of_def)
  then show "op_Pair p \<noteq> []" "op_Price p \<noteq> 0" "valid_utf8 (op_Pair p)"
    using p(1) ok(1) val vs by (auto simp: collected_valid_def)
qed

text \<open>Prices as the transactions leave them.\<close>

definition prices_ok :: "amounts \<Rightarrow> bool" where
  "prices_ok m \<longleftrightarrow> (\<forall>k v. gm_get m k = Some v \<longrightarrow> k \<noteq> [] \<and> v \<noteq> 0 \<and> valid_utf8 k)"

lemma extension_roundtrip:
  assumes "valid_order ord" and "prices_ok (st_Prices s)"
  shows "Unmarshal_prices (extend_vote ord s) =
     Inr (append_slice None (map (\<lambda>k. \<lparr>op_Pair = k, op_Price = amount_of (st_Prices s) k\<rparr>) (gm_keys (st_Prices s))))"
  unfolding extend_vote_def extension_prices_eq [OF assms(1)]
  by (rule prices_roundtrip)
    (use assms(2) in \<open>auto simp: append_slice_def elems_def prices_ok_def in_gm_keys simp del: set_gm_keys\<close>)

lemma apply_prices_prices_ok:
  assumes "prices_ok m" and "\<forall>p\<in>set ps. valid_utf8 (op_Pair p)" and "apply_prices m ps = Ret (evs, m')"
  shows "prices_ok m'"
  using assms
proof (induction ps arbitrary: m evs)
  case (Cons p ps)
  show ?case
  proof (cases "op_Pair p = [] \<or> op_Price p = 0")
    case True
    then show ?thesis using Cons by auto
  next
    case False
    then obtain m1 evs1 where m1: "gm_set m (op_Pair p) (op_Price p) = Ret m1" "apply_prices m1 ps = Ret (evs1, m')"
      using Cons.prems(3) by (auto simp: go_bind_Ret_iff)
    have "prices_ok m1" using gm_set_get [OF m1(1)] Cons.prems(1,2) False by (auto simp: prices_ok_def split: if_splits)
    then show ?thesis using Cons.IH [OF _ _ m1(2)] Cons.prems(2) by simp
  qed
qed simp

lemma other_kinds_prices:
  "executeDeposit s i tx = Ret (out, evs, s') \<Longrightarrow> st_Prices s' = st_Prices s"
  "executeWithdraw s i tx = Ret (out, evs, s') \<Longrightarrow> st_Prices s' = st_Prices s"
  "executeLimitOrder s i tx = Ret (out, evs, s') \<Longrightarrow> st_Prices s' = st_Prices s"
proof -
  let ?P = "\<lambda>(out :: TxOutcome, evs :: Event list, s'). st_Prices s' = st_Prices s"
  have "post ?P (executeDeposit s i tx)" "post ?P (executeWithdraw s i tx)" "post ?P (executeLimitOrder s i tx)"
    unfolding executeDeposit_def executeWithdraw_def executeLimitOrder_def Let_def
    by (intro post_intros; simp)+
  then show "executeDeposit s i tx = Ret (out, evs, s') \<Longrightarrow> st_Prices s' = st_Prices s"
    "executeWithdraw s i tx = Ret (out, evs, s') \<Longrightarrow> st_Prices s' = st_Prices s"
    "executeLimitOrder s i tx = Ret (out, evs, s') \<Longrightarrow> st_Prices s' = st_Prices s"
    by (auto dest: postD)
qed
lemma oracle_prices_ok:
  assumes "prices_ok (st_Prices s)" and "executeOracleUpdate s i tx = Ret (out, evs, s')"
  shows "prices_ok (st_Prices s')"
  using assms Unmarshal_prices_valid [of "drop 1 tx"]
  by (auto simp: executeOracleUpdate_def go_bind_Ret_iff intro: apply_prices_prices_ok
      split: if_splits sum.splits)

lemma executeTx_prices_ok:
  assumes "prices_ok (st_Prices s)" and "executeTx s i tx = Ret (out, evs, s')"
  shows "prices_ok (st_Prices s')"
  using assms by (auto simp: executeTx_def go_bind_Ret_iff other_kinds_prices intro: oracle_prices_ok split: if_splits)

lemma execute_txs_prices_ok:
  assumes "prices_ok (st_Prices s)" and "execute_txs s i txs = Ret (outs, evs, s')"
  shows "prices_ok (st_Prices s')"
  using assms
proof (induction txs arbitrary: s i outs evs)
  case (Cons tx txs)
  obtain out evs1 s1 outs2 evs2 where r: "executeTx s (of_nat i) tx = Ret (out, evs1, s1)"
    "execute_txs s1 (Suc i) txs = Ret (outs2, evs2, s')"
    using Cons.prems(2) by (auto simp: go_bind_Ret_iff)
  show ?case using Cons.IH [OF executeTx_prices_ok [OF Cons.prems(1) r(1)] r(2)] .
qed simp

section \<open>Properties\<close>

text \<open>
  C20. Proposals that a validator builds are accepted by every validator that verifies them,
  whatever the mempool and the vote extensions contain (malformed JSON, empty pairs and zero
  prices included) and in whatever order maps are visited.
\<close>

theorem built_proposal_accepted:
  assumes "valid_order ord" and "build_proposal ord pctx = Ret p" and "rp_Txs proposal = bp_Txs p"
  shows "verify_proposal proposal = Ret accept"
proof -
  obtain first where f: "build_proposal ord pctx =
      Ret \<lparr>bp_Txs = first @ fill (pc_MaxTxBytes pctx) (sum_list (map (\<lambda>tx. of_nat (length tx)) first)) (pc_MempoolTxs pctx)\<rparr>"
    "first = [] \<or> (\<exists>tx. first = [tx] \<and> (of_nat (length tx) :: u64) \<le> pc_MaxTxBytes pctx \<and>
       aggregated_prices (pc_VoteExtensions pctx) \<noteq> [] \<and>
       tx = TxOracleUpdate # Marshal (json_slice json_OraclePrice (Some (aggregated_prices (pc_VoteExtensions pctx)))))"
    by (rule build_proposal_eq [OF assms(1)])
  define rest where "rest = fill (pc_MaxTxBytes pctx) (sum_list (map (\<lambda>tx. of_nat (length tx)) first)) (pc_MempoolTxs pctx)"
  have txs: "rp_Txs proposal = first @ rest" using f(1) assms(2,3) by (simp add: rest_def)
  have no: "list_all (\<lambda>tx. \<not> is_oracle_tx tx) rest" unfolding rest_def by (rule fill_no_oracle)
  then have later: "\<not> list_ex is_oracle_tx rest" by (simp add: list_ex_iff list_all_iff)
  show ?thesis
  proof (cases first)
    case Nil
    then show ?thesis using txs no later
      by (cases rest) (auto simp: verify_proposal_def no_later_oracle_def list_ex_iff)
  next
    case (Cons t ts)
    let ?ps = "aggregated_prices (pc_VoteExtensions pctx)"
    have t: "first = [TxOracleUpdate # Marshal (json_slice json_OraclePrice (Some ?ps))]" using f(2) Cons by auto
    have dec: "Unmarshal_prices (Marshal (json_slice json_OraclePrice (Some ?ps))) = Inr (Some ?ps)"
      by (rule prices_roundtrip) (auto simp: elems_def aggregated_prices_ok)
    have "\<not> list_ex (\<lambda>p. op_Pair p = [] \<or> op_Price p = 0) ?ps"
      using aggregated_prices_ok by (auto simp: list_ex_iff)
    then show ?thesis using t txs dec later
      by (simp add: verify_proposal_def no_later_oracle_def is_oracle_tx_def elems_def)
  qed
qed

definition example_price :: OraclePrice where
  "example_price = \<lparr>op_Pair = ''ETH/USD'', op_Price = 200\<rparr>"

definition example_pctx :: ProposalContext where
  "example_pctx = \<lparr>pc_Height = 2, pc_Time = \<lparr>ts_Seconds = 0, ts_Nanos = 0\<rparr>, pc_Proposer = zero_address,
     pc_MempoolTxs = [[TxOracleUpdate, 1], [TxDeposit]], pc_MaxTxBytes = 1000,
     pc_VoteExtensions = [\<lparr>cve_Validator = zero_address,
       cve_Extension = Marshal (json_slice json_OraclePrice (Some [example_price]))\<rparr>]\<rparr>"

theorem built_proposal_accepted_witness:
  "\<exists>p. build_proposal (\<lambda>l ks. rev ks) example_pctx = Ret p \<and>
     verify_proposal \<lparr>rp_Height = 2, rp_Time = \<lparr>ts_Seconds = 0, ts_Nanos = 0\<rparr>, rp_Proposer = zero_address, rp_Txs = bp_Txs p,
       rp_VoteExtensions = []\<rparr> = Ret accept"
proof -
  have ord: "valid_order (\<lambda>l ks. rev ks)" by (simp add: valid_order_def)
  obtain p where p: "build_proposal (\<lambda>l ks. rev ks) example_pctx = Ret p"
    by (rule build_proposal_eq [OF ord, of example_pctx]) blast
  then show ?thesis using built_proposal_accepted [OF ord p] by simp
qed

text \<open>
  C34. Vote extensions and proposals are the same bytes on every validator with the same state
  and inputs: the order in which Go's maps are visited does not show in them.
\<close>

theorem proposals_deterministic:
  assumes "valid_order ord" and "valid_order ord'"
  shows "build_proposal ord pctx = build_proposal ord' pctx \<and> extend_vote ord s = extend_vote ord' s"
  using assms by (simp add: build_proposal_def buildOracleTx_eq extend_vote_def extension_prices_eq)

theorem proposals_deterministic_witness:
  "build_proposal (\<lambda>l ks. rev ks) example_pctx = build_proposal (\<lambda>l ks. ks) example_pctx \<and>
   extend_vote (\<lambda>l ks. rev ks) newState = extend_vote (\<lambda>l ks. ks) newState"
  by (rule proposals_deterministic) (simp_all add: valid_order_def)

text \<open>The extension made from such a state is accepted.\<close>

lemma own_extension:
  assumes "valid_order ord" and "prices_ok (st_Prices s)" and "re_Extension ext = extend_vote ord s"
  shows "verify_extension ext = ExtensionAccept"
  using assms extension_roundtrip [OF assms(1,2)]
  by (auto simp: verify_extension_def list_ex_iff append_slice_def elems_def prices_ok_def in_gm_keys simp del: set_gm_keys)

text \<open>The prices of an oracle update: they decode, and each has a pair and a price.\<close>

definition sound_prices :: "Tx \<Rightarrow> bool" where
  "sound_prices tx \<longleftrightarrow> (\<exists>q. Unmarshal_prices (tl tx) = Inr q \<and> (\<forall>p\<in>set (elems q). op_Pair p \<noteq> [] \<and> op_Price p \<noteq> 0))"

text \<open>
  What \<open>VerifyProposal\<close> accepts, exactly: it always returns a verdict. A proposal whose
  first transaction is an oracle update is accepted when its prices decode, none has an empty
  pair or a zero price, and no later transaction is an oracle update. A proposal that starts
  otherwise is accepted when no later transaction is an oracle update, or whenever the
  proposal carries vote extensions: later oracle updates are not looked for then.
\<close>

theorem verify_proposal_iff:
  "\<exists>v. verify_proposal proposal = Ret v \<and>
     (pv_Accept v \<longleftrightarrow>
       (case rp_Txs proposal of
          [] \<Rightarrow> True
        | tx # txs \<Rightarrow>
            if is_oracle_tx tx then sound_prices tx \<and> list_all (\<lambda>t. \<not> is_oracle_tx t) txs
            else 0 < length (rp_VoteExtensions proposal) \<or> list_all (\<lambda>t. \<not> is_oracle_tx t) txs))"
proof (cases "rp_Txs proposal")
  case (Cons tx txs)
  have later: "pv_Accept (no_later_oracle (rp_Txs proposal)) \<longleftrightarrow> list_all (\<lambda>t. \<not> is_oracle_tx t) txs"
    using Cons by (auto simp: no_later_oracle_def accept_def reject_def list_all_iff list_ex_iff)
  show ?thesis
  proof (cases "is_oracle_tx tx")
    case True
    then have tl: "go_slice 1 (length tx) tx = Ret (tl tx)" by (cases tx) (auto simp: is_oracle_tx_def)
    show ?thesis
      using Cons True tl later
      by (cases "Unmarshal_prices (tl tx)")
        (auto simp: verify_proposal_def sound_prices_def reject_def list_ex_iff)
  next
    case False
    then show ?thesis using Cons later by (auto simp: verify_proposal_def accept_def)
  qed
qed (simp add: verify_proposal_def accept_def)

end
