(* ===== verification/Dex_Snapshot.thy ===== *)
theory Dex_Snapshot
  imports Dex_Ledger Dex_Codec Interfaces
begin

text \<open>
  \<^verbatim>\<open>example/dex/app.go\<close>, state sync: the snapshot of a state is its JSON text, cut into chunks
  of 64 KiB whose number and bounds are computed in 32-bit arithmetic. A channel of chunks
  is the list of chunks it yields. The export's goroutine is run to its end: the channel has
  room for every chunk, so it never waits for its reader.
\<close>

section \<open>Definitions\<close>

definition snapshotFormat :: u32 where "snapshotFormat = 1"
definition snapshotChunkSize :: u32 where "snapshotChunkSize = 64 * 1024"

definition nChunks :: "byte_slice \<Rightarrow> u32" where
  "nChunks data = (of_nat (length data) + snapshotChunkSize - 1) div snapshotChunkSize"

definition descriptor :: "u64 \<Rightarrow> byte_slice \<Rightarrow> SnapshotDescriptor" where
  "descriptor height data = \<lparr>sd_Height = height, sd_Format = snapshotFormat, sd_Chunks = nChunks data,
     sd_Hash = Sum256 data, sd_Metadata = []\<rparr>"

definition available_snapshots :: "state \<Rightarrow> SnapshotDescriptor list" where
  "available_snapshots s =
     (if st_Height s = 0 then [] else [descriptor (st_Height s) (Marshal (json_state s))])"

definition chunk_at :: "byte_slice \<Rightarrow> u32 \<Rightarrow> SnapshotChunk go" where
  "chunk_at data i =
     (let start = i * snapshotChunkSize;
          end' = start + snapshotChunkSize;
          end' = (if unat end' > length data then of_nat (length data) else end')
      in go_bind (go_slice (unat start) (unat end') data) (\<lambda>d.
         Ret \<lparr>sc_Index = i, sc_Data = d\<rparr>))"

text \<open>The goroutine's loop over the chunk numbers \<open>is\<close>.\<close>

fun chunks_of :: "byte_slice \<Rightarrow> u32 list \<Rightarrow> chunk_chan go" where
  "chunks_of data [] = Ret []"
| "chunks_of data (i # is) =
     go_bind (chunk_at data i) (\<lambda>c. go_bind (chunks_of data is) (\<lambda>cs. Ret (c # cs)))"

text \<open>The values of a loop \<open>for i := uint32(0); i < n; i++\<close>.\<close>

definition upto_u32 :: "u32 \<Rightarrow> u32 list" where
  "upto_u32 n = map of_nat [0..<unat n]"

definition export_snapshot ::
  "state \<Rightarrow> u64 \<Rightarrow> u32 \<Rightarrow> ((chunk_chan option \<times> SnapshotDescriptor option) \<times> go_error option) go" where
  "export_snapshot s height format =
     (if format \<noteq> snapshotFormat then
        Ret ((None, None), Some (ErrorString (''unsupported snapshot format '' @ dec_nat (unat format))))
      else if st_Height s \<noteq> height then
        Ret ((None, None), Some (ErrorString (''snapshot at height '' @ dec_nat (unat height) @
          '' not available (current: '' @ dec_nat (unat (st_Height s)) @ '')'')))
      else
        let data = Marshal (json_state s) in
        go_bind (chunks_of data (upto_u32 (nChunks data))) (\<lambda>ch.
        Ret ((Some ch, Some (descriptor height data)), None)))"

text \<open>The chunks received so far, by index; a later chunk replaces an earlier one.\<close>

definition receive :: "chunk_chan \<Rightarrow> (u32, byte_slice) gomap" where
  "receive chunks = MkMap (fold (\<lambda>c m. fmupd (sc_Index c) (sc_Data c) m) chunks fmempty)"

text \<open>The result, and the state to install if there is one.\<close>

definition import_snapshot :: "SnapshotDescriptor \<Rightarrow> chunk_chan \<Rightarrow> ImportResult \<times> state option" where
  "import_snapshot desc chunks =
     (if sd_Format desc \<noteq> snapshotFormat then
        (zero_ImportResult\<lparr>ir_Status := ImportReject,
           ir_Reason := ''unsupported format '' @ dec_nat (unat (sd_Format desc))\<rparr>, None)
      else
        let received = receive chunks in
        if of_nat (gm_len received) \<noteq> sd_Chunks desc then
          (zero_ImportResult\<lparr>ir_Status := ImportRetryChunks,
             ir_RetryIndices := filter (\<lambda>i. gm_get received i = None) (upto_u32 (sd_Chunks desc))\<rparr>, None)
        else
          let full = concat (map (\<lambda>i. case gm_get received i of Some d \<Rightarrow> d | None \<Rightarrow> [])
                (upto_u32 (sd_Chunks desc))) in
          if Sum256 full \<noteq> sd_Hash desc then
            (zero_ImportResult\<lparr>ir_Status := ImportReject, ir_Reason := ''snapshot hash mismatch''\<rparr>, None)
          else
            (case Unmarshal_state full newState of
               Inl err \<Rightarrow>
                 (zero_ImportResult\<lparr>ir_Status := ImportReject,
                    ir_Reason := ''unmarshal state: '' @ err\<rparr>, None)
             | Inr s \<Rightarrow>
                 (zero_ImportResult\<lparr>ir_Status := ImportOK, ir_AppHash := Some (appHash s)\<rparr>, Some s)))"

section \<open>Cutting into chunks\<close>

definition chunk_size :: nat where "chunk_size = 65536"

definition n_chunks :: "byte_slice \<Rightarrow> nat" where
  "n_chunks data = (length data + 65535) div chunk_size"

definition piece :: "byte_slice \<Rightarrow> nat \<Rightarrow> byte_slice" where
  "piece data i = take chunk_size (drop (i * chunk_size) data)"

text \<open>The texts that 32-bit arithmetic can cut: at most 4 GiB less one chunk.\<close>

definition fits :: "byte_slice \<Rightarrow> bool" where
  "fits data \<longleftrightarrow> length data + 65535 < 2 ^ 32"

lemma n_chunks_bound: "i < n_chunks data \<Longrightarrow> i * chunk_size < length data \<and> (i + 1) * chunk_size \<le> length data + 65535"
  unfolding n_chunks_def chunk_size_def by (auto simp: less_eq_div_iff_mult_less_eq Suc_le_eq [symmetric])

lemma unat_nChunks: "fits data \<Longrightarrow> unat (nChunks data) = n_chunks data"
proof -
  assume f: "fits data"
  have "of_nat (length data) + snapshotChunkSize - 1 = (of_nat (length data + 65535) :: u32)"
    by (simp add: snapshotChunkSize_def)
  moreover have "unat (of_nat (length data + 65535) :: u32) = length data + 65535"
    using f by (simp add: fits_def unsigned_of_nat take_bit_eq_mod del: of_nat_add)
  ultimately have "unat (of_nat (length data) + snapshotChunkSize - 1 :: u32) = length data + 65535" by metis
  then show ?thesis unfolding nChunks_def unat_div n_chunks_def chunk_size_def by (simp add: snapshotChunkSize_def)
qed

lemma chunk_at_piece:
  assumes "fits data" and "i < n_chunks data"
  shows "chunk_at data (of_nat i) = Ret \<lparr>sc_Index = of_nat i, sc_Data = piece data i\<rparr>"
proof -
  note b = n_chunks_bound [OF assms(2)]
  have s: "of_nat i * snapshotChunkSize = (of_nat (i * chunk_size) :: u32)"
    "of_nat i * snapshotChunkSize + snapshotChunkSize = (of_nat ((i + 1) * chunk_size) :: u32)"
    by (simp_all add: snapshotChunkSize_def chunk_size_def)
  have u: "unat (of_nat (i * chunk_size) :: u32) = i * chunk_size"
    "unat (of_nat ((i + 1) * chunk_size) :: u32) = (i + 1) * chunk_size"
    "unat (of_nat (length data) :: u32) = length data"
    using b assms(1) by (simp_all add: fits_def unsigned_of_nat take_bit_eq_mod del: of_nat_mult of_nat_add)
  have p: "take (min (length data) ((i + 1) * chunk_size) - i * chunk_size) (drop (i * chunk_size) data) = piece data i"
    unfolding piece_def by (cases "(i + 1) * chunk_size \<le> length data") (simp_all add: min_def algebra_simps)
  show ?thesis unfolding chunk_at_def Let_def s(2) unfolding s(1) u(1,2) if_distrib [of unat] u(3)
    using p b by (auto simp: min_def piece_def)
qed

lemma chunks_of_pieces:
  assumes "fits data" and "\<forall>i\<in>set is. i < n_chunks data"
  shows "chunks_of data (map of_nat is) = Ret (map (\<lambda>i. \<lparr>sc_Index = of_nat i, sc_Data = piece data i\<rparr>) is)"
  using assms(2) by (induction "is") (simp_all add: chunk_at_piece [OF assms(1)])

lemma concat_pieces: "concat (map (piece data) [0..<n]) = take (n * chunk_size) data"
  by (induction n) (simp_all add: piece_def take_add add.commute [of chunk_size])

lemma all_pieces: "concat (map (piece data) [0..<n_chunks data]) = data"
proof -
  have "length data \<le> n_chunks data * chunk_size" unfolding n_chunks_def chunk_size_def by linarith
  then show ?thesis by (simp add: concat_pieces)
qed

section \<open>Collecting chunks\<close>

lemma receive_get:
  assumes "\<forall>c\<in>set cs. sc_Data c = f (sc_Index c)"
  shows "gm_get (receive cs) i = (if i \<in> sc_Index ` set cs then Some (f i) else None)"
proof -
  have "fmlookup (fold (\<lambda>c m. fmupd (sc_Index c) (sc_Data c) m) cs fmempty) i =
      (if i \<in> sc_Index ` set cs then Some (f i) else None)"
    using assms by (induction cs rule: rev_induct) auto
  then show ?thesis by (simp add: receive_def)
qed

lemma receive_present: "gm_get (receive cs) i = None \<longleftrightarrow> i \<notin> sc_Index ` set cs"
proof -
  have "fmlookup (fold (\<lambda>c m. fmupd (sc_Index c) (sc_Data c) m) cs fmempty) i = None \<longleftrightarrow> i \<notin> sc_Index ` set cs"
    by (induction cs rule: rev_induct) auto
  then show ?thesis by (simp add: receive_def)
qed

lemma receive_len: "gm_len (receive cs) = card (sc_Index ` set cs)"
proof -
  have "set (gm_keys (receive cs)) = sc_Index ` set cs"
    using in_gm_keys [of _ "receive cs"] receive_present [of cs] by auto
  then show ?thesis unfolding gm_len_def by (metis distinct_card distinct_gm_keys)
qed

lemma upto_u32_set: "set (upto_u32 n) = {i. i < n}"
proof -
  have "i \<in> of_nat ` {0..<unat n} \<longleftrightarrow> i < n" for i
    by (auto simp: word_less_nat_alt unsigned_of_nat take_bit_eq_mod image_iff intro!: bexI [of _ "unat i"])
  then show ?thesis by (auto simp: upto_u32_def)
qed

lemma upto_u32_distinct: "distinct (upto_u32 n)"
proof -
  have "unat n < 2 ^ 32" using unsigned_less [of n] by simp
  then have "inj_on (of_nat :: nat \<Rightarrow> u32) {0..<unat n}"
    by (auto simp: inj_on_def word_of_nat_eq_iff take_bit_eq_mod)
  then show ?thesis by (simp add: upto_u32_def distinct_map)
qed

lemma upto_u32_length: "card {i :: u32. i < n} = unat n"
  using distinct_card [OF upto_u32_distinct [of n]] by (simp add: upto_u32_set) (simp add: upto_u32_def)


section \<open>Export and import\<close>

lemma export_eq:
  assumes "fits (Marshal (json_state s))" and "data = Marshal (json_state s)"
  shows "export_snapshot s (st_Height s) snapshotFormat =
     Ret ((Some (map (\<lambda>i. \<lparr>sc_Index = of_nat i, sc_Data = piece data i\<rparr>) [0..<n_chunks data]),
           Some (descriptor (st_Height s) data)), None)"
  using assms chunks_of_pieces [of data "[0..<n_chunks data]"]
  by (simp add: export_snapshot_def upto_u32_def unat_nChunks Let_def)

lemma import_eq:
  assumes "sd_Format desc = snapshotFormat" and "sc_Index ` set cs = {i. i < sd_Chunks desc}"
    and "\<forall>c\<in>set cs. sc_Data c = f (sc_Index c)"
  shows "import_snapshot desc cs =
     (let full = concat (map f (upto_u32 (sd_Chunks desc))) in
      if Sum256 full \<noteq> sd_Hash desc then
        (zero_ImportResult\<lparr>ir_Status := ImportReject, ir_Reason := ''snapshot hash mismatch''\<rparr>, None)
      else (case Unmarshal_state full newState of
          Inl err \<Rightarrow> (zero_ImportResult\<lparr>ir_Status := ImportReject, ir_Reason := ''unmarshal state: '' @ err\<rparr>, None)
        | Inr s \<Rightarrow> (zero_ImportResult\<lparr>ir_Status := ImportOK, ir_AppHash := Some (appHash s)\<rparr>, Some s)))"
proof -
  have len: "(of_nat (gm_len (receive cs)) :: u32) = sd_Chunks desc"
    by (simp add: receive_len assms(2) upto_u32_length)
  have eq: "map (\<lambda>i. case gm_get (receive cs) i of Some d \<Rightarrow> d | None \<Rightarrow> []) (upto_u32 (sd_Chunks desc)) =
      map f (upto_u32 (sd_Chunks desc))"
    by (rule map_cong) (auto simp: receive_get [OF assms(3)] assms(2) upto_u32_set)
  show ?thesis unfolding import_snapshot_def Let_def eq by (simp add: assms(1) len)
qed

lemma pieces_of_u32: "fits data \<Longrightarrow> map (\<lambda>i. piece data (unat i)) (upto_u32 (nChunks data)) = map (piece data) [0..<n_chunks data]"
proof -
  assume f: "fits data"
  have "unat (of_nat i :: u32) = i" if "i < n_chunks data" for i
    using n_chunks_bound [OF that] f by (simp add: fits_def chunk_size_def unsigned_of_nat take_bit_eq_mod)
  then show ?thesis using unat_nChunks [OF f] by (simp add: upto_u32_def comp_def cong: map_cong)
qed

lemma import_export:
  assumes "json_ok s" and "fits (Marshal (json_state s))" and "data = Marshal (json_state s)"
    and "set cs = set (map (\<lambda>i. \<lparr>sc_Index = of_nat i, sc_Data = piece data i\<rparr>) [0..<n_chunks data])"
  shows "import_snapshot (descriptor h data) cs =
     (zero_ImportResult\<lparr>ir_Status := ImportOK, ir_AppHash := Some (appHash s)\<rparr>, Some s)"
proof -
  have f: "fits data" using assms(2,3) by simp
  have idx: "sc_Index ` set cs = {i. i < sd_Chunks (descriptor h data)}"
    unfolding assms(4) using upto_u32_set [of "nChunks data"]
    by (simp add: descriptor_def upto_u32_def unat_nChunks [OF f] image_image)
  have dat: "\<forall>c\<in>set cs. sc_Data c = piece data (unat (sc_Index c))"
  proof -
    have "unat (of_nat i :: u32) = i" if "i < n_chunks data" for i
      using n_chunks_bound [OF that] f by (simp add: fits_def chunk_size_def unsigned_of_nat take_bit_eq_mod)
    then show ?thesis unfolding assms(4) by auto
  qed
  have full: "concat (map (\<lambda>i. piece data (unat i)) (upto_u32 (sd_Chunks (descriptor h data)))) = data"
    using pieces_of_u32 [OF f] all_pieces [of data] by (simp add: descriptor_def)
  have desc: "sd_Format (descriptor h data) = snapshotFormat" "sd_Hash (descriptor h data) = Sum256 data"
    by (simp_all add: descriptor_def)
  show ?thesis
    unfolding import_eq [OF desc(1) idx dat] Let_def full desc(2) using state_roundtrip [OF assms(1)] assms(3) by simp
qed

lemma import_missing:
  assumes "sd_Format desc = snapshotFormat" and "sc_Index ` set cs \<subset> {i. i < sd_Chunks desc}"
  shows "import_snapshot desc cs = (zero_ImportResult\<lparr>ir_Status := ImportRetryChunks,
      ir_RetryIndices := filter (\<lambda>i. i \<notin> sc_Index ` set cs) (upto_u32 (sd_Chunks desc))\<rparr>, None)"
proof -
  have "card (sc_Index ` set cs) < unat (sd_Chunks desc)"
    using psubset_card_mono [OF _ assms(2)] by (simp add: upto_u32_length)
  moreover have "unat (sd_Chunks desc) < 2 ^ 32" using unsigned_less [of "sd_Chunks desc"] by simp
  ultimately have "of_nat (card (sc_Index ` set cs)) \<noteq> sd_Chunks desc"
    by (auto simp: unsigned_of_nat take_bit_eq_mod dest: arg_cong [of _ _ unat])
  then show ?thesis using assms(1) by (simp add: import_snapshot_def Let_def receive_len receive_present)
qed

lemma import_sound:
  assumes "import_snapshot desc cs = (r, st)"
  shows "(ir_Status r = ImportOK \<longleftrightarrow> st \<noteq> None) \<and>
    (\<forall>s. st = Some s \<longrightarrow> ir_AppHash r = Some (appHash s) \<and>
      (\<exists>full. Sum256 full = sd_Hash desc \<and> Unmarshal_state full newState = Inr s))"
  using assms by (auto simp: import_snapshot_def Let_def ImportOK_def ImportReject_def ImportRetryChunks_def zero_ImportResult_def
    split: if_splits sum.splits)

end
