(* ===== verification/Dex.thy ===== *)
theory Dex
  imports Dex_Consensus Dex_Snapshot Harness
begin

text \<open>
  \<^verbatim>\<open>example/dex/app.go\<close>, the application object: the committed and the staged state behind
  pointers, and every handler, over the functions of the other theories. A nil pointer that
  is used is a panic. A handler is one step here; its read-write lock is the subject of
  \<open>Example_Locks\<close>. The order in which loops visit maps is the parameter \<open>ord\<close> of the handlers
  that have such loops, and so of the method table.
\<close>

section \<open>Definitions\<close>

record App =
  app_current :: "state option"
  app_staged :: "state option"

definition Dex_New :: App where
  "Dex_New = \<lparr>app_current = Some newState, app_staged = None\<rparr>"

definition nil_deref :: "'r go" where
  "nil_deref = Panic ''runtime error: invalid memory address or nil pointer dereference''"

text \<open>A handler that reads \<open>app.current\<close> and changes nothing.\<close>

definition reading :: "(state \<Rightarrow> ('r \<times> go_error option) go) \<Rightarrow> (App, 'r) meth" where
  "reading f app = (case app_current app of None \<Rightarrow> (nil_deref, app) | Some s \<Rightarrow> (f s, app))"

definition dex_caps :: Capabilities where
  "dex_caps = CapProposalControl OR CapVoteExtensions OR CapStateSync OR CapSimulation"

definition Dex_Handshake :: "HandshakeRequest \<Rightarrow> (App, HandshakeResponse) meth" where
  "Dex_Handshake req =
     reading (\<lambda>s.
       case hq_LastCommitted req of
         None \<Rightarrow> Ret (zero_HandshakeResponse\<lparr>hr_AppHash := Some (appHash s), hr_Capabilities := dex_caps\<rparr>, None)
       | Some _ \<Rightarrow>
           Ret (\<lparr>hr_LastBlock = Some \<lparr>bid_Height = st_Height s, bid_Hash = zero_hash\<rparr>,
                 hr_AppHash = Some (appHash s), hr_Capabilities = dex_caps\<rparr>, None))"

definition gate_reject :: "string \<Rightarrow> GateVerdict" where
  "gate_reject info = zero_GateVerdict\<lparr>gv_Code := 1, gv_Info := info\<rparr>"

definition dex_gate :: "Tx \<Rightarrow> GateVerdict go" where
  "dex_gate tx =
     (if length tx = 0 then Ret (gate_reject ''empty transaction'')
      else
        go_bind (go_index tx 0) (\<lambda>kind.
        if kind = TxDeposit \<or> kind = TxWithdraw then
          (if length tx < 30 then Ret (gate_reject ''tx too short for deposit/withdraw'')
           else go_bind (go_slice 1 21 tx) (\<lambda>a.
                Ret (zero_GateVerdict\<lparr>gv_Code := 0, gv_Priority := 10, gv_Sender := addrHex a\<rparr>)))
        else if kind = TxLimitOrder then
          (if length tx < 38 then Ret (gate_reject ''tx too short for limit_order'')
           else go_bind (go_slice 1 21 tx) (\<lambda>a.
                Ret (zero_GateVerdict\<lparr>gv_Code := 0, gv_Priority := 5, gv_Sender := addrHex a\<rparr>)))
        else if kind = TxOracleUpdate then Ret (gate_reject ''oracle_update not accepted via mempool'')
        else Ret (gate_reject (''unknown tx type 0x'' @ hex_byte kind))))"

definition Dex_CheckTx :: "Tx \<Rightarrow> MempoolContext \<Rightarrow> (App, GateVerdict) meth" where
  "Dex_CheckTx tx mctx app = (go_bind (dex_gate tx) (\<lambda>v. Ret (v, None)), app)"

definition Dex_ExecuteBlock :: "range_order \<Rightarrow> FinalizedBlock \<Rightarrow> (App, BlockOutcome) meth" where
  "Dex_ExecuteBlock ord block app =
     (case app_current app of
        None \<Rightarrow> (nil_deref, app)
      | Some cur \<Rightarrow>
          (case execute_txs ((clone ord cur)\<lparr>st_Height := fb_Height block\<rparr>) 0 (fb_Txs block) of
             Ret (outcomes, blockEvents, s) \<Rightarrow>
               (Ret (zero_BlockOutcome\<lparr>bo_TxOutcomes := outcomes, bo_BlockEvents := blockEvents,
                       bo_AppHash := appHash s\<rparr>, None),
                app\<lparr>app_staged := Some s\<rparr>)
           | Panic m \<Rightarrow> (Panic m, app)
           | Blocked \<Rightarrow> (Blocked, app)))"

definition Dex_Commit :: "(App, CommitResult) meth" where
  "Dex_Commit app =
     (let app = app\<lparr>app_current := app_staged app, app_staged := None\<rparr> in
      case app_current app of
        None \<Rightarrow> (nil_deref, app)
      | Some s \<Rightarrow>
          (let retain = (if st_Height s > 100 then st_Height s - 100 else 0)
           in (Ret (\<lparr>cr_RetainHeight = retain\<rparr>, None), app)))"

definition dex_query :: "state \<Rightarrow> StateQuery \<Rightarrow> StateQueryResult go" where
  "dex_query s req =
     (if sq_Path req = ''/balance'' then
        (if length (sq_Data req) < 21 then
           Ret (zero_StateQueryResult\<lparr>sr_Code := 1, sr_Info := ''data must be [20]address + denom''\<rparr>)
         else
           go_bind (go_slice 0 20 (sq_Data req)) (\<lambda>a.
           go_bind (go_slice 20 (length (sq_Data req)) (sq_Data req)) (\<lambda>d.
           Ret (zero_StateQueryResult\<lparr>sr_Code := 0, sr_Key := sq_Data req,
                  sr_Value := PutUint64 (balance (st_Balances s) (addrHex a) (str d)),
                  sr_Height := st_Height s\<rparr>))))
      else if sq_Path req = ''/price'' then
        (case gm_get (st_Prices s) (str (sq_Data req)) of
           None \<Rightarrow> Ret (zero_StateQueryResult\<lparr>sr_Code := 1, sr_Info := ''unknown pair'', sr_Height := st_Height s\<rparr>)
         | Some price \<Rightarrow>
             Ret (zero_StateQueryResult\<lparr>sr_Code := 0, sr_Key := sq_Data req, sr_Value := PutUint64 price,
                    sr_Height := st_Height s\<rparr>))
      else if sq_Path req = ''/orders'' then
        Ret (zero_StateQueryResult\<lparr>sr_Code := 0, sr_Value := Marshal (json_slice json_Order (st_Orders s)),
               sr_Height := st_Height s\<rparr>)
      else
        Ret (zero_StateQueryResult\<lparr>sr_Code := 1, sr_Info := ''unknown query path'', sr_Height := st_Height s\<rparr>))"

text \<open>A malformed balance query is answered before \<open>app.current\<close> is looked at.\<close>

definition Dex_Query :: "StateQuery \<Rightarrow> (App, StateQueryResult) meth" where
  "Dex_Query req app =
     (if sq_Path req = ''/balance'' \<and> length (sq_Data req) < 21 then (go_bind (dex_query newState req) (\<lambda>r. Ret (r, None)), app)
      else reading (\<lambda>s. go_bind (dex_query s req) (\<lambda>r. Ret (r, None))) app)"

definition Dex_BuildProposal :: "range_order \<Rightarrow> ProposalContext \<Rightarrow> (App, BuiltProposal) meth" where
  "Dex_BuildProposal ord pctx app = (go_bind (build_proposal ord pctx) (\<lambda>p. Ret (p, None)), app)"

definition Dex_VerifyProposal :: "ReceivedProposal \<Rightarrow> (App, ProposalVerdict) meth" where
  "Dex_VerifyProposal proposal app = (go_bind (verify_proposal proposal) (\<lambda>v. Ret (v, None)), app)"

definition Dex_ExtendVote :: "range_order \<Rightarrow> VoteContext \<Rightarrow> (App, byte_slice) meth" where
  "Dex_ExtendVote ord vctx = reading (\<lambda>s. Ret (extend_vote ord s, None))"

definition Dex_VerifyExtension :: "ReceivedExtension \<Rightarrow> (App, ExtensionVerdict) meth" where
  "Dex_VerifyExtension ext app = (Ret (verify_extension ext, None), app)"

definition Dex_AvailableSnapshots :: "(App, SnapshotDescriptor list) meth" where
  "Dex_AvailableSnapshots = reading (\<lambda>s. Ret (available_snapshots s, None))"

definition Dex_ExportSnapshot ::
  "u64 \<Rightarrow> u32 \<Rightarrow> (App, chunk_chan option \<times> SnapshotDescriptor option) meth" where
  "Dex_ExportSnapshot height format app =
     (if format \<noteq> snapshotFormat then (export_snapshot newState height format, app)
      else reading (\<lambda>s. export_snapshot s height format) app)"

definition Dex_ImportSnapshot :: "SnapshotDescriptor \<Rightarrow> chunk_chan \<Rightarrow> (App, ImportResult) meth" where
  "Dex_ImportSnapshot desc chunks app =
     (case import_snapshot desc chunks of
        (r, None) \<Rightarrow> (Ret (r, None), app)
      | (r, Some s) \<Rightarrow> (Ret (r, None), app\<lparr>app_current := Some s\<rparr>))"

definition Dex_Simulate :: "range_order \<Rightarrow> Tx \<Rightarrow> (App, TxOutcome) meth" where
  "Dex_Simulate ord tx =
     reading (\<lambda>s. go_bind (executeTx (clone ord s) 0 tx) (\<lambda>(outcome, _, _). Ret (outcome, None)))"

definition dex_lifecycle :: "range_order \<Rightarrow> App Lifecycle" where
  "dex_lifecycle ord = \<lparr>m_Handshake = Dex_Handshake, m_CheckTx = Dex_CheckTx,
     m_ExecuteBlock = Dex_ExecuteBlock ord, m_Commit = Dex_Commit, m_Query = Dex_Query,
     as_ProposalControl = Some \<lparr>m_BuildProposal = Dex_BuildProposal ord, m_VerifyProposal = Dex_VerifyProposal\<rparr>,
     as_VoteExtender = Some \<lparr>m_ExtendVote = Dex_ExtendVote ord, m_VerifyExtension = Dex_VerifyExtension\<rparr>,
     as_StateSync = Some \<lparr>m_AvailableSnapshots = Dex_AvailableSnapshots,
        m_ExportSnapshot = Dex_ExportSnapshot, m_ImportSnapshot = Dex_ImportSnapshot\<rparr>,
     as_Simulator = Some \<lparr>m_Simulate = Dex_Simulate ord\<rparr>,
     as_MempoolObserver = None\<rparr>"

section \<open>The contract\<close>

text \<open>
  The committed state is the state itself. Executing a block is a function of it, which no
  order of visiting maps can influence.
\<close>

definition dex_invar :: "App \<Rightarrow> bool" where
  "dex_invar app \<longleftrightarrow> app_current app \<noteq> None"

definition dex_committed :: "App \<Rightarrow> state" where
  "dex_committed app = (case app_current app of Some s \<Rightarrow> s | None \<Rightarrow> newState)"

definition dex_exec :: "state \<Rightarrow> FinalizedBlock \<Rightarrow> BlockOutcome \<times> state" where
  "dex_exec c b =
     (case execute_txs ((cloned c)\<lparr>st_Height := fb_Height b\<rparr>) 0 (fb_Txs b) of
        Ret (outs, evs, s) \<Rightarrow>
          (zero_BlockOutcome\<lparr>bo_TxOutcomes := outs, bo_BlockEvents := evs, bo_AppHash := appHash s\<rparr>, s)
      | _ \<Rightarrow> (zero_BlockOutcome, c))"

definition dex_answer :: "state \<Rightarrow> StateQuery \<Rightarrow> StateQueryResult" where
  "dex_answer s q = (case dex_query s q of Ret r \<Rightarrow> r | _ \<Rightarrow> zero_StateQueryResult)"

lemma state_ok_start: "state_ok ((cloned c)\<lparr>st_Height := h\<rparr>)"
  using state_ok_cloned [of c] by (simp add: state_ok_def)

lemma dex_exec_run:
  obtains outs evs s where "execute_txs ((cloned c)\<lparr>st_Height := fb_Height b\<rparr>) 0 (fb_Txs b) = Ret (outs, evs, s)"
    and "dex_exec c b = (zero_BlockOutcome\<lparr>bo_TxOutcomes := outs, bo_BlockEvents := evs, bo_AppHash := appHash s\<rparr>, s)"
    and "state_ok s" and "st_Height s = fb_Height b"
    and "map txo_Index outs = map of_nat [0..<length (fb_Txs b)]"
  using execute_txs_run [OF state_ok_start [where c = c and h = "fb_Height b"], of 0 "fb_Txs b"]
  by (auto simp: dex_exec_def)

lemma Dex_ExecuteBlock_eq:
  assumes "valid_order ord" and "app_current app = Some c"
  shows "Dex_ExecuteBlock ord b app =
     (Ret (fst (dex_exec c b), None), app\<lparr>app_staged := Some (snd (dex_exec c b))\<rparr>)"
  by (rule dex_exec_run [where c = c and b = b]) (use assms in \<open>simp add: Dex_ExecuteBlock_def clone_eq\<close>)

lemma dex_gate_returns: "\<exists>v. dex_gate tx = Ret v"
  by (cases tx) (auto simp: dex_gate_def)

lemma Dex_Query_eq: "app_current app = Some s \<Longrightarrow> Dex_Query req app = (go_bind (dex_query s req) (\<lambda>r. Ret (r, None)), app)"
  by (simp add: Dex_Query_def reading_def dex_query_def)

lemma dex_query_returns: "dex_query s q = Ret (dex_answer s q)"
proof -
  have "\<exists>r. dex_query s q = Ret r" by (auto simp: dex_query_def split: option.splits)
  then show ?thesis by (auto simp: dex_answer_def)
qed

locale dex_app =
  fixes ord :: range_order
  assumes valid: "valid_order ord"

sublocale dex_app \<subseteq> lifecycle_app "dex_lifecycle ord" dex_invar dex_committed app_staged dex_exec dex_answer
proof unfold_locales
  fix a :: App and req
  show "\<exists>resp a'. m_Handshake (dex_lifecycle ord) req a = (Ret (resp, None), a') \<and> dex_invar a' \<and>
        dex_committed a' = dex_committed a \<and> app_staged a' = app_staged a \<and>
        hr_AppHash resp \<noteq> None \<and> (hq_LastCommitted req = None \<longrightarrow> hr_LastBlock resp = None)"
    if "dex_invar a"
    using that by (auto simp: dex_lifecycle_def Dex_Handshake_def reading_def dex_invar_def
        zero_HandshakeResponse_def split: option.splits)
next
  fix a :: App and tx mctx
  show "\<exists>v. m_CheckTx (dex_lifecycle ord) tx mctx a = (Ret (v, None), a)" if "dex_invar a"
    using dex_gate_returns [of tx] by (auto simp: dex_lifecycle_def Dex_CheckTx_def)
next
  fix a :: App and b
  show "\<exists>a'. m_ExecuteBlock (dex_lifecycle ord) b a = (Ret (fst (dex_exec (dex_committed a) b), None), a') \<and>
        dex_invar a' \<and> dex_committed a' = dex_committed a \<and>
        app_staged a' = Some (snd (dex_exec (dex_committed a) b))" if "dex_invar a"
    using that Dex_ExecuteBlock_eq [OF valid]
    by (auto simp: dex_lifecycle_def dex_invar_def dex_committed_def)
next
  fix c b
  show "map txo_Index (bo_TxOutcomes (fst (dex_exec c b))) = map of_nat [0..<length (fb_Txs b)]"
    by (rule dex_exec_run [where c = c and b = b]) simp
next
  fix a :: App and c
  show "\<exists>r a'. m_Commit (dex_lifecycle ord) a = (Ret (r, None), a') \<and> dex_invar a' \<and> dex_committed a' = c"
    if "dex_invar a" and "app_staged a = Some c"
    using that by (auto simp: dex_lifecycle_def Dex_Commit_def dex_invar_def dex_committed_def Let_def)
next
  fix a :: App and q
  show "m_Query (dex_lifecycle ord) q a = (Ret (dex_answer (dex_committed a) q, None), a)" if "dex_invar a"
    using that by (auto simp: dex_lifecycle_def Dex_Query_eq dex_invar_def dex_committed_def dex_query_returns)
qed

context dex_app
begin

lemma genesis:
  obtains resp s where "GenesisDefault (NewHarness (dex_lifecycle ord) Dex_New) = (Ret resp, s)"
    and "serving PReady s" and "dex_committed (s_state s) = newState"
proof -
  have inv: "dex_invar Dex_New" by (simp add: dex_invar_def Dex_New_def)
  have caps: "fst (discoverCapabilities (dex_lifecycle ord) (hr_Capabilities resp)) = None"
    if "m_Handshake (dex_lifecycle ord) req a = (Ret (resp, None), a')" for req a resp a'
    using that by (auto simp: dex_lifecycle_def Dex_Handshake_def reading_def nil_deref_def dex_caps_def
        zero_HandshakeResponse_def discover_ok_iff Capabilities_Has_def CapProposalControl_def CapVoteExtensions_def
        CapStateSync_def CapSimulation_def CapMempoolObserver_def split: option.splits)
  obtain resp s where s: "Handshake \<lparr>hq_LastCommitted = None, hq_Genesis = Some DefaultGenesis\<rparr>
      (New (dex_lifecycle ord) Dex_New) = (Ret (resp, None), s)" "serving PReady s"
    "dex_committed (s_state s) = dex_committed (s_state (New (dex_lifecycle ord) Dex_New))"
    using serving_Handshake [OF serving_New [OF inv]] caps by metis
  have "dex_committed (s_state s) = newState" using s(3) by (simp add: New_def dex_committed_def Dex_New_def)
  then show ?thesis using s by (intro that [of resp s]) (simp_all add: GenesisDefault_def Genesis_def NewHarness_def)
qed

end

interpretation dex_sorted: dex_app "\<lambda>l ks. ks"
  by unfold_locales (simp add: valid_order_def)

section \<open>Properties\<close>

lemma holdings_start: "holdings ((cloned c)\<lparr>st_Height := h\<rparr>) d = holdings c d"
  using total_balance_same [of "st_Balances (cloned c)" d "st_Balances c"]
  by (simp add: holdings_def) (simp add: cloned_def locked_def elems_def)

context dex_app
begin

lemma chain:
  "\<exists>resp s s'. GenesisDefault (NewHarness (dex_lifecycle ord) Dex_New) = (Ret resp, s) \<and>
     run_chain bs s = (Ret (fst (exec_chain dex_exec newState bs)), s') \<and> serving PReady s' \<and>
     dex_committed (s_state s') = snd (exec_chain dex_exec newState bs)"
proof -
  obtain resp s where s: "GenesisDefault (NewHarness (dex_lifecycle ord) Dex_New) = (Ret resp, s)"
    "serving PReady s" "dex_committed (s_state s) = newState" by (rule genesis)
  show ?thesis using serving_run_chain [OF s(2), of bs] s by auto
qed

lemma chain_isolation:
  "\<exists>resp s s' s2. GenesisDefault (NewHarness (dex_lifecycle ord) Dex_New) = (Ret resp, s) \<and>
     run_chain bs s = (Ret (fst (exec_chain dex_exec newState bs)), s') \<and>
     fst (Query q (snd (ExecuteBlock b s'))) = fst (Query q s') \<and>
     ExecuteAndCommit b s' = (Ret (fst (dex_exec (snd (exec_chain dex_exec newState bs)) b)), s2) \<and>
     fst (Query q s2) = Ret (dex_answer (snd (dex_exec (snd (exec_chain dex_exec newState bs)) b)) q, None)"
proof -
  obtain resp s s' where s': "GenesisDefault (NewHarness (dex_lifecycle ord) Dex_New) = (Ret resp, s)"
    "run_chain bs s = (Ret (fst (exec_chain dex_exec newState bs)), s')" "serving PReady s'"
    "dex_committed (s_state s') = snd (exec_chain dex_exec newState bs)" using chain [of bs] by blast
  obtain s2 where s2: "ExecuteAndCommit b s' = (Ret (fst (dex_exec (dex_committed (s_state s')) b)), s2)"
    "serving PReady s2" "dex_committed (s_state s2) = snd (dex_exec (dex_committed (s_state s')) b)"
    using serving_ExecuteAndCommit [OF s'(3), of b] by metis
  show ?thesis
    using s' s2 query_isolation [OF s'(3), of q b] serving_Query [OF s2(2), of q] by auto
qed

end

text \<open>
  C2. A chain of blocks through a server and the order book, in whatever order its loops
  visit maps: no step panics or fails, the outcomes (the application hash of every block
  among them) are those of the specification \<open>dex_exec\<close>, and the committed state is the
  specification's. So all nodes agree.
\<close>

theorem dex_chain:
  assumes "valid_order ord"
  shows "\<exists>resp s s'. GenesisDefault (NewHarness (dex_lifecycle ord) Dex_New) = (Ret resp, s) \<and>
     run_chain bs s = (Ret (fst (exec_chain dex_exec newState bs)), s') \<and>
     dex_committed (s_state s') = snd (exec_chain dex_exec newState bs)"
  using dex_app.chain [OF dex_app.intro, OF assms, of bs] by blast

theorem dex_chain_witness:
  "\<exists>resp s s'. GenesisDefault (NewHarness (dex_lifecycle (\<lambda>l ks. rev ks)) Dex_New) = (Ret resp, s) \<and>
     run_chain [MakeBlock 1 [DepositTx (TestAddress 1) 7 ''ETH''], MakeEmptyBlock 2] s =
       (Ret (fst (exec_chain dex_exec newState [MakeBlock 1 [DepositTx (TestAddress 1) 7 ''ETH''], MakeEmptyBlock 2])), s') \<and>
     dex_committed (s_state s') =
       snd (exec_chain dex_exec newState [MakeBlock 1 [DepositTx (TestAddress 1) 7 ''ETH''], MakeEmptyBlock 2])"
  by (rule dex_chain) (simp add: valid_order_def)

text \<open>
  Queries see committed blocks only: after any chain, while a further block is executed
  but not committed every query is answered as before it; once it is committed the answer
  is the one of the specification's state after the block.
\<close>

theorem dex_query_isolation:
  assumes "valid_order ord"
  shows "\<exists>resp s s' s2. GenesisDefault (NewHarness (dex_lifecycle ord) Dex_New) = (Ret resp, s) \<and>
     run_chain bs s = (Ret (fst (exec_chain dex_exec newState bs)), s') \<and>
     fst (Query q (snd (ExecuteBlock b s'))) = fst (Query q s') \<and>
     ExecuteAndCommit b s' = (Ret (fst (dex_exec (snd (exec_chain dex_exec newState bs)) b)), s2) \<and>
     fst (Query q s2) = Ret (dex_answer (snd (dex_exec (snd (exec_chain dex_exec newState bs)) b)) q, None)"
  using dex_app.chain_isolation [OF dex_app.intro, OF assms] .

theorem dex_query_isolation_witness:
  "\<exists>resp s s' s2. GenesisDefault (NewHarness (dex_lifecycle (\<lambda>l ks. rev ks)) Dex_New) = (Ret resp, s) \<and>
     run_chain [] s = (Ret (fst (exec_chain dex_exec newState [])), s') \<and>
     fst (Query \<lparr>sq_Path = ''/orders'', sq_Data = [], sq_Height = None, sq_Prove = False\<rparr>
        (snd (ExecuteBlock (MakeBlock 1 [DepositTx (TestAddress 1) 7 ''ETH'']) s'))) =
     fst (Query \<lparr>sq_Path = ''/orders'', sq_Data = [], sq_Height = None, sq_Prove = False\<rparr> s')"
  using dex_query_isolation [of "\<lambda>l ks. rev ks" "[]"
     "\<lparr>sq_Path = ''/orders'', sq_Data = [], sq_Height = None, sq_Prove = False\<rparr>"
     "MakeBlock 1 [DepositTx (TestAddress 1) 7 ''ETH'']"]
  by (simp add: valid_order_def) blast



lemma outcome_height:
  "go_bind (executeTx (s\<lparr>st_Height := h\<rparr>) i tx) (\<lambda>(out, _, _). Ret out) =
   go_bind (executeTx s i tx) (\<lambda>(out, _, _). Ret out)"
proof -
  have "go_bind (executeDeposit (s\<lparr>st_Height := h\<rparr>) i tx) (\<lambda>(out, _, _). Ret out) =
    go_bind (executeDeposit s i tx) (\<lambda>(out, _, _). Ret out)"
    by (simp add: executeDeposit_def Let_def go_bind_assoc go_bind_if cong: if_cong)
  moreover have "go_bind (executeWithdraw (s\<lparr>st_Height := h\<rparr>) i tx) (\<lambda>(out, _, _). Ret out) =
    go_bind (executeWithdraw s i tx) (\<lambda>(out, _, _). Ret out)"
    by (simp add: executeWithdraw_def Let_def go_bind_assoc go_bind_if cong: if_cong)
  moreover have "go_bind (executeLimitOrder (s\<lparr>st_Height := h\<rparr>) i tx) (\<lambda>(out, _, _). Ret out) =
    go_bind (executeLimitOrder s i tx) (\<lambda>(out, _, _). Ret out)"
    by (simp add: executeLimitOrder_def Let_def go_bind_assoc go_bind_if cong: if_cong)
  moreover have "go_bind (executeOracleUpdate (s\<lparr>st_Height := h\<rparr>) i tx) (\<lambda>(out, _, _). Ret out) =
    go_bind (executeOracleUpdate s i tx) (\<lambda>(out, _, _). Ret out)"
    by (auto simp: executeOracleUpdate_def Let_def go_bind_assoc split_def split: sum.splits)
  ultimately show ?thesis by (cases "tx = []") (simp add: executeTx_def, simp add: executeTx_kind go_bind_if)
qed

text \<open>
  C38. \<open>Simulate\<close> changes nothing and gives exactly the outcome that the transaction would
  have as the only one of the next block.
\<close>

theorem dex_simulate_agrees:
  assumes "valid_order ord" and "app_current app = Some c" and "fb_Txs b = [tx]"
  shows "\<exists>out. Dex_Simulate ord tx app = (Ret (out, None), app) \<and>
     bo_TxOutcomes (fst (dex_exec c b)) = [out]"
proof -
  obtain out evs s where 1: "executeTx ((cloned c)\<lparr>st_Height := fb_Height b\<rparr>) 0 tx = Ret (out, evs, s)"
    using executeTx_run [OF state_ok_start] by metis
  obtain out' evs' s' where 2: "executeTx (cloned c) 0 tx = Ret (out', evs', s')"
    using executeTx_run [OF state_ok_cloned] by metis
  have "out' = out" using outcome_height [of "fb_Height b" "cloned c" 0 tx] 1 2 by simp
  then show ?thesis using assms 1 2
    by (simp add: Dex_Simulate_def reading_def clone_eq dex_exec_def)
qed

theorem dex_simulate_agrees_witness:
  "\<exists>out. Dex_Simulate (\<lambda>l ks. rev ks) (DepositTx (TestAddress 1) 7 ''ETH'') Dex_New = (Ret (out, None), Dex_New) \<and>
     bo_TxOutcomes (fst (dex_exec newState (MakeBlock 1 [DepositTx (TestAddress 1) 7 ''ETH'']))) = [out]"
  by (rule dex_simulate_agrees) (simp_all add: valid_order_def Dex_New_def MakeBlock_def Let_def)

text \<open>
  The mempool gate is sound: a transaction it turns away, other than an oracle update
  (which only a proposer may add), would fail in any state with code 1 and no effect.
\<close>

theorem gate_rejects_invalid:
  assumes "dex_gate tx = Ret v" and "\<not> GateVerdict_Accepted v" and "\<not> is_oracle_tx tx"
  shows "\<exists>out. executeTx s i tx = Ret (out, [], s) \<and> txo_Code out = 1"
  using assms by (cases tx) (auto simp: dex_gate_def executeTx_def executeDeposit_def executeWithdraw_def
     executeLimitOrder_def is_oracle_tx_def GateVerdict_Accepted_def zero_GateVerdict_def gate_reject_def split: if_splits)

theorem gate_rejects_invalid_witness:
  "\<exists>out. executeTx newState 0 [TxLimitOrder, 1, 2] = Ret (out, [], newState) \<and> txo_Code out = 1"
  by (rule gate_rejects_invalid [of _ "gate_reject ''tx too short for limit_order''"])
    (simp_all add: dex_gate_def gate_reject_def GateVerdict_Accepted_def is_oracle_tx_def)

lemma gate_of:
  assumes "length addr = 20" and "rest \<noteq> []"
  shows "k \<in> {TxDeposit, TxWithdraw} \<Longrightarrow> dex_gate (k # addr @ PutUint64 amount @ rest) =
       Ret (zero_GateVerdict\<lparr>gv_Code := 0, gv_Priority := 10, gv_Sender := addrHex addr\<rparr>)"
    and "dex_gate (TxLimitOrder # addr @ PutUint64 amount @ PutUint64 price @ rest) =
       Ret (zero_GateVerdict\<lparr>gv_Code := 0, gv_Priority := 5, gv_Sender := addrHex addr\<rparr>)"
  using assms by (auto simp: dex_gate_def Suc_le_eq not_less)

text \<open>
  The transaction builders: what they write, the execution reads back field by field, and
  the mempool gate accepts it with the sender's address.
\<close>

theorem tx_builders_roundtrip:
  assumes "is_address addr" and "denom \<noteq> []"
  shows "(\<forall>tx \<in> {DepositTx addr amount denom, WithdrawTx addr amount denom}.
       tx_addr tx = addrHex addr \<and> tx_amount tx = amount \<and> tx_denom tx = denom \<and>
       dex_gate tx = Ret (zero_GateVerdict\<lparr>gv_Code := 0, gv_Priority := 10, gv_Sender := addrHex addr\<rparr>)) \<and>
     tx_addr (LimitOrderTx addr amount price denom) = addrHex addr \<and>
     tx_amount (LimitOrderTx addr amount price denom) = amount \<and>
     tx_price (LimitOrderTx addr amount price denom) = price \<and>
     tx_pair (LimitOrderTx addr amount price denom) = denom \<and>
     dex_gate (LimitOrderTx addr amount price denom) =
       Ret (zero_GateVerdict\<lparr>gv_Code := 0, gv_Priority := 5, gv_Sender := addrHex addr\<rparr>)"
proof -
  have len: "length addr = 20" and ne: "bytes denom \<noteq> []" using assms by (auto simp: is_address_def bytes_def)
  note eqs = DepositTx_eq [OF assms(1)] WithdrawTx_eq [OF assms(1)] LimitOrderTx_eq [OF assms(1)]
  show ?thesis using gate_of [OF len ne] by (simp add: eqs tx_fields_of [OF len])
qed

theorem tx_builders_roundtrip_witness:
  "tx_pair (LimitOrderTx (TestAddress 3) 5 200 ''ETH/USD'') = ''ETH/USD'' \<and>
   tx_price (LimitOrderTx (TestAddress 3) 5 200 ''ETH/USD'') = 200"
  using tx_builders_roundtrip [of "TestAddress 3" "''ETH/USD''" 5 200] by simp

lemma exec_chain_prices_ok:
  "prices_ok (st_Prices c) \<Longrightarrow> prices_ok (st_Prices (snd (exec_chain dex_exec c bs)))"
proof (induction bs arbitrary: c)
  case (Cons b bs)
  obtain outs evs s where r: "execute_txs ((cloned c)\<lparr>st_Height := fb_Height b\<rparr>) 0 (fb_Txs b) = Ret (outs, evs, s)"
    "snd (dex_exec c b) = s" using dex_exec_run [where c = c and b = b] by (metis snd_conv)
  have "prices_ok (st_Prices ((cloned c)\<lparr>st_Height := fb_Height b\<rparr>))"
    using Cons.prems by (simp add: cloned_def present_def prices_ok_def gm_get_def)
  then show ?case using Cons.IH [OF execute_txs_prices_ok [OF _ r(1)]] r(2) by simp
qed simp

text \<open>
  C30. After any chain of blocks, the vote extension a validator makes is accepted by every
  validator, in whatever order maps are visited, and it decodes to exactly the oracle prices
  of the committed state, in the order of the pairs.
\<close>

theorem dex_extension_accepted:
  assumes "valid_order ord" and "app_current app = Some s" and "s = snd (exec_chain dex_exec newState bs)"
  shows "\<exists>e. Dex_ExtendVote ord vctx app = (Ret (e, None), app) \<and>
     (\<forall>ext app'. re_Extension ext = e \<longrightarrow> Dex_VerifyExtension ext app' = (Ret (ExtensionAccept, None), app')) \<and>
     (\<exists>q. Unmarshal_prices e = Inr q \<and>
       elems q = map (\<lambda>k. \<lparr>op_Pair = k, op_Price = amount_of (st_Prices s) k\<rparr>) (gm_keys (st_Prices s)))"
proof -
  have "prices_ok (st_Prices newState)" by (simp add: prices_ok_def newState_def)
  then have "prices_ok (st_Prices s)" using exec_chain_prices_ok assms(3) by simp
  then show ?thesis using assms(2) own_extension [OF assms(1)] extension_roundtrip [OF assms(1)]
    by (auto simp: Dex_ExtendVote_def Dex_VerifyExtension_def reading_def append_slice_def elems_def)
qed

theorem dex_extension_accepted_witness:
  "\<exists>e. Dex_ExtendVote (\<lambda>l ks. rev ks) \<lparr>vc_Height = 1, vc_Round = 0, vc_BlockHash = zero_hash\<rparr> Dex_New = (Ret (e, None), Dex_New) \<and>
     verify_extension \<lparr>re_Height = 1, re_Round = 0, re_Validator = zero_address, re_Extension = e\<rparr> = ExtensionAccept"
  using dex_extension_accepted [of "\<lambda>l ks. rev ks" Dex_New newState "[]" "\<lparr>vc_Height = 1, vc_Round = 0, vc_BlockHash = zero_hash\<rparr>"]
  by (fastforce simp: valid_order_def Dex_New_def Dex_VerifyExtension_def)

lemma OracleUpdateTx_eq: "OracleUpdateTx q = TxOracleUpdate # Marshal (json_slice json_OraclePrice q)"
  using oracle_tx_eq [of "Marshal (json_slice json_OraclePrice q)" TxOracleUpdate] by (simp add: OracleUpdateTx_def Let_def)

lemma Marshal_slice_nonempty: "Marshal (json_slice f q) \<noteq> []"
  by (cases q) (auto simp: Marshal_def json_slice_def bytes_def)

lemma oracle_update_one:
  assumes "state_ok s" and "op_Pair p \<noteq> []" and "op_Price p \<noteq> 0" and "valid_utf8 (op_Pair p)"
  obtains out evs s' where "executeTx s i (OracleUpdateTx (Some [p])) = Ret (out, evs, s')"
    and "gm_get (st_Prices s') (op_Pair p) = Some (op_Price p)"
proof -
  let ?tx = "OracleUpdateTx (Some [p])"
  have dec: "Unmarshal_prices (Marshal (json_slice json_OraclePrice (Some [p]))) = Inr (Some [p])"
    by (rule prices_roundtrip) (simp add: elems_def assms)
  have kind: "executeTx s i ?tx = executeOracleUpdate s i ?tx"
    by (simp add: executeTx_def OracleUpdateTx_eq TxDeposit_def TxWithdraw_def TxLimitOrder_def TxOracleUpdate_def)
  obtain fm where fm: "st_Prices s = MkMap fm" using assms(1) by (cases "st_Prices s") (auto simp: state_ok_def)
  show ?thesis
    using that kind dec assms(2,3) fm Marshal_slice_nonempty [of json_OraclePrice "Some [p]"]
    by (cases "Marshal (json_slice json_OraclePrice (Some [p]))")
      (auto simp: executeOracleUpdate_def OracleUpdateTx_eq elems_def)
qed

text \<open>
  C39. The gap in \<open>VerifyProposal\<close>: when the proposal carries vote extensions, a proposer may
  start it with any other transaction and follow with an oracle update of its own making.
  Every validator accepts the proposal, and executing it sets the price to the forged value.
\<close>

theorem forged_oracle_update:
  assumes "op_Pair p \<noteq> []" and "op_Price p \<noteq> 0" and "valid_utf8 (op_Pair p)" and "\<not> is_oracle_tx tx"
    and "rp_Txs proposal = [tx, OracleUpdateTx (Some [p])]" and "rp_VoteExtensions proposal \<noteq> []"
    and "fb_Txs b = rp_Txs proposal"
  shows "Dex_VerifyProposal proposal app = (Ret (accept, None), app) \<and>
     gm_get (st_Prices (snd (dex_exec c b))) (op_Pair p) = Some (op_Price p)"
proof
  show "Dex_VerifyProposal proposal app = (Ret (accept, None), app)"
    using assms(4-6) by (simp add: Dex_VerifyProposal_def verify_proposal_def)
  obtain out evs s1 where 1: "executeTx ((cloned c)\<lparr>st_Height := fb_Height b\<rparr>) 0 tx = Ret (out, evs, s1)" "state_ok s1"
    using executeTx_run [OF state_ok_start] by metis
  obtain out' evs' s2 where 2: "executeTx s1 1 (OracleUpdateTx (Some [p])) = Ret (out', evs', s2)"
    "gm_get (st_Prices s2) (op_Pair p) = Some (op_Price p)"
    by (rule oracle_update_one [OF 1(2) assms(1-3)])
  show "gm_get (st_Prices (snd (dex_exec c b))) (op_Pair p) = Some (op_Price p)"
    using 1 2 assms(5,7) by (simp add: dex_exec_def)
qed

theorem forged_oracle_update_witness:
  "\<exists>proposal. Dex_VerifyProposal proposal Dex_New = (Ret (accept, None), Dex_New) \<and>
     gm_get (st_Prices (snd (dex_exec newState (MakeBlock 1 (rp_Txs proposal))))) ''ETH/USD'' = Some 1"
proof -
  let ?p = "\<lparr>op_Pair = ''ETH/USD'', op_Price = 1\<rparr>"
  let ?proposal = "\<lparr>rp_Height = 1, rp_Time = \<lparr>ts_Seconds = 0, ts_Nanos = 0\<rparr>, rp_Proposer = zero_address,
    rp_Txs = [[TxDeposit], OracleUpdateTx (Some [?p])],
    rp_VoteExtensions = [\<lparr>cve_Validator = zero_address, cve_Extension = []\<rparr>]\<rparr>"
  have "valid_utf8 ''ETH/USD''" by (simp add: valid_utf8.simps rune_size_def)
  moreover have "\<not> is_oracle_tx [TxDeposit]" by (simp add: is_oracle_tx_def TxDeposit_def TxOracleUpdate_def)
  ultimately show ?thesis
    using forged_oracle_update [of ?p "[TxDeposit]" ?proposal "MakeBlock 1 (rp_Txs ?proposal)" Dex_New newState]
    by (intro exI [of _ ?proposal]) (simp add: MakeBlock_def Let_def)
qed

end
