(* ===== verification/Dex_Sync.thy ===== *)
theory Dex_Sync
  imports Dex
begin

text \<open>
  \<^verbatim>\<open>example/dex/app.go\<close>, state sync and the application hash at the level of the handlers:
  a snapshot restores the state it was taken of, a partial or damaged one changes nothing,
  and two states that the hash does not tell apart.
\<close>

section \<open>Snapshots\<close>

definition exported :: "state \<Rightarrow> SnapshotChunk list" where
  "exported s = (let d = Marshal (json_state s) in
     map (\<lambda>i. \<lparr>sc_Index = of_nat i, sc_Data = piece d i\<rparr>) [0..<n_chunks d])"

lemma dex_export_import:
  assumes "json_ok s" and "fits (Marshal (json_state s))"
  shows "app_current app = Some s \<Longrightarrow> Dex_ExportSnapshot (st_Height s) snapshotFormat app =
      (Ret ((Some (exported s), Some (descriptor (st_Height s) (Marshal (json_state s)))), None), app)"
    and "app_current app = Some s \<Longrightarrow> st_Height s \<noteq> 0 \<Longrightarrow> Dex_AvailableSnapshots app =
      (Ret ([descriptor (st_Height s) (Marshal (json_state s))], None), app)"
    and "set cs = set (exported s) \<Longrightarrow> Dex_ImportSnapshot (descriptor (st_Height s) (Marshal (json_state s))) cs app' =
      (Ret (zero_ImportResult\<lparr>ir_Status := ImportOK, ir_AppHash := Some (appHash s)\<rparr>, None), app'\<lparr>app_current := Some s\<rparr>)"
  using export_eq [OF assms(2) refl] import_export [OF assms refl]
  by (simp_all add: exported_def Let_def Dex_ExportSnapshot_def Dex_AvailableSnapshots_def Dex_ImportSnapshot_def
      reading_def available_snapshots_def)


lemma gm_keys_empty: "gm_keys (MkMap fmempty) = []"
  by (simp add: gm_keys_def sorted_list_of_fset.rep_eq)

lemma new_state_text: "Marshal (json_state (newState\<lparr>st_Height := 1\<rparr>)) =
    bytes (''{'' @ [CHR 0x22] @ ''height'' @ [CHR 0x22] @ '':1,'' @ [CHR 0x22] @ ''balances'' @ [CHR 0x22] @ '':{},'' @
      [CHR 0x22] @ ''orders'' @ [CHR 0x22] @ '':null,'' @ [CHR 0x22] @ ''prices'' @ [CHR 0x22] @ '':{}}'')"
proof -
  have "dec_nat 1 = ''1''" by (subst dec_nat.simps) (simp add: digit_char_def char_of_def bit_Suc_0_iff)
  then show ?thesis
    by (simp add: Marshal_def json_state_def newState_def json_u64_def json_map_def json_slice_def gm_make_def gm_keys_empty)
qed


text \<open>
  A partial snapshot is never installed: as long as chunks are missing, import asks for
  exactly the missing ones, of which there is at least one, and changes nothing.
\<close>

theorem dex_import_retry:
  assumes "sd_Format desc = snapshotFormat" and "sc_Index ` set cs \<subset> {i. i < sd_Chunks desc}"
  shows "\<exists>r. Dex_ImportSnapshot desc cs app = (Ret (r, None), app) \<and> ir_Status r = ImportRetryChunks \<and>
     set (ir_RetryIndices r) = {i. i < sd_Chunks desc} - sc_Index ` set cs \<and> ir_RetryIndices r \<noteq> []"
proof -
  let ?m = "filter (\<lambda>i. i \<notin> sc_Index ` set cs) (upto_u32 (sd_Chunks desc))"
  have m: "set ?m = {i. i < sd_Chunks desc} - sc_Index ` set cs" by (auto simp: upto_u32_set)
  have "set ?m \<noteq> {}" unfolding m using assms(2) by blast
  then have "?m \<noteq> []" by (rule contrapos_nn) simp
  with m show ?thesis using import_missing [OF assms] by (simp add: Dex_ImportSnapshot_def)
qed

theorem dex_import_retry_witness:
  "\<exists>r. Dex_ImportSnapshot \<lparr>sd_Height = 1, sd_Format = 1, sd_Chunks = 2, sd_Hash = zero_hash, sd_Metadata = []\<rparr>
       [\<lparr>sc_Index = 1, sc_Data = []\<rparr>] Dex_New = (Ret (r, None), Dex_New) \<and> 0 \<in> set (ir_RetryIndices r)"
proof -
  have zero: "(0 :: u32) \<in> {i. i < 2}" "(0 :: u32) \<notin> {1}" by simp_all
  have "{1} \<subseteq> {i. i < (2 :: u32)}" by simp
  with zero have "{1} \<subset> {i. i < (2 :: u32)}" by (metis psubsetI)
  with zero show ?thesis
    using dex_import_retry [of "\<lparr>sd_Height = 1, sd_Format = 1, sd_Chunks = 2, sd_Hash = zero_hash, sd_Metadata = []\<rparr>"
      "[\<lparr>sc_Index = 1, sc_Data = []\<rparr>]" Dex_New] by (fastforce simp: snapshotFormat_def)
qed

text \<open>
  C33. Import is all or nothing, whatever the descriptor and the chunks: it always returns; with
  any status but OK the application is unchanged; with OK the new state is decoded from bytes
  that have the announced hash, the staged state is kept, and the hash reported is its hash.
\<close>

theorem dex_import_sound:
  "\<exists>r app'. Dex_ImportSnapshot desc cs app = (Ret (r, None), app') \<and>
     (if ir_Status r = ImportOK
      then \<exists>s full. app' = app\<lparr>app_current := Some s\<rparr> \<and> ir_AppHash r = Some (appHash s) \<and>
             Sum256 full = sd_Hash desc \<and> Unmarshal_state full newState = Inr s
      else app' = app)"
proof -
  obtain r st where r: "import_snapshot desc cs = (r, st)" by (cases "import_snapshot desc cs") auto
  show ?thesis using import_sound [OF r] r by (cases st) (auto simp: Dex_ImportSnapshot_def)
qed

section \<open>The application hash\<close>

definition deposit_block :: "char \<Rightarrow> FinalizedBlock" where
  "deposit_block c = MakeBlock 1 [DepositTx (TestAddress 1) 7 [c]]"

definition balance_query :: "char \<Rightarrow> StateQuery" where
  "balance_query c = \<lparr>sq_Path = ''/balance'', sq_Data = TestAddress 1 @ bytes [c], sq_Height = None, sq_Prove = False\<rparr>"

definition deposited :: "char \<Rightarrow> state" where
  "deposited c = newState\<lparr>st_Height := 1, st_Orders := Some [], st_Balances := MkMap (fmupd (addrHex (TestAddress 1))
     (MkMap (fmupd [c] 7 fmempty)) fmempty)\<rparr>"

lemma deposit_block_state: "snd (dex_exec newState (deposit_block c)) = deposited c"
  and deposit_block_hash: "bo_AppHash (fst (dex_exec newState (deposit_block c))) = appHash (deposited c)"
proof -
  let ?tx = "DepositTx (TestAddress 1) 7 [c]" and ?s = "(cloned newState)\<lparr>st_Height := 1\<rparr>"
  have len: "30 \<le> length ?tx" by (simp add: DepositTx_fields)
  have kind: "executeTx ?s 0 ?tx = executeDeposit ?s 0 ?tx"
    by (simp add: executeTx_def DepositTx_eq)
  have s: "?s = newState\<lparr>st_Height := 1, st_Orders := Some []\<rparr>"
    by (simp add: cloned_def newState_def present_def gm_make_def elems_def)
  have "\<exists>out. executeTx ?s 0 ?tx = Ret (out, [], deposited c)"
    unfolding kind executeDeposit_fields [OF len] unfolding s
    by (simp add: DepositTx_fields newState_def deposited_def gm_make_def set_balance_def inner_def balance_def amount_of_def
        fmupd_twice)
  then show "snd (dex_exec newState (deposit_block c)) = deposited c"
    "bo_AppHash (fst (dex_exec newState (deposit_block c))) = appHash (deposited c)"
    by (auto simp: dex_exec_def deposit_block_def MakeBlock_def Let_def)
qed

lemma gm_keys_single: "gm_keys (MkMap (fmupd k v fmempty)) = [k]"
  by (simp add: gm_keys_def sorted_list_of_fset.rep_eq)

lemma deposited_text:
  assumes "quote [c] = quote [d]"
  shows "appHash (deposited c) = appHash (deposited d)"
  using assms by (simp add: appHash_def json_state_def deposited_def newState_def json_map_def gm_keys_single)

text \<open>
  C40. The application hash does not determine the state: denominations are raw bytes, and the
  encoder writes every byte that is not valid UTF-8 as the same replacement character. After
  a deposit of the denomination \<open>FF\<close> on one node and of \<open>FE\<close> on another, both report the same
  application hash for the block, yet they answer balance queries differently.
\<close>

theorem appHash_collision:
  "bo_AppHash (fst (dex_exec newState (deposit_block (CHR 0xFF)))) =
     bo_AppHash (fst (dex_exec newState (deposit_block (CHR 0xFE)))) \<and>
   sr_Value (dex_answer (snd (dex_exec newState (deposit_block (CHR 0xFF)))) (balance_query (CHR 0xFF))) = PutUint64 7 \<and>
   sr_Value (dex_answer (snd (dex_exec newState (deposit_block (CHR 0xFE)))) (balance_query (CHR 0xFF))) = PutUint64 0"
proof -
  have q: "quote [c] = esc (CHR ''u'') @ ''fffd''" if "rune_size [c] = 0" "\<not> code c < 0x80" for c
    using that by (simp add: quote.simps)
  have "quote [CHR 0xFF] = quote [CHR 0xFE]" by (simp add: q rune_size_def)
  then have "appHash (deposited (CHR 0xFF)) = appHash (deposited (CHR 0xFE))" by (rule deposited_text)
  moreover have "sr_Value (dex_answer (deposited c) (balance_query d)) = PutUint64 (if c = d then 7 else 0)" for c d
    using TestAddress_address [of 1]
    by (simp add: dex_answer_def dex_query_def balance_query_def deposited_def balance_def inner_def amount_of_def
        is_address_def zero_StateQueryResult_def)
  ultimately show ?thesis by (simp add: deposit_block_state deposit_block_hash)
qed

end
