(* ===== verification/Grpc_Loopback.thy ===== *)
theory Grpc_Loopback
  imports Grpc_Link Dex_Sync
begin

text \<open>
  A network on which both ends of the transport run: the loopback holds the remote
  \<open>GRPCServer\<close> and the open streams, finds the handlers in \<open>serviceDesc\<close> the way the gRPC
  library does, and hands messages over through a codec. It has the properties that
  \<open>grpc_streams\<close> asks of the library, so what is proved of the client under them can be
  evaluated on it. The last part is about a network that loses a reply.
\<close>

section \<open>The loopback\<close>

record loop_stream =
  ls_name :: string
  ls_many :: bool
  ls_sent :: "message list"
  ls_closed :: bool
  ls_result :: "(message list \<times> go_error) option"

record 'a loopback =
  lo_server :: "'a GRPCServer"
  lo_up :: bool
  lo_streams :: "loop_stream list"

definition status_of :: "go_error \<Rightarrow> go_error" where
  "status_of e = ErrorString (''rpc error: code = Unknown desc = '' @ Error_text e)"

definition unavailable :: go_error where
  "unavailable = ErrorString ''rpc error: code = Unavailable''"

definition unimplemented :: go_error where
  "unimplemented = ErrorString ''rpc error: code = Unimplemented''"

text \<open>A codec that hands values over as they are.\<close>

definition plain_cram :: "message cramberry" where
  "plain_cram = \<lparr>cram_Marshal = Inr, cram_Unmarshal = (\<lambda>m k. if kind_of m = k then Inr m else Inl (ErrorString ''kind mismatch''))\<rparr>"

definition handed_over :: "message \<Rightarrow> kind \<Rightarrow> go_error + message" where
  "handed_over m k =
     (case CramberryCodec_Marshal plain_cram m of
        Inl e \<Rightarrow> Inl (status_of e)
      | Inr d \<Rightarrow> CramberryCodec_Unmarshal plain_cram d k)"

text \<open>Unary calls. A handler that panics takes the remote process down.\<close>

definition loop_Invoke :: "string \<Rightarrow> message \<Rightarrow> kind \<Rightarrow> 'a loopback \<Rightarrow> (go_error + message) go \<times> 'a loopback" where
  "loop_Invoke name q k w =
     (if \<not> lo_up w then (Ret (Inl unavailable), w)
      else case map_of (map (\<lambda>(m, h). (fullMethod m, h)) (svc_Methods (serviceDesc :: ('a, unit) ServiceDesc))) name of
        None \<Rightarrow> (Ret (Inl unimplemented), w)
      | Some h \<Rightarrow>
          (case h (handed_over q) (lo_server w) of
             (Ret (r, Some e), s) \<Rightarrow> (Ret (Inl (status_of e)), w\<lparr>lo_server := s\<rparr>)
           | (Ret (None, None), s) \<Rightarrow> (Ret (Inl unimplemented), w\<lparr>lo_server := s\<rparr>)
           | (Ret (Some r, None), s) \<Rightarrow> (Ret (handed_over r k), w\<lparr>lo_server := s\<rparr>)
           | (Panic m, s) \<Rightarrow> (Ret (Inl unavailable), w\<lparr>lo_server := s, lo_up := False\<rparr>)
           | (Blocked, s) \<Rightarrow> (Blocked, w\<lparr>lo_server := s\<rparr>)))"

text \<open>The server's end of a stream: what has arrived and what has been sent.\<close>

type_synonym loop_end = "message list \<times> message list"

definition loop_ServerStream :: "loop_end ServerStream" where
  "loop_ServerStream = \<lparr>
     ss_RecvMsg = (\<lambda>k (ins, outs).
       case ins of
         [] \<Rightarrow> (Ret (Inl io_EOF), ([], outs))
       | m # ms \<Rightarrow> (Ret (handed_over m k), (ms, outs))),
     ss_SendMsg = (\<lambda>m (ins, outs). (Ret None, (ins, outs @ [m])))\<rparr>"

text \<open>
  The client's end. \<open>CloseSend\<close> closes the client's direction; the handler of the stream runs when
  the client first waits for what it sends.
\<close>

definition stream_at :: "'a loopback \<Rightarrow> stream_id \<Rightarrow> loop_stream option" where
  "stream_at w h = (if h < length (lo_streams w) then Some (lo_streams w ! h) else None)"

definition put_stream :: "stream_id \<Rightarrow> loop_stream \<Rightarrow> 'a loopback \<Rightarrow> 'a loopback" where
  "put_stream h x w = w\<lparr>lo_streams := (lo_streams w)[h := x]\<rparr>"

definition loop_NewStream :: "StreamDesc \<Rightarrow> string \<Rightarrow> 'a loopback \<Rightarrow> (go_error + stream_id) go \<times> 'a loopback" where
  "loop_NewStream desc name w =
     (if \<not> lo_up w then (Ret (Inl unavailable), w)
      else (Ret (Inr (length (lo_streams w))),
        w\<lparr>lo_streams := lo_streams w @ [\<lparr>ls_name = drop (length (fullMethod [])) name, ls_many = str_ServerStreams desc,
          ls_sent = [], ls_closed = False, ls_result = None\<rparr>]\<rparr>))"

definition loop_SendMsg :: "stream_id \<Rightarrow> message \<Rightarrow> 'a loopback \<Rightarrow> go_error option go \<times> 'a loopback" where
  "loop_SendMsg h m w =
     (case stream_at w h of
        None \<Rightarrow> (Ret (Some unavailable), w)
      | Some x \<Rightarrow> (Ret None, put_stream h (x\<lparr>ls_sent := ls_sent x @ [m]\<rparr>) w))"

definition loop_CloseSend :: "stream_id \<Rightarrow> 'a loopback \<Rightarrow> go_error option go \<times> 'a loopback" where
  "loop_CloseSend h w =
     (case stream_at w h of
        None \<Rightarrow> (Ret (Some unavailable), w)
      | Some x \<Rightarrow> (Ret None, put_stream h (x\<lparr>ls_closed := True\<rparr>) w))"

definition loop_take :: "stream_id \<Rightarrow> kind \<Rightarrow> loop_stream \<Rightarrow> message list \<Rightarrow> go_error \<Rightarrow> 'a loopback \<Rightarrow>
    (go_error + message) go \<times> 'a loopback" where
  "loop_take h k x ms e w =
     (case ms of
        [] \<Rightarrow> (Ret (Inl e), put_stream h (x\<lparr>ls_result := Some ([], e)\<rparr>) w)
      | m # ms \<Rightarrow> (Ret (handed_over m k), put_stream h (x\<lparr>ls_result := Some (ms, e)\<rparr>) w))"

definition loop_end_of :: "go_error option \<Rightarrow> go_error" where
  "loop_end_of err = (case err of None \<Rightarrow> io_EOF | Some e \<Rightarrow> status_of e)"

definition loop_RecvMsg :: "stream_id \<Rightarrow> kind \<Rightarrow> 'a loopback \<Rightarrow> (go_error + message) go \<times> 'a loopback" where
  "loop_RecvMsg h k w =
     (case stream_at w h of
        None \<Rightarrow> (Ret (Inl unavailable), w)
      | Some x \<Rightarrow>
          (case ls_result x of
             Some (ms, e) \<Rightarrow> loop_take h k x ms e w
           | None \<Rightarrow>
               if \<not> ls_closed x then (Blocked, w)
               else case stream_handler_of (serviceDesc :: ('a, loop_end) ServiceDesc) (ls_name x) of
                 None \<Rightarrow> (Ret (Inl unimplemented), w)
               | Some run \<Rightarrow>
                   (case run loop_ServerStream (lo_server w, (ls_sent x, [])) of
                      (Ret err, (s, (ins, outs))) \<Rightarrow> loop_take h k x outs (loop_end_of err) (w\<lparr>lo_server := s\<rparr>)
                    | (Panic m, (s, _)) \<Rightarrow> (Ret (Inl unavailable), w\<lparr>lo_server := s, lo_up := False\<rparr>)
                    | (Blocked, (s, _)) \<Rightarrow> (Blocked, w\<lparr>lo_server := s\<rparr>))))"

definition loop_lib :: "'a loopback ClientConn" where
  "loop_lib = \<lparr>cc_Invoke = loop_Invoke, cc_NewStream = loop_NewStream, cs_SendMsg = loop_SendMsg,
     cs_CloseSend = loop_CloseSend, cs_RecvMsg = loop_RecvMsg, cc_Close = (\<lambda>w. (None, w\<lparr>lo_up := False\<rparr>))\<rparr>"

definition loop_stream_of :: "'a loopback \<Rightarrow> stream_id \<Rightarrow> (string \<times> bool) option" where
  "loop_stream_of w h =
     (case stream_at w h of None \<Rightarrow> None | Some x \<Rightarrow> if ls_closed x \<or> ls_result x \<noteq> None then None else Some (ls_name x, ls_many x))"

definition loop_sent :: "'a loopback \<Rightarrow> stream_id \<Rightarrow> message list" where
  "loop_sent w h = (case stream_at w h of None \<Rightarrow> [] | Some x \<Rightarrow> ls_sent x)"

definition loop_running :: "'a loopback \<Rightarrow> stream_id \<Rightarrow> bool \<Rightarrow> message list \<Rightarrow> go_error option \<Rightarrow> 'a GRPCServer \<Rightarrow> bool" where
  "loop_running w h many ms err s =
     (case stream_at w h of
        None \<Rightarrow> False
      | Some x \<Rightarrow>
          (case ls_result x of
             Some r \<Rightarrow> r = (ms, loop_end_of err) \<and> lo_server w = s
           | None \<Rightarrow>
               ls_closed x \<and>
               (case stream_handler_of (serviceDesc :: ('a, loop_end) ServiceDesc) (ls_name x) of
                  None \<Rightarrow> False
                | Some run \<Rightarrow>
                    (case run loop_ServerStream (lo_server w, (ls_sent x, [])) of
                       (r, (s', (ins, outs))) \<Rightarrow> r = Ret err \<and> s' = s \<and> outs = ms))))"

section \<open>The loopback is such a library\<close>

lemma plain_codec:
  "CramberryCodec_Marshal plain_cram m = Inr m"
  "handed_over m = CramberryCodec_Unmarshal plain_cram m"
  "CramberryCodec_Unmarshal plain_cram m (kind_of m) = Inr m"
  by (auto simp: CramberryCodec_Marshal_def CramberryCodec_Unmarshal_def plain_cram_def handed_over_def fun_eq_iff)

lemma plain_faithful: "faithful plain_cram"
  by (simp add: faithful_def plain_cram_def)

lemma fullMethod_inject [simp]: "fullMethod m = fullMethod n \<longleftrightarrow> m = n"
  by (simp add: fullMethod_def)

lemma fullMethod_drop [simp]: "drop (length (fullMethod [])) (fullMethod m) = m"
  by (simp add: fullMethod_def)

lemma map_of_fullMethod: "map_of (map (\<lambda>(m, h). (fullMethod m, h)) ms) (fullMethod n) = map_of ms n"
  by (induction ms) auto

lemma stream_put [simp]:
  "stream_at (put_stream h x w) h = (if stream_at w h = None then None else Some x)"
  "stream_at (w\<lparr>lo_server := s\<rparr>) h = stream_at w h"
  "lo_server (put_stream h x w) = lo_server w" "lo_up (put_stream h x w) = lo_up w"
  by (simp_all add: put_stream_def stream_at_def)

lemmas loop_defs = loop_lib_def loop_Invoke_def loop_NewStream_def loop_SendMsg_def loop_stream_of_def loop_sent_def

lemma loop_client_close:
  assumes "loop_stream_of w h = Some (m, many)" and "stream_handler_of (serviceDesc :: ('a, loop_end) ServiceDesc) m = Some run"
    and "fst st = loop_sent w h" and "snd st = []" and "run loop_ServerStream (lo_server w, st) = (Ret err, (s, st'))"
  shows "\<exists>w'. cs_CloseSend loop_lib h w = (Ret None, w') \<and> lo_up w' = lo_up w \<and> loop_running w' h many (snd st') err s"
proof -
  obtain x where x: "stream_at w h = Some x" "ls_name x = m" "ls_result x = None"
    using assms(1) by (cases "stream_at w h") (auto simp: loop_stream_of_def simp del: not_None_eq split: if_splits)
  have "st = (ls_sent x, [])" using assms(3,4) x by (cases st) (simp add: loop_sent_def)
  then show ?thesis using assms(2,5) x by (cases st') (simp add: loop_lib_def loop_CloseSend_def loop_running_def)
qed

lemma loop_take_running:
  assumes "stream_at w h = Some x"
  shows "loop_take h k x [] (loop_end_of err) w = (Ret (Inl (loop_end_of err)), snd (loop_take h k x [] (loop_end_of err) w))"
    and "loop_take h (kind_of msg) x (msg # ms) (loop_end_of err) w =
      (Ret (Inr msg), snd (loop_take h (kind_of msg) x (msg # ms) (loop_end_of err) w))"
    and "loop_running (snd (loop_take h k x (msg # ms) (loop_end_of err) w)) h many ms err (lo_server w)"
    and "lo_server (snd (loop_take h k x ns e w)) = lo_server w" and "lo_up (snd (loop_take h k x ns e w)) = lo_up w"
  using assms by (simp_all add: loop_take_def loop_running_def plain_codec split: list.split)

lemma loop_running_recv:
  assumes "loop_running w h many ms err s"
  shows "\<exists>w' x. cs_RecvMsg loop_lib h k w = loop_take h k x ms (loop_end_of err) w' \<and> stream_at w' h = Some x \<and>
     lo_server w' = s \<and> lo_up w' = lo_up w"
proof -
  obtain x where x: "stream_at w h = Some x" using assms by (auto simp: loop_running_def split: option.splits)
  show ?thesis
  proof (cases "ls_result x")
    case None
    then show ?thesis using assms x
      by (intro exI [of _ "w\<lparr>lo_server := s\<rparr>"] exI [of _ x])
        (auto simp: loop_running_def loop_lib_def loop_RecvMsg_def split: option.splits prod.splits)
  next
    case (Some r)
    then show ?thesis using assms x
      by (intro exI [of _ w] exI [of _ x]) (simp add: loop_running_def loop_lib_def loop_RecvMsg_def)
  qed
qed

lemma loop_server_stream:
  "ss_RecvMsg loop_ServerStream k ([], outs) = (Ret (Inl io_EOF), ([], outs))"
  "ss_RecvMsg loop_ServerStream (kind_of m) (m # ms, outs) = (Ret (Inr m), (ms, outs))"
  "ss_SendMsg loop_ServerStream m (ins, outs) = (Ret None, (ins, outs @ [m]))"
  by (simp_all add: loop_ServerStream_def plain_codec)

lemma loop_client_send:
  assumes "loop_stream_of w h = Some (m, many)"
  shows "\<exists>w'. cs_SendMsg loop_lib h msg w = (Ret None, w') \<and> loop_stream_of w' h = Some (m, many) \<and>
     loop_sent w' h = loop_sent w h @ [msg] \<and> lo_server w' = lo_server w \<and> lo_up w' = lo_up w"
  using assms by (cases "stream_at w h") (auto simp: loop_defs split: if_splits)

lemma loop_client_recv:
  assumes "loop_running w h many (msg # ms) err s"
  shows "\<exists>w'. cs_RecvMsg loop_lib h (kind_of msg) w = (Ret (Inr msg), w') \<and> lo_up w' = lo_up w \<and>
     loop_running w' h many ms err s \<and> lo_server w' = s"
proof -
  obtain w' x where w': "cs_RecvMsg loop_lib h (kind_of msg) w = loop_take h (kind_of msg) x (msg # ms) (loop_end_of err) w'"
    "stream_at w' h = Some x" "lo_server w' = s" "lo_up w' = lo_up w" using loop_running_recv [OF assms] by blast
  note t = loop_take_running [OF w'(2)]
  show ?thesis using w'(1,3,4) t(2) [of msg ms err] t(3) [of "kind_of msg" msg ms err many] t(4,5) [of "kind_of msg" "msg # ms" "loop_end_of err"]
    by metis
qed

lemma loop_client_end:
  assumes "loop_running w h many [] err s"
  shows "\<exists>w'. cs_RecvMsg loop_lib h k w = (Ret (Inl (loop_end_of err)), w') \<and> lo_up w' = lo_up w \<and> lo_server w' = s"
proof -
  obtain w' x where w': "cs_RecvMsg loop_lib h k w = loop_take h k x [] (loop_end_of err) w'"
    "stream_at w' h = Some x" "lo_server w' = s" "lo_up w' = lo_up w" using loop_running_recv [OF assms] by blast
  note t = loop_take_running [OF w'(2)]
  show ?thesis using w'(1,3,4) t(1) [of k err] t(4,5) [of k "[]" "loop_end_of err"] by metis
qed

lemma loop_client_open:
  assumes "lo_up w"
  shows "\<exists>h w'. cc_NewStream loop_lib desc (fullMethod m) w = (Ret (Inr h), w') \<and> loop_stream_of w' h = Some (m, str_ServerStreams desc) \<and>
     loop_sent w' h = [] \<and> lo_server w' = lo_server w \<and> lo_up w'"
  using assms by (simp add: loop_defs stream_at_def)

lemma loop_invoke_ok:
  assumes "lo_up w" and "map_of (svc_Methods (serviceDesc :: ('a, unit) ServiceDesc)) m = Some h"
    and "h (CramberryCodec_Unmarshal plain_cram q) (lo_server w) = (Ret (Some r, None), s)"
    and "CramberryCodec_Unmarshal plain_cram r k = Inr r'"
  shows "cc_Invoke loop_lib (fullMethod m) q k w = (Ret (Inr r'), w\<lparr>lo_server := s\<rparr>)"
  using assms by (simp add: loop_defs map_of_fullMethod plain_codec)

lemma loop_invoke_err:
  assumes "lo_up w" and "map_of (svc_Methods (serviceDesc :: ('a, unit) ServiceDesc)) m = Some h"
    and "h (CramberryCodec_Unmarshal plain_cram q) (lo_server w) = (Ret (r, Some e), s)"
  shows "cc_Invoke loop_lib (fullMethod m) q k w = (Ret (Inl (status_of e)), w\<lparr>lo_server := s\<rparr>)"
  using assms by (simp add: loop_defs map_of_fullMethod plain_codec split: option.split)

interpretation loop: grpc_streams loop_lib plain_cram lo_server lo_up status_of "\<lambda>_. True" loop_ServerStream fst snd
    loop_stream_of loop_sent loop_running
proof (unfold_locales, goal_cases)
  case 1 show ?case by (rule plain_faithful)
next
  case 2 then show ?case using loop_invoke_ok by (fastforce simp: plain_codec(1))
next
  case 3 then show ?case using loop_invoke_err by (fastforce simp: plain_codec(1))
next
  case 4 show ?case by (simp add: status_of_def)
next
  case (6 st msg ms k) then show ?case using loop_server_stream(2) by (cases st) auto
next
  case (7 st k) then show ?case using loop_server_stream(1) by (cases st) auto
next
  case (8 msg st) then show ?case using loop_server_stream(3) by (cases st) auto
next
  case 9 then show ?case by (rule loop_client_open)
next
  case 10 then show ?case using loop_client_send by blast
next
  case 11 then show ?case using loop_client_close by blast
next
  case 12 then show ?case using loop_client_recv by blast
next
  case 13 then show ?case using loop_client_end by (fastforce simp: loop_end_of_def)
qed simp

text \<open>A server behind the loopback, and a client dialled to it.\<close>

definition loop_to :: "'a Lifecycle \<Rightarrow> 'a \<Rightarrow> 'a loopback" where
  "loop_to app a = \<lparr>lo_server = NewGRPCServer app a, lo_up = True, lo_streams = []\<rparr>"

definition loop_client :: "'a Lifecycle \<Rightarrow> 'a \<Rightarrow> 'a loopback Client" where
  "loop_client app a = \<lparr>cl_cc = loop_to app a, cl_caps = 0, cl_guard = NewLifecycleGuard\<rparr>"

lemma loop_Dial: "Dial (\<lambda>_. Inr (loop_to app a)) addr = (Some (loop_client app a), None)"
  by (simp add: Dial_def loop_client_def)

lemma loop_linked: "linked lo_server lo_up app (loop_client app a) (New app a)"
  by (rule linked_Dial [OF loop_Dial refl]) (simp_all add: loop_to_def)

definition not_wired :: "string \<Rightarrow> go_error" where
  "not_wired callback = ErrorString (''MempoolObserver.'' @ callback @ '' over gRPC not yet wired (PLAN Phase 0.3)'')"

section \<open>Properties\<close>


definition example_calls :: "engine_call list" where
  "example_calls = [ECCommit, ECHandshake \<lparr>hq_LastCommitted = None, hq_Genesis = None\<rparr>, ECExecuteBlock block_1, ECCommit]"

lemma counter_returns:
  "returns (fst (m_Handshake counter_lifecycle req a))" "returns (fst (m_CheckTx counter_lifecycle tx mctx a))"
  "returns (fst (m_ExecuteBlock counter_lifecycle b a))" "returns (fst (m_Commit counter_lifecycle a))"
  "returns (fst (m_Query counter_lifecycle q a))"
  using counter_handshake_returns [of req a] Counter_txs_spec [of 0 "ca_count a" "fb_Txs b"]
  by (auto simp: counter_lifecycle_def Counter_CheckTx_def Counter_ExecuteBlock_def Counter_Commit_def
      Counter_Query_def Let_def split: option.splits)

lemma travels_all: "travels (\<lambda>_. True) qs ms m = returns m"
  by (cases m) (auto simp: travels_def list_all_iff split: prod.splits)

lemma served_ok:
  assumes "session_ok app (c_srv l)" and "served carries x (c_srv l)"
  shows "session_ok app (c_srv (snd (engine_via local_conn x l)))"
proof (cases x)
  case (ECHandshake req)
  then show ?thesis using assms session_ok_Handshake [OF assms(1), of req]
      travels_returns [of carries "requests (ECHandshake req)" "\<lambda>r. [MHandshakeResponse r]"] by (simp add: conn_unfold session_ok_def)
qed (use assms in \<open>auto simp: conn_unfold CheckTx_def Query_def split: option.splits if_splits\<close>)

lemma all_served:
  assumes "\<And>x s. x \<in> set xs \<Longrightarrow> session_ok app s \<Longrightarrow> served carries x s" and "session_ok app (c_srv l)"
  shows "all_along local_conn (\<lambda>x l. served carries x (Conn_Server l)) xs l"
  using assms by (induction xs arbitrary: l) (simp_all add: Conn_Server_def served_ok [where carries = carries])

lemma counter_served: "session_ok counter_lifecycle s \<Longrightarrow> x \<in> set example_calls \<Longrightarrow> served (\<lambda>_. True) x s"
  by (auto simp: example_calls_def session_ok_def travels_all counter_returns)


text \<open>The messages of a state sync, from the query for snapshots to the import's result.\<close>

definition sync_messages :: "state \<Rightarrow> message list" where
  "sync_messages s =
     (let desc = descriptor (st_Height s) (Marshal (json_state s)) in
      requests ECAvailableSnapshots @ [MAvailableSnapshotsResponse \<lparr>as_Snapshots = [desc]\<rparr>] @
      requests (ECExportSnapshot (st_Height s) snapshotFormat) @ map MSnapshotChunk (exported s) @
      requests (ECImportSnapshot desc (exported s)) @
      [MImportResult (zero_ImportResult\<lparr>ir_Status := ImportOK, ir_AppHash := Some (appHash s)\<rparr>)])"



text \<open>
  C19. What a lost reply does. If the network delivers a block to the remote application but
  not the outcome back, the client reports the error and considers the block not executed,
  while the server holds it as executed. The two do not come together again: the client
  refuses to commit, and another attempt to execute a block makes the handler panic on the
  remote side, for every block.
\<close>

theorem lost_reply_diverges:
  assumes "linked remote up app c s" and "ExecuteBlock b s = (Ret (out, None), s')"
    and "cc_Invoke lib (fullMethod ''ExecuteBlock'') (MFinalizedBlock b) KBlockOutcome (cl_cc c) = (Ret (Inl e), w')"
    and "remote w' = \<lparr>gs_srv = s'\<rparr>"
  shows "\<exists>c'. Client_ExecuteBlock lib b c = (Ret (zero_BlockOutcome, Some e), c') \<and>
     IsReady (cl_guard c') \<and> g_state (s_guard (GRPC_Server (remote (cl_cc c')))) = stateExecuted \<and>
     (\<exists>m. Client_Commit lib c' = (Panic m, c')) \<and>
     (\<forall>b'. \<exists>m. GRPC_ExecuteBlock b' (remote (cl_cc c')) = (Panic m, remote (cl_cc c')))"
proof -
  have l: "cl_guard c = s_guard s" and ok: "session_ok app s" and q: "quiescent (server_phase s)"
    using assms(1) by (simp_all add: linked_def)
  have inv: "server_invar s" using ok by (simp add: session_ok_def)
  have ph: "server_phase s = PReady" using ExecuteBlock_refused [OF inv q, of b] assms(2) by auto
  then have g: "s_guard s = ready_guard" using inv by (intro guard_unique) (auto simp: server_invar_def ready_guard)
  have g': "s_guard s' = ready_guard\<lparr>g_state := stateExecuted\<rparr>"
    using assms(2) g by (cases "fst (m_ExecuteBlock (s_app s) b (s_state s))")
      (auto simp: ExecuteBlock_def with_guard_def call_def guard_ops ready_guard_def guard_states
        split: prod.splits option.splits)
  show ?thesis using assms(3,4) l g g'
    by (auto simp: Client_ExecuteBlock_def Client_Commit_def on_guard_def on_cc_def guard_ops ready_guard_def guard_states
        IsReady_def GRPC_Server_def GRPC_ExecuteBlock_def pointer_or_error_def on_srv_def ExecuteBlock_def with_guard_def)
qed

definition lossy_lib :: "'a loopback ClientConn" where
  "lossy_lib = loop_lib\<lparr>cc_Invoke := (\<lambda>name q k w. (Ret (Inl unavailable), snd (loop_Invoke name q k w)))\<rparr>"

theorem lost_reply_diverges_witness:
  "\<exists>c c'. Client_ExecuteBlock lossy_lib block_1 c = (Ret (zero_BlockOutcome, Some unavailable), c') \<and>
     IsReady (cl_guard c') \<and>
     g_state (s_guard (GRPC_Server (lo_server (cl_cc c')) :: CounterApp Server)) = stateExecuted \<and>
     (\<exists>m. Client_Commit lossy_lib c' = (Panic m, c'))"
proof -
  let ?s0 = "New counter_lifecycle Counter_New"
  define s where "s = snd (Handshake \<lparr>hq_LastCommitted = None, hq_Genesis = None\<rparr> ?s0)"
  obtain c :: "CounterApp loopback Client" where c: "linked lo_server lo_up counter_lifecycle c s"
    using loop.remote_Handshake [OF loop_linked, of "\<lparr>hq_LastCommitted = None, hq_Genesis = None\<rparr>" counter_lifecycle Counter_New]
      counter_returns(1) by (auto simp: s_def New_def travels_all)
  have "s = ?s0\<lparr>s_guard := ready_guard\<rparr>"
    by (simp add: s_def Handshake_def New_def counter_lifecycle_def Counter_Handshake_def with_guard_def call_def guard_ops
        NewLifecycleGuard_def ready_guard_def discoverCapabilities_def)
  then obtain out s' where s': "ExecuteBlock block_1 s = (Ret (out, None), s')"
    by (simp add: ExecuteBlock_def New_def counter_lifecycle_def Counter_ExecuteBlock_spec with_guard_def call_def guard_ops
        ready_guard_def split: prod.splits)
  have "\<exists>w'. cc_Invoke loop_lib (fullMethod ''ExecuteBlock'') (MFinalizedBlock block_1) KBlockOutcome (cl_cc c) =
      (Ret (case None of None \<Rightarrow> Inr (MBlockOutcome out) | Some e \<Rightarrow> Inl (status_of e)), w') \<and>
      lo_server w' = \<lparr>gs_srv = s'\<rparr> \<and> lo_up w'"
    by (rule loop.invoke_method [where wrap = "\<lambda>x. x" and h = handlerExecuteBlock and f = "ExecuteBlock block_1"])
      (use c s' in \<open>auto simp: linked_def service_methods handler_defs\<close>)
  then obtain w' where "cc_Invoke lossy_lib (fullMethod ''ExecuteBlock'') (MFinalizedBlock block_1) KBlockOutcome (cl_cc c) =
      (Ret (Inl unavailable), w')" "lo_server w' = \<lparr>gs_srv = s'\<rparr>"
    by (auto simp: lossy_lib_def loop_lib_def)
  then show ?thesis using lost_reply_diverges [OF c s'] by fast
qed

text \<open>A halt request of the application does not arrive as one.\<close>

lemma halt_lost_over_grpc:
  assumes "grpc_streams lib cram remote up status_error carries slib inbox outbox stream_of sent running"
    and "linked remote up app c s" and "ExecuteBlock b s = (Ret (out, Some (Halt h)), s')"
    and "served carries (ECExecuteBlock b) s"
  shows "\<exists>e c'. Client_ExecuteBlock lib b c = (Ret (zero_BlockOutcome, Some e), c') \<and> IsHalt (Some e) = (None, False)"
  using grpc_unary.remote_ExecuteBlock [OF grpc_streams.axioms(1) [OF assms(1)] assms(2,4)] assms(3)
    grpc_unary.status_opaque [OF grpc_streams.axioms(1) [OF assms(1)], of "Halt h"]
  by (auto simp: IsHalt_def errors_As_first)

end
