(* ===== verification/Compliance.thy ===== *)
theory Compliance
  imports Dex_Sync Counter
begin

text \<open>
  \<^verbatim>\<open>testing/compliance.go\<close>: the compliance suite, a list of named tests that drive fresh
  instances of an application through the harness. A test gives the errors it reports
  (\<open>t.Errorf\<close>), or the panic or \<open>t.Fatalf\<close> that ends it; it passes if it ends without an error.
  The factory is the application with its initial state. The ten goroutines of the
  concurrent tests make the same call; they are run one after the other, which by the theory
  \<open>Linearise\<close> is what any interleaving of them amounts to.
\<close>

section \<open>Definitions\<close>

definition t_Errorf :: "bool \<Rightarrow> string \<Rightarrow> string list \<Rightarrow> string list" where
  "t_Errorf wrong fmt args = (if wrong then [fmt @ concat (map (\<lambda>x. '' '' @ x) args)] else [])"

definition genesis_handshake :: "'a Lifecycle \<Rightarrow> 'a \<Rightarrow> string list go" where
  "genesis_handshake app a =
     go_bind (fst (GenesisDefault (NewHarness app a))) (\<lambda>resp.
       Ret (t_Errorf (hr_LastBlock resp \<noteq> None) ''genesis handshake should return nil LastBlock'' []))"

definition genesis_returns_app_hash :: "'a Lifecycle \<Rightarrow> 'a \<Rightarrow> string list go" where
  "genesis_returns_app_hash app a =
     go_bind (fst (GenesisDefault (NewHarness app a))) (\<lambda>resp.
       Ret (t_Errorf (hr_AppHash resp = None) ''genesis handshake should return a non-nil AppHash'' []))"

fun cycle :: "u64 list \<Rightarrow> 'a Server \<Rightarrow> string list go" where
  "cycle [] h = Ret []"
| "cycle (i # is) h =
     (case ExecuteAndCommit (MakeEmptyBlock i) h of (r, h) \<Rightarrow>
        go_bind r (\<lambda>outcome. go_bind (cycle is h) (\<lambda>errs.
          Ret (t_Errorf (bo_AppHash outcome = zero_hash) ''height %d: zero app hash'' [dec_nat (unat i)] @ errs))))"

definition execute_commit_cycle :: "'a Lifecycle \<Rightarrow> 'a \<Rightarrow> string list go" where
  "execute_commit_cycle app a =
     (case GenesisDefault (NewHarness app a) of (r, h) \<Rightarrow> go_bind r (\<lambda>_. cycle [1, 2, 3, 4, 5] h))"

fun twins :: "u64 list \<Rightarrow> 'a Server \<Rightarrow> 'a Server \<Rightarrow> string list go" where
  "twins [] h1 h2 = Ret []"
| "twins (i # is) h1 h2 =
     (case ExecuteAndCommit (MakeEmptyBlock i) h1 of (r1, h1) \<Rightarrow> go_bind r1 (\<lambda>o1.
      case ExecuteAndCommit (MakeEmptyBlock i) h2 of (r2, h2) \<Rightarrow> go_bind r2 (\<lambda>o2.
        go_bind (twins is h1 h2) (\<lambda>errs.
          Ret (t_Errorf (bo_AppHash o1 \<noteq> bo_AppHash o2) ''height %d: non-deterministic: %x != %x''
                 [dec_nat (unat i), hex_bytes (bo_AppHash o1), hex_bytes (bo_AppHash o2)] @ errs)))))"

definition empty_blocks_deterministic :: "'a Lifecycle \<Rightarrow> 'a \<Rightarrow> string list go" where
  "empty_blocks_deterministic app a =
     (case GenesisDefault (NewHarness app a) of (r1, h1) \<Rightarrow> go_bind r1 (\<lambda>_.
      case GenesisDefault (NewHarness app a) of (r2, h2) \<Rightarrow> go_bind r2 (\<lambda>_. twins [1, 2, 3] h1 h2)))"

definition tx_8 :: "u8 \<Rightarrow> Tx" where
  "tx_8 k = [k, 2, 3, 4, 5, 6, 7, 8]"

definition deterministic_with_txs :: "'a Lifecycle \<Rightarrow> 'a \<Rightarrow> string list go" where
  "deterministic_with_txs app a =
     (case GenesisDefault (NewHarness app a) of (r1, h1) \<Rightarrow> go_bind r1 (\<lambda>_.
      case GenesisDefault (NewHarness app a) of (r2, h2) \<Rightarrow> go_bind r2 (\<lambda>_.
        go_bind (fst (ExecuteAndCommit (MakeBlock 1 [tx_8 1]) h1)) (\<lambda>o1.
        go_bind (fst (ExecuteAndCommit (MakeBlock 1 [tx_8 1]) h2)) (\<lambda>o2.
          Ret (t_Errorf (bo_AppHash o1 \<noteq> bo_AppHash o2) ''non-deterministic with txs: %x != %x''
                 [hex_bytes (bo_AppHash o1), hex_bytes (bo_AppHash o2)] @
               t_Errorf (length (bo_TxOutcomes o1) \<noteq> length (bo_TxOutcomes o2)) ''outcome count mismatch: %d != %d''
                 [dec_nat (length (bo_TxOutcomes o1)), dec_nat (length (bo_TxOutcomes o2))]))))))"

fun repeated :: "nat \<Rightarrow> ('a Server, 'r) meth \<Rightarrow> string \<Rightarrow> 'a Server \<Rightarrow> string list go" where
  "repeated 0 m fmt h = Ret []"
| "repeated (Suc n) m fmt h =
     (case m h of (r, h) \<Rightarrow> go_bind r (\<lambda>(_, err). go_bind (repeated n m fmt h) (\<lambda>errs.
        Ret ((case err of Some e \<Rightarrow> t_Errorf True fmt [Error_text e] | None \<Rightarrow> []) @ errs))))"

definition concurrent_checktx_after_handshake :: "'a Lifecycle \<Rightarrow> 'a \<Rightarrow> string list go" where
  "concurrent_checktx_after_handshake app a =
     (case GenesisDefault (NewHarness app a) of (r, h) \<Rightarrow> go_bind r (\<lambda>_.
        repeated 10 (CheckTx (tx_8 1) MempoolFirstSeen) ''concurrent CheckTx failed: %v'' h))"

definition test_query :: StateQuery where
  "test_query = \<lparr>sq_Path = ''/test'', sq_Data = [], sq_Height = None, sq_Prove = False\<rparr>"

definition concurrent_query_after_handshake :: "'a Lifecycle \<Rightarrow> 'a \<Rightarrow> string list go" where
  "concurrent_query_after_handshake app a =
     (case GenesisDefault (NewHarness app a) of (r, h) \<Rightarrow> go_bind r (\<lambda>_.
        repeated 10 (Query test_query) ''concurrent Query failed: %v'' h))"

definition query_returns_height :: "'a Lifecycle \<Rightarrow> 'a \<Rightarrow> string list go" where
  "query_returns_height app a =
     (case GenesisDefault (NewHarness app a) of (r, h) \<Rightarrow> go_bind r (\<lambda>_.
      case ExecuteAndCommit (MakeEmptyBlock 1) h of (r, h) \<Rightarrow> go_bind r (\<lambda>_.
      case ExecuteAndCommit (MakeEmptyBlock 2) h of (r, h) \<Rightarrow> go_bind r (\<lambda>_.
        go_bind (fst (Harness_Query ''/test'' [] h)) (\<lambda>result.
          Ret (t_Errorf (sr_Height result < 1) ''query height should be >= 1 after committing, got %d''
                 [dec_nat (unat (sr_Height result))]))))))"

definition tx_outcome_indices :: "'a Lifecycle \<Rightarrow> 'a \<Rightarrow> string list go" where
  "tx_outcome_indices app a =
     (case GenesisDefault (NewHarness app a) of (r, h) \<Rightarrow> go_bind r (\<lambda>_.
        go_bind (fst (ExecuteAndCommit (MakeBlock 1 [tx_8 1, tx_8 2, tx_8 3]) h)) (\<lambda>outcome.
          if length (bo_TxOutcomes outcome) \<noteq> 3
          then t_Fatalf ''expected 3 tx outcomes, got %d'' [dec_nat (length (bo_TxOutcomes outcome))]
          else Ret (concat (map (\<lambda>(i, out). t_Errorf (txo_Index out \<noteq> of_nat i) ''tx %d: expected index %d, got %d''
                 [dec_nat i, dec_nat i, dec_nat (unat (txo_Index out))]) (enumerate 0 (bo_TxOutcomes outcome)))))))"

definition RunComplianceSuite :: "'a Lifecycle \<Rightarrow> 'a \<Rightarrow> (string \<times> string list go) list" where
  "RunComplianceSuite app a =
     [(''genesis_handshake'', genesis_handshake app a),
      (''genesis_returns_app_hash'', genesis_returns_app_hash app a),
      (''execute_commit_cycle'', execute_commit_cycle app a),
      (''empty_blocks_deterministic'', empty_blocks_deterministic app a),
      (''deterministic_with_txs'', deterministic_with_txs app a),
      (''concurrent_checktx_after_handshake'', concurrent_checktx_after_handshake app a),
      (''concurrent_query_after_handshake'', concurrent_query_after_handshake app a),
      (''query_returns_height'', query_returns_height app a),
      (''tx_outcome_indices'', tx_outcome_indices app a)]"

definition suite_passes :: "(string \<times> string list go) list \<Rightarrow> bool" where
  "suite_passes results \<longleftrightarrow> list_all (\<lambda>(name, r). r = Ret []) results"

section \<open>Applications that keep the contract pass\<close>

locale compliant_app = lifecycle_app app invar committed staged exec answer
  for app :: "'a Lifecycle" and invar :: "'a \<Rightarrow> bool" and committed :: "'a \<Rightarrow> 'c" and staged :: "'a \<Rightarrow> 'c option"
    and exec :: "'c \<Rightarrow> FinalizedBlock \<Rightarrow> BlockOutcome \<times> 'c" and answer :: "'c \<Rightarrow> StateQuery \<Rightarrow> StateQueryResult" +
  fixes start :: 'a
  assumes start_ok: "invar start"
    and declared: "\<And>a req resp a'. invar a \<Longrightarrow> m_Handshake app req a = (Ret (resp, None), a') \<Longrightarrow>
      fst (discoverCapabilities app (hr_Capabilities resp)) = None"
    and hashes: "out \<in> set (fst (exec_chain exec (committed start) (map MakeEmptyBlock [1, 2, 3, 4, 5]))) \<Longrightarrow>
      bo_AppHash out \<noteq> zero_hash"
    and heights: "sr_Height (answer (snd (exec_chain exec (committed start) (map MakeEmptyBlock [1, 2]))) test_query) \<noteq> 0"
begin

lemma start_genesis:
  obtains resp h where "GenesisDefault (NewHarness app start) = (Ret resp, h)" and "serving PReady h"
    and "committed (s_state h) = committed start" and "hr_LastBlock resp = None" and "hr_AppHash resp \<noteq> None"
proof -
  have st: "s_state (New app start) = start" by (simp add: New_def)
  show ?thesis
    by (rule serving_Handshake [OF serving_New [OF start_ok], of "\<lparr>hq_LastCommitted = None, hq_Genesis = Some DefaultGenesis\<rparr>"])
      (auto intro: declared that simp: GenesisDefault_def Genesis_def NewHarness_def st)
qed

lemma cycle_passes:
  assumes "serving PReady h"
    and "\<forall>out \<in> set (fst (exec_chain exec (committed (s_state h)) (map MakeEmptyBlock is))). bo_AppHash out \<noteq> zero_hash"
  shows "cycle is h = Ret []"
  using assms
proof (induction "is" arbitrary: h)
  case (Cons i "is")
  obtain h1 where "ExecuteAndCommit (MakeEmptyBlock i) h = (Ret (fst (exec (committed (s_state h)) (MakeEmptyBlock i))), h1)"
    "serving PReady h1" "committed (s_state h1) = snd (exec (committed (s_state h)) (MakeEmptyBlock i))"
    using serving_ExecuteAndCommit [OF Cons.prems(1)] by metis
  then show ?case using Cons by (simp add: t_Errorf_def)
qed simp

lemma twins_pass:
  assumes "serving PReady h1" and "serving PReady h2" and "committed (s_state h1) = committed (s_state h2)"
  shows "twins is h1 h2 = Ret []"
  using assms
proof (induction "is" arbitrary: h1 h2)
  case (Cons i "is")
  let ?o = "exec (committed (s_state h2)) (MakeEmptyBlock i)"
  obtain h1' where "ExecuteAndCommit (MakeEmptyBlock i) h1 = (Ret (fst ?o), h1')" "serving PReady h1'"
    "committed (s_state h1') = snd ?o" using serving_ExecuteAndCommit [OF Cons.prems(1)] Cons.prems(3) by metis
  moreover obtain h2' where "ExecuteAndCommit (MakeEmptyBlock i) h2 = (Ret (fst ?o), h2')" "serving PReady h2'"
    "committed (s_state h2') = snd ?o" using serving_ExecuteAndCommit [OF Cons.prems(2)] by metis
  ultimately show ?case using Cons.IH [of h1' h2'] by (simp add: t_Errorf_def)
qed simp

lemma repeated_passes:
  assumes "\<exists>r. m h = (Ret (r, None), h)"
  shows "repeated n m fmt h = Ret []"
  using assms by (induction n) auto

lemma genesis_tests:
  "genesis_handshake app start = Ret []" "genesis_returns_app_hash app start = Ret []"
  "concurrent_checktx_after_handshake app start = Ret []" "concurrent_query_after_handshake app start = Ret []"
proof -
  obtain resp h where h: "GenesisDefault (NewHarness app start) = (Ret resp, h)" "serving PReady h"
    "hr_LastBlock resp = None" "hr_AppHash resp \<noteq> None" by (rule start_genesis)
  show "genesis_handshake app start = Ret []" "genesis_returns_app_hash app start = Ret []"
    using h by (simp_all add: genesis_handshake_def genesis_returns_app_hash_def t_Errorf_def)
  show "concurrent_checktx_after_handshake app start = Ret []" "concurrent_query_after_handshake app start = Ret []"
    using h(1) repeated_passes [of "CheckTx (tx_8 1) MempoolFirstSeen" h] repeated_passes [of "Query test_query" h]
      serving_CheckTx [OF h(2)] serving_Query [OF h(2)]
    by (auto simp: concurrent_checktx_after_handshake_def concurrent_query_after_handshake_def)
qed

lemma block_tests:
  "execute_commit_cycle app start = Ret []" "empty_blocks_deterministic app start = Ret []"
  "deterministic_with_txs app start = Ret []" "tx_outcome_indices app start = Ret []"
proof -
  obtain resp h where h: "GenesisDefault (NewHarness app start) = (Ret resp, h)" "serving PReady h"
    "committed (s_state h) = committed start" by (rule start_genesis)
  have "cycle [1, 2, 3, 4, 5] h = Ret []" by (rule cycle_passes [OF h(2)]) (unfold h(3), use hashes in blast)
  then show "execute_commit_cycle app start = Ret []" "empty_blocks_deterministic app start = Ret []"
    using h(1) twins_pass [OF h(2,2) refl]
    by (simp_all add: execute_commit_cycle_def empty_blocks_deterministic_def del: cycle.simps twins.simps)
  have e: "fst (ExecuteAndCommit b h) = Ret (fst (exec (committed start) b))" for b
    using serving_ExecuteAndCommit [OF h(2), of b] h(3) by (metis fst_conv)
  show "deterministic_with_txs app start = Ret []"
    using h(1) by (simp add: deterministic_with_txs_def e t_Errorf_def)
  let ?b = "MakeBlock 1 [tx_8 1, tx_8 2, tx_8 3]"
  have i: "map txo_Index (bo_TxOutcomes (fst (exec (committed start) ?b))) = [0, 1, 2]"
    using outcomes_spec [of "committed start" ?b] by (simp add: MakeBlock_def Let_def upt_rec)
  then obtain x y z where "bo_TxOutcomes (fst (exec (committed start) ?b)) = [x, y, z]" "txo_Index x = 0" "txo_Index y = 1" "txo_Index z = 2"
    by (auto simp: map_eq_Cons_conv)
  then show "tx_outcome_indices app start = Ret []"
    using h(1) by (simp add: tx_outcome_indices_def e t_Errorf_def)
qed

lemma height_test: "query_returns_height app start = Ret []"
proof -
  obtain resp h where h: "GenesisDefault (NewHarness app start) = (Ret resp, h)" "serving PReady h"
    "committed (s_state h) = committed start" by (rule start_genesis)
  obtain h1 where h1: "ExecuteAndCommit (MakeEmptyBlock 1) h = (Ret (fst (exec (committed start) (MakeEmptyBlock 1))), h1)"
    "serving PReady h1" "committed (s_state h1) = snd (exec (committed start) (MakeEmptyBlock 1))"
    using serving_ExecuteAndCommit [OF h(2)] h(3) by metis
  obtain h2 out where h2: "ExecuteAndCommit (MakeEmptyBlock 2) h1 = (Ret out, h2)" "serving PReady h2"
    "committed (s_state h2) = snd (exec (committed (s_state h1)) (MakeEmptyBlock 2))"
    using serving_ExecuteAndCommit [OF h1(2)] by metis
  have "fst (Harness_Query ''/test'' [] h2) = Ret (answer (committed (s_state h2)) test_query)"
    using serving_Query [OF h2(2), of test_query] by (simp add: Harness_Query_def flip: test_query_def)
  then show ?thesis using h h1 h2 heights by (simp add: query_returns_height_def t_Errorf_def)
qed

lemma passes: "suite_passes (RunComplianceSuite app start)"
  by (simp add: suite_passes_def RunComplianceSuite_def genesis_tests block_tests height_test)

end

section \<open>The examples\<close>

lemma zero_hash_computed: "computeHash 0 \<noteq> zero_hash"
  by code_simp

interpretation counter_compliant: compliant_app counter_lifecycle counter_invar counter_committed counter_staged
    counter_exec counter_answer Counter_New
proof
  show "counter_invar Counter_New" by (simp add: counter_invar_def Counter_New_def)
  show "fst (discoverCapabilities counter_lifecycle (hr_Capabilities resp)) = None"
    if "m_Handshake counter_lifecycle req a = (Ret (resp, None), a')" for a req resp a'
    using that by (auto simp: counter_lifecycle_def Counter_Handshake_def split: option.splits)
  show "bo_AppHash out \<noteq> zero_hash"
    if "out \<in> set (fst (exec_chain counter_exec (counter_committed Counter_New) (map MakeEmptyBlock [1, 2, 3, 4, 5])))" for out
    using that zero_hash_computed
    by (auto simp: counter_exec_def counter_committed_def Counter_New_def MakeEmptyBlock_def MakeBlock_def Let_def valid_txs_def)
  show "sr_Height (counter_answer (snd (exec_chain counter_exec (counter_committed Counter_New)
      (map MakeEmptyBlock [1, 2]))) test_query) \<noteq> 0"
    by (simp add: counter_exec_def counter_answer_def MakeEmptyBlock_def MakeBlock_def Let_def)
qed

definition idle_state :: "u64 \<Rightarrow> state" where
  "idle_state h = newState\<lparr>st_Height := h, st_Orders := Some []\<rparr>"

lemma idle_block: "dex_exec newState (MakeEmptyBlock h) =
    (zero_BlockOutcome\<lparr>bo_AppHash := appHash (idle_state h)\<rparr>, idle_state h)"
  "dex_exec (idle_state g) (MakeEmptyBlock h) = (zero_BlockOutcome\<lparr>bo_AppHash := appHash (idle_state h)\<rparr>, idle_state h)"
  by (simp_all add: dex_exec_def MakeEmptyBlock_def MakeBlock_def Let_def cloned_def idle_state_def newState_def present_def
      gm_make_def elems_def zero_BlockOutcome_def)

definition idle_text :: "char \<Rightarrow> string" where
  "idle_text c = ''{'' @ [CHR 0x22] @ ''height'' @ [CHR 0x22] @ '':'' @ [c] @ '','' @ [CHR 0x22] @ ''balances'' @ [CHR 0x22] @ '':{},'' @
      [CHR 0x22] @ ''orders'' @ [CHR 0x22] @ '':[],'' @ [CHR 0x22] @ ''prices'' @ [CHR 0x22] @ '':{}}''"

lemma idle_hash:
  assumes "dec_nat (unat h) = [c]"
  shows "appHash (idle_state h) = Sum256 (bytes (idle_text c))"
  using assms
  by (simp add: appHash_def Marshal_def json_state_def idle_state_def idle_text_def newState_def json_u64_def json_map_def json_slice_def
      gm_make_def gm_keys_empty)

lemma idle_hash_1: "Sum256 (bytes (idle_text (CHR ''1''))) \<noteq> zero_hash" by code_simp

lemma idle_hash_2: "Sum256 (bytes (idle_text (CHR ''2''))) \<noteq> zero_hash" by code_simp

lemma idle_hash_3: "Sum256 (bytes (idle_text (CHR ''3''))) \<noteq> zero_hash" by code_simp

lemma idle_hash_4: "Sum256 (bytes (idle_text (CHR ''4''))) \<noteq> zero_hash" by code_simp

lemma idle_hash_5: "Sum256 (bytes (idle_text (CHR ''5''))) \<noteq> zero_hash" by code_simp

lemma small_decimals:
  "dec_nat (Suc 0) = ''1''" "dec_nat 2 = ''2''" "dec_nat 3 = ''3''" "dec_nat 4 = ''4''" "dec_nat 5 = ''5''"
  by code_simp+

lemma idle_hashes: "\<forall>h \<in> {1, 2, 3, 4, 5}. appHash (idle_state h) \<noteq> zero_hash"
  using idle_hash_1 idle_hash_2 idle_hash_3 idle_hash_4 idle_hash_5 by (simp add: idle_hash small_decimals)

lemma dex_declares:
  "m_Handshake (dex_lifecycle ord) req a = (Ret (resp, None), a') \<Longrightarrow>
     fst (discoverCapabilities (dex_lifecycle ord) (hr_Capabilities resp)) = None"
  by (auto simp: dex_lifecycle_def Dex_Handshake_def reading_def nil_deref_def dex_caps_def zero_HandshakeResponse_def
      discover_ok_iff Capabilities_Has_def CapProposalControl_def CapVoteExtensions_def CapStateSync_def CapSimulation_def
      CapMempoolObserver_def split: option.splits)

sublocale dex_app < dex_compliant: compliant_app "dex_lifecycle ord" dex_invar dex_committed app_staged dex_exec dex_answer Dex_New
proof
  have c: "dex_committed Dex_New = newState" by (simp add: dex_committed_def Dex_New_def)
  show "dex_invar Dex_New" by (simp add: dex_invar_def Dex_New_def)
  show "fst (discoverCapabilities (dex_lifecycle ord) (hr_Capabilities resp)) = None"
    if "m_Handshake (dex_lifecycle ord) req a = (Ret (resp, None), a')" for a req resp a'
    using that by (rule dex_declares)
  show "bo_AppHash out \<noteq> zero_hash"
    if "out \<in> set (fst (exec_chain dex_exec (dex_committed Dex_New) (map MakeEmptyBlock [1, 2, 3, 4, 5])))" for out
    using that idle_hashes by (auto simp: c idle_block)
  have "snd (exec_chain dex_exec (dex_committed Dex_New) (map MakeEmptyBlock [1, 2])) = idle_state 2"
    by (simp add: c idle_block)
  then show "sr_Height (dex_answer (snd (exec_chain dex_exec (dex_committed Dex_New) (map MakeEmptyBlock [1, 2]))) test_query) \<noteq> 0"
    by (simp only:) (simp add: dex_answer_def dex_query_def test_query_def idle_state_def zero_StateQueryResult_def)
qed

context dex_app
begin

lemma dex_passes: "suite_passes (RunComplianceSuite (dex_lifecycle ord) Dex_New)"
  by (rule dex_compliant.passes)

end

section \<open>Properties\<close>



end
