(* ===== verification/Dex_Typing.thy ===== *)
theory Dex_Typing
  imports Dex
begin

text \<open>
  \<^verbatim>\<open>example/dex/app.go\<close>, the shape of the state: what the untyped maps of \<open>state\<close> can hold in a
  chain. The locale \<open>chain_invariant\<close> lifts any predicate that single transactions keep to
  the committed states of a chain.
\<close>

section \<open>Well-typed states\<close>

definition is_account :: "string \<Rightarrow> bool" where
  "is_account a \<longleftrightarrow> length a = 40 \<and> list_all (\<lambda>c. c \<in> set ''0123456789abcdef'') a"

text \<open>The entry of an account: there is an amount, and none under an empty denomination.\<close>

definition entry_ok :: "string \<Rightarrow> amounts \<Rightarrow> bool" where
  "entry_ok a m \<longleftrightarrow> is_account a \<and> m \<noteq> NilMap \<and> gm_len m \<noteq> 0 \<and> gm_get m [] = None"

definition accounts_ok :: "balances \<Rightarrow> bool" where
  "accounts_ok b \<longleftrightarrow> b \<noteq> NilMap \<and> list_all (\<lambda>a. entry_ok a (inner b a)) (gm_keys b)"

definition order_ok :: "Order \<Rightarrow> bool" where
  "order_ok r \<longleftrightarrow> is_address (or_Owner r) \<and> pairBase (or_Pair r) \<noteq> [] \<and> or_Amount r \<noteq> 0 \<and> or_Price r \<noteq> 0"

definition price_table_ok :: "amounts \<Rightarrow> bool" where
  "price_table_ok m \<longleftrightarrow> m \<noteq> NilMap \<and> list_all (\<lambda>k. k \<noteq> [] \<and> valid_utf8 k \<and> amount_of m k \<noteq> 0) (gm_keys m)"

definition typed_state :: "state \<Rightarrow> bool" where
  "typed_state s \<longleftrightarrow> accounts_ok (st_Balances s) \<and> list_all order_ok (elems (st_Orders s)) \<and> price_table_ok (st_Prices s)"

lemma list_all_gm_keys: "list_all P (gm_keys m) \<longleftrightarrow> (\<forall>k v. gm_get m k = Some v \<longrightarrow> P k)"
  using in_gm_keys [of _ m] by (auto simp: list_all_iff simp del: set_gm_keys)

lemma accounts_ok_iff:
  "accounts_ok b \<longleftrightarrow> b \<noteq> NilMap \<and> (\<forall>a m. gm_get b a = Some m \<longrightarrow> entry_ok a m)"
  by (auto simp: accounts_ok_def list_all_gm_keys inner_def)

lemma price_table_ok_iff: "price_table_ok m \<longleftrightarrow> m \<noteq> NilMap \<and> prices_ok m"
  unfolding price_table_ok_def prices_ok_def list_all_gm_keys amount_of_def by fastforce

lemma typed_state_ok: "typed_state s \<Longrightarrow> state_ok s"
  by (auto simp: typed_state_def state_ok_def maps_ok_def accounts_ok_iff price_table_ok_iff entry_ok_def)

lemma hex_char_digit: "n < 16 \<Longrightarrow> hex_char n \<in> set ''0123456789abcdef''"
proof -
  assume "n < 16"
  then have "n \<in> set [0..<16]" by simp
  moreover have "\<forall>n \<in> set [0..<16]. hex_char n \<in> set ''0123456789abcdef''" by code_simp
  ultimately show ?thesis by blast
qed

lemma hex_byte_digits: "c \<in> set (hex_byte x) \<Longrightarrow> c \<in> set ''0123456789abcdef''"
  using hex_char_digit [of "unat x div 16"] hex_char_digit [of "unat x mod 16"] unsigned_less [of x]
  by (auto simp: hex_byte_def less_mult_imp_div_less)

lemma is_account_addrHex: "length b = 20 \<Longrightarrow> is_account (addrHex b)"
  using hex_byte_digits by (auto simp: is_account_def addrHex_def list_all_iff hex_bytes_def [THEN arg_cong [where f = set]] simp del: set_simps)

lemma is_account_tx: "21 \<le> length tx \<Longrightarrow> is_account (tx_addr tx)"
  by (simp add: tx_addr_def is_account_addrHex)

section \<open>Transactions keep the types\<close>

text \<open>An assignment repairs the entry of its own account.\<close>

lemma set_balance_typed:
  assumes "\<forall>a' m. a' \<noteq> a \<longrightarrow> gm_get b a' = Some m \<longrightarrow> entry_ok a' m" and "is_account a" and "d \<noteq> []"
    and "gm_get (inner b a) [] = None" and "set_balance b a d v = Ret b'"
  shows "accounts_ok b'"
proof -
  obtain m where m: "gm_set (inner b a) d v = Ret m" "gm_set b a m = Ret b'"
    using assms(5) by (auto simp: set_balance_def go_bind_Ret_iff)
  then have "m \<noteq> NilMap" "b' \<noteq> NilMap" by (cases "inner b a"; auto; fail) (use m in \<open>cases b; auto\<close>)
  moreover have "gm_len m \<noteq> 0" "gm_get m [] = None"
    using gm_set_get [OF m(1)] assms(3,4) by (auto simp: gm_len_0)
  ultimately show ?thesis
    using gm_set_get [OF m(2)] assms(1,2) by (auto simp: accounts_ok_iff entry_ok_def split: if_splits)
qed

lemma inner_no_empty: "accounts_ok b \<Longrightarrow> gm_get (inner b a) [] = None"
  by (auto simp: accounts_ok_iff entry_ok_def inner_def split: option.splits)

lemma funded_denom: "accounts_ok b \<Longrightarrow> v \<noteq> 0 \<Longrightarrow> v \<le> balance b a d \<Longrightarrow> d \<noteq> []"
  using inner_no_empty [of b a] by (auto simp: balance_def amount_of_def)

lemma drop_typed:
  assumes "accounts_ok b" and "is_account a" and "gm_set b a (gm_delete (inner b a) d) = Ret b'"
  shows "accounts_ok (if gm_len (inner b' a) = 0 then gm_delete b' a else b')"
proof -
  note get = gm_set_get [OF assms(3)]
  have "b' \<noteq> NilMap" "gm_delete b' a \<noteq> NilMap" using assms(3) by (cases b; auto)+
  moreover have "inner b' a = gm_delete (inner b a) d" using get by (simp add: inner_def)
  moreover have "gm_len (gm_delete (inner b a) d) \<noteq> 0 \<Longrightarrow> gm_delete (inner b a) d \<noteq> NilMap" by (metis gm_get_simps(1) gm_len_0)
  ultimately show ?thesis
    using get assms(1,2) inner_no_empty [OF assms(1), of a] by (auto simp: accounts_ok_iff entry_ok_def split: if_splits)
qed

lemma deposit_typed:
  assumes "typed_state s" and "executeDeposit s i tx = Ret (out, evs, s')"
  shows "typed_state s'"
proof (cases "TxOutcome_OK out")
  case True
  note go = deposit_accepted [OF assms(2) True]
  let ?a = "tx_addr tx" and ?B = "st_Balances s"
  obtain b b' where b: "(if inner ?B ?a = NilMap then gm_set ?B ?a gm_make else Ret ?B) = Ret b"
    "set_balance b ?a (tx_denom tx) (balance b ?a (tx_denom tx) + tx_amount tx) = Ret b'" "s' = s\<lparr>st_Balances := b'\<rparr>"
    using assms(2) go by (auto simp: executeDeposit_fields go_bind_Ret_iff)
  have B: "accounts_ok ?B" using assms(1) by (simp add: typed_state_def)
  have "\<forall>a' m. a' \<noteq> ?a \<longrightarrow> gm_get b a' = Some m \<longrightarrow> entry_ok a' m" "gm_get (inner b ?a) [] = None"
    using b(1) B inner_no_empty [OF B, of ?a] gm_set_get [of ?B ?a gm_make b]
    by (auto simp: accounts_ok_iff inner_def split: if_splits)
  moreover have "is_account ?a" "tx_denom tx \<noteq> []" using go(1) by (auto simp: is_account_tx tx_denom_def str_def)
  ultimately show ?thesis using set_balance_typed b assms(1) by (auto simp: typed_state_def)
next
  case False
  then show ?thesis using assms tx_ok_deposit [OF typed_state_ok [OF assms(1)], of i tx] by (auto simp: tx_ok_def TxOutcome_OK_def)
qed

lemma withdraw_typed:
  assumes "typed_state s" and "executeWithdraw s i tx = Ret (out, evs, s')"
  shows "typed_state s'"
proof (cases "TxOutcome_OK out")
  case True
  note go = withdraw_accepted [OF assms(2) True]
  let ?a = "tx_addr tx" and ?d = "tx_denom tx" and ?B = "st_Balances s"
  have B: "accounts_ok ?B" using assms(1) by (simp add: typed_state_def)
  have a: "is_account ?a" using go(1) by (simp add: is_account_tx)
  obtain b b' where b: "set_balance ?B ?a ?d (balance ?B ?a ?d - tx_amount tx) = Ret b"
    "(if balance b ?a ?d = 0 then go_bind (gm_set b ?a (gm_delete (inner b ?a) ?d)) (\<lambda>b.
        Ret (if gm_len (inner b ?a) = 0 then gm_delete b ?a else b)) else Ret b) = Ret b'" "s' = s\<lparr>st_Balances := b'\<rparr>"
    using assms(2) go by (auto simp: executeWithdraw_fields go_bind_Ret_iff not_less [symmetric] split del: if_split)
  have "?d \<noteq> []" by (rule funded_denom [OF B go(2,3)])
  then have "accounts_ok b" using set_balance_typed [OF _ a _ inner_no_empty [OF B] b(1)] B by (auto simp: accounts_ok_iff)
  then have "accounts_ok b'" using b(2) drop_typed [OF _ a, of b ?d] by (cases "balance b ?a ?d = 0") (auto simp: go_bind_Ret_iff split del: if_split)
  then show ?thesis using assms(1) b(3) by (simp add: typed_state_def)
next
  case False
  then show ?thesis using assms tx_ok_withdraw [OF typed_state_ok [OF assms(1)], of i tx] by (auto simp: tx_ok_def TxOutcome_OK_def)
qed

lemma limit_order_typed:
  assumes "typed_state s" and "executeLimitOrder s i tx = Ret (out, evs, s')"
  shows "typed_state s'"
proof (cases "TxOutcome_OK out")
  case True
  note go = limit_order_accepted [OF assms(2) True]
  let ?a = "tx_addr tx" and ?d = "pairBase (tx_pair tx)" and ?B = "st_Balances s"
  have B: "accounts_ok ?B" using assms(1) by (simp add: typed_state_def)
  have a: "is_account ?a" using go(1) by (simp add: is_account_tx)
  have d: "?d \<noteq> []" by (rule funded_denom [OF B go(2,4)])
  obtain b where b: "set_balance ?B ?a ?d (balance ?B ?a ?d - tx_amount tx) = Ret b"
    "s' = s\<lparr>st_Balances := b, st_Orders := Some (elems (st_Orders s) @ [\<lparr>or_Owner = take 20 (drop 1 tx),
       or_Pair = tx_pair tx, or_Amount = tx_amount tx, or_Price = tx_price tx\<rparr>])\<rparr>"
    using assms(2) go by (auto simp: executeLimitOrder_fields go_bind_Ret_iff not_less [symmetric] split del: if_split)
  have "accounts_ok b" using set_balance_typed [OF _ a d inner_no_empty [OF B] b(1)] B by (auto simp: accounts_ok_iff)
  then show ?thesis using assms(1) b(2) go d by (auto simp: typed_state_def order_ok_def is_address_def elems_def)
next
  case False
  then show ?thesis using assms tx_ok_limit_order [OF typed_state_ok [OF assms(1)], of i tx] by (auto simp: tx_ok_def TxOutcome_OK_def)
qed

lemma oracle_typed:
  assumes "typed_state s" and "executeOracleUpdate s i tx = Ret (out, evs, s')"
  shows "typed_state s'"
proof -
  obtain m where "s' = s\<lparr>st_Prices := m\<rparr>" "m \<noteq> NilMap"
    by (rule oracle_run [OF typed_state_ok [OF assms(1)], of i tx]) (use assms(2) in simp)
  moreover have "prices_ok (st_Prices s')"
    using oracle_prices_ok [OF _ assms(2)] assms(1) by (simp add: typed_state_def price_table_ok_iff)
  ultimately show ?thesis using assms(1) by (simp add: typed_state_def price_table_ok_iff)
qed

lemma executeTx_typed:
  "typed_state s \<Longrightarrow> executeTx s i tx = Ret (out, evs, s') \<Longrightarrow> typed_state s'"
  by (auto simp: executeTx_def go_bind_Ret_iff split: if_splits
      dest: deposit_typed withdraw_typed limit_order_typed oracle_typed)

section \<open>Chains\<close>

locale chain_invariant =
  fixes I :: "state \<Rightarrow> bool"
  assumes initially: "I newState"
    and copied: "I s \<Longrightarrow> I ((cloned s)\<lparr>st_Height := h\<rparr>)"
    and transaction: "I s \<Longrightarrow> executeTx s i tx = Ret (out, evs, s') \<Longrightarrow> I s'"
begin

lemma block_txs: "I s \<Longrightarrow> execute_txs s i txs = Ret (outs, evs, s') \<Longrightarrow> I s'"
  by (induction txs arbitrary: s i outs evs) (auto simp: go_bind_Ret_iff dest: transaction)

lemma block: "I c \<Longrightarrow> I (snd (dex_exec c b))"
  by (rule dex_exec_run [where c = c and b = b]) (use block_txs [OF copied] in simp)

lemma exec_chain: "I c \<Longrightarrow> I (snd (exec_chain dex_exec c bs))"
  by (induction bs arbitrary: c) (simp_all add: block split: prod.splits)

lemma committed_chain: "I (snd (exec_chain dex_exec newState bs))"
  by (rule exec_chain [OF initially])

end

lemma present_same: "m \<noteq> NilMap \<Longrightarrow> present m = m"
  by (cases m) (simp_all add: present_def)

interpretation typing: chain_invariant typed_state
proof
  show "typed_state newState"
    by (simp add: typed_state_def newState_def accounts_ok_iff price_table_ok_iff prices_ok_def elems_def gm_make_def)
  show "typed_state ((cloned s)\<lparr>st_Height := h\<rparr>)" if "typed_state s" for s h
    using that by (auto simp: typed_state_def cloned_def accounts_ok_iff price_table_ok_iff present_same elems_def)
      (auto simp: gm_get_def present_same entry_ok_def)
qed (rule executeTx_typed)

section \<open>Properties\<close>

text \<open>
  C31. The types that the maps and byte strings of the order book's state do not express hold in
  every state a chain commits: account keys are the lower-case hex form of twenty bytes,
  every account has an amount and none under an empty denomination, orders have a
  twenty-byte owner, a base denomination, an amount and a price, and the price table has no
  empty pair, no pair that is not UTF-8 and no price of zero. No map is nil.
\<close>

theorem committed_state_typed:
  assumes "valid_order ord"
  shows "\<exists>resp s s' outs. GenesisDefault (NewHarness (dex_lifecycle ord) Dex_New) = (Ret resp, s) \<and>
     run_chain bs s = (Ret outs, s') \<and> typed_state (dex_committed (s_state s'))"
  using dex_app.chain [OF dex_app.intro, OF assms, of bs] typing.committed_chain [of bs] by metis

theorem committed_state_typed_witness:
  "\<exists>resp s s' outs. GenesisDefault (NewHarness (dex_lifecycle (\<lambda>l ks. rev ks)) Dex_New) = (Ret resp, s) \<and>
     run_chain [MakeBlock 1 [DepositTx (TestAddress 1) 7 ''ETH''], MakeBlock 2 [LimitOrderTx (TestAddress 1) 7 200 ''ETH/USD'']] s =
       (Ret outs, s') \<and> typed_state (dex_committed (s_state s'))"
  by (rule committed_state_typed) (simp add: valid_order_def)

end
