(* ===== verification/Dex_Round.thy ===== *)
theory Dex_Round
  imports Dex
begin

text \<open>
  \<^verbatim>\<open>example/dex/app.go\<close>, a whole oracle round: vote extensions are collected, the proposer
  aggregates them, the block is executed and committed, and the price is queried. A round
  follows the majority of the prices that were reported; but reports are counted, not
  validators.
\<close>

section \<open>Reported prices\<close>

text \<open>The usable prices for a pair in a list of prices, and in the bytes of an extension.\<close>

definition quotes :: "string \<Rightarrow> OraclePrice list \<Rightarrow> u64 list" where
  "quotes k ps = map op_Price (filter (\<lambda>p. op_Pair p = k \<and> k \<noteq> [] \<and> op_Price p > 0) ps)"

definition reports :: "string \<Rightarrow> CommittedVoteExtension \<Rightarrow> u64 list" where
  "reports k ext =
     (if length (cve_Extension ext) = 0 then []
      else case Unmarshal_prices (cve_Extension ext) of Inl err \<Rightarrow> [] | Inr prices \<Rightarrow> quotes k (elems prices))"

definition found :: "(string, u64 list) fmap \<Rightarrow> string \<Rightarrow> u64 list" where
  "found m k = (case fmlookup m k of Some vs \<Rightarrow> vs | None \<Rightarrow> [])"

lemma found_collect_price: "found (collect_price p m) k = found m k @ quotes k [p]"
  by (auto simp: found_def collect_price_def quotes_def)

lemma quotes_Cons: "quotes k (p # ps) = quotes k [p] @ quotes k ps"
  by (simp add: quotes_def)

lemma found_fold: "found (fold collect_price ps m) k = found m k @ quotes k ps"
proof (induction ps arbitrary: m)
  case (Cons p ps)
  show ?case using Cons.IH [of "collect_price p m"] by (simp add: found_collect_price quotes_Cons [of k p ps])
qed (simp add: quotes_def)

lemma found_extensions: "found (fold collect_extension exts m) k = found m k @ concat (map (reports k) exts)"
proof (induction exts arbitrary: m)
  case (Cons e exts)
  have "found (collect_extension e m) k = found m k @ reports k e"
    by (simp add: collect_extension_def reports_def found_fold split: sum.splits)
  then show ?case using Cons.IH [of "collect_extension e m"] by simp
qed simp

definition all_reports :: "string \<Rightarrow> CommittedVoteExtension list \<Rightarrow> u64 list" where
  "all_reports k exts = concat (map (reports k) exts)"

lemma aggregated_lookup:
  "map_of (map (\<lambda>p. (op_Pair p, op_Price p)) (aggregated_prices exts)) k =
     (if all_reports k exts = [] then None
      else Some (sort (all_reports k exts) ! (length (all_reports k exts) div 2)))"
proof -
  let ?m = "fold collect_extension exts fmempty"
  have f: "found ?m k = all_reports k exts"
    by (simp add: found_extensions all_reports_def) (simp add: found_def)
  have "collected ?m" by (rule collected_extensions) (simp add: collected_def)
  then have some: "fmlookup ?m k = (if all_reports k exts = [] then None else Some (all_reports k exts))"
    using f by (auto simp: found_def collected_def split: option.splits)
  have "map_of (map (\<lambda>p. (op_Pair p, op_Price p)) (aggregated_prices exts)) k =
      (if k \<in> set (gm_keys (MkMap ?m)) then Some (median_of ?m k) else None)"
    by (simp add: aggregated_prices_def Let_def comp_def map_of_map_restrict restrict_map_def del: set_gm_keys)
  then show ?thesis using some by (simp add: median_of_def in_gm_keys del: set_gm_keys)
qed

lemma distinct_aggregated: "distinct (map op_Pair (aggregated_prices exts))"
  by (simp add: aggregated_prices_def Let_def comp_def)

section \<open>Executing an oracle update\<close>

lemma apply_prices_lookup:
  assumes "m \<noteq> NilMap" and "\<forall>p\<in>set ps. op_Pair p \<noteq> [] \<and> op_Price p \<noteq> 0" and "distinct (map op_Pair ps)"
  shows "\<exists>evs m'. apply_prices m ps = Ret (evs, m') \<and> m' \<noteq> NilMap \<and>
    (\<forall>k. gm_get m' k = (case map_of (map (\<lambda>p. (op_Pair p, op_Price p)) ps) k of Some v \<Rightarrow> Some v | None \<Rightarrow> gm_get m k))"
  using assms
proof (induction ps arbitrary: m)
  case (Cons p ps)
  obtain fm where fm: "m = MkMap fm" using Cons.prems(1) by (cases m) auto
  let ?m = "MkMap (fmupd (op_Pair p) (op_Price p) fm)"
  obtain evs m' where r: "apply_prices ?m ps = Ret (evs, m')" "m' \<noteq> NilMap"
    "\<forall>k. gm_get m' k = (case map_of (map (\<lambda>p. (op_Pair p, op_Price p)) ps) k of Some v \<Rightarrow> Some v | None \<Rightarrow> gm_get ?m k)"
    using Cons.IH [of ?m] Cons.prems by auto
  have "map_of (map (\<lambda>p. (op_Pair p, op_Price p)) ps) (op_Pair p) = None"
    using Cons.prems(3) by (auto simp: map_of_eq_None_iff)
  then show ?case using r Cons.prems(2) fm by (auto split: option.splits)
qed simp

lemma not_oracle_prices:
  assumes "executeTx s i tx = Ret (out, evs, s')" and "\<not> is_oracle_tx tx"
  shows "st_Prices s' = st_Prices s"
  using assms by (auto simp: executeTx_def go_bind_Ret_iff is_oracle_tx_def other_kinds_prices split: if_splits)

lemma no_oracle_prices:
  "execute_txs s i txs = Ret (outs, evs, s') \<Longrightarrow> list_all (\<lambda>tx. \<not> is_oracle_tx tx) txs \<Longrightarrow> st_Prices s' = st_Prices s"
proof (induction txs arbitrary: s i outs evs)
  case (Cons tx txs)
  obtain out evs1 s1 outs2 evs2 where r: "executeTx s (of_nat i) tx = Ret (out, evs1, s1)"
    "execute_txs s1 (Suc i) txs = Ret (outs2, evs2, s')" using Cons.prems(1) by (auto simp: go_bind_Ret_iff)
  show ?case using Cons.IH [OF r(2)] not_oracle_prices [OF r(1)] Cons.prems(2) by simp
qed simp

lemma oracle_update_prices:
  assumes "state_ok s" and "aggregated_prices exts \<noteq> []"
    and "tx = TxOracleUpdate # Marshal (json_slice json_OraclePrice (Some (aggregated_prices exts)))"
  obtains out evs s' where "executeTx s i tx = Ret (out, evs, s')" and "state_ok s'"
    and "\<And>k. gm_get (st_Prices s') k = (if all_reports k exts = [] then gm_get (st_Prices s) k
       else Some (sort (all_reports k exts) ! (length (all_reports k exts) div 2)))"
proof -
  let ?ps = "aggregated_prices exts"
  have dec: "Unmarshal_prices (Marshal (json_slice json_OraclePrice (Some ?ps))) = Inr (Some ?ps)"
    by (rule prices_roundtrip) (auto simp: elems_def aggregated_prices_ok)
  have kind: "executeTx s i tx = executeOracleUpdate s i tx"
    using assms(3) by (simp add: executeTx_def TxDeposit_def TxWithdraw_def TxLimitOrder_def TxOracleUpdate_def)
  obtain evs m where m: "apply_prices (st_Prices s) ?ps = Ret (evs, m)" "m \<noteq> NilMap"
    "\<forall>k. gm_get m k = (case map_of (map (\<lambda>p. (op_Pair p, op_Price p)) ?ps) k of Some v \<Rightarrow> Some v
        | None \<Rightarrow> gm_get (st_Prices s) k)"
    using apply_prices_lookup [of "st_Prices s" ?ps] assms(1) aggregated_prices_ok distinct_aggregated
    by (auto simp: state_ok_def)
  have "executeOracleUpdate s i tx = Ret (zero_TxOutcome\<lparr>txo_Index := i, txo_Code := 0, txo_Events := evs\<rparr>, evs, s\<lparr>st_Prices := m\<rparr>)"
    using assms(3) dec m(1) Marshal_slice_nonempty [of json_OraclePrice "Some ?ps"]
    by (cases "Marshal (json_slice json_OraclePrice (Some ?ps))") (auto simp: executeOracleUpdate_def elems_def)
  then show ?thesis
    using kind m assms(1) by (intro that [of _ _ "s\<lparr>st_Prices := m\<rparr>"]) (auto simp: state_ok_def aggregated_lookup)
qed

section \<open>A round\<close>

definition oracle_tx :: "CommittedVoteExtension list \<Rightarrow> Tx" where
  "oracle_tx exts = TxOracleUpdate # Marshal (json_slice json_OraclePrice (Some (aggregated_prices exts)))"

text \<open>The block that is made of a proposal leaves each reported pair at its median.\<close>

lemma built_block_prices:
  assumes "valid_order ord" and "build_proposal ord pctx = Ret p" and "fb_Txs b = bp_Txs p"
    and "(of_nat (length (oracle_tx (pc_VoteExtensions pctx))) :: u64) \<le> pc_MaxTxBytes pctx"
  shows "gm_get (st_Prices (snd (dex_exec c b))) k =
    (let vals = all_reports k (pc_VoteExtensions pctx)
     in if vals = [] then gm_get (st_Prices c) k else Some (sort vals ! (length vals div 2)))"
proof -
  let ?exts = "pc_VoteExtensions pctx" and ?s0 = "(cloned c)\<lparr>st_Height := fb_Height b\<rparr>"
  have c: "gm_get (st_Prices ?s0) k = gm_get (st_Prices c) k" by (simp add: cloned_def present_def gm_get_def)
  obtain outs evs s where run: "execute_txs ?s0 0 (fb_Txs b) = Ret (outs, evs, s)" "snd (dex_exec c b) = s"
    using dex_exec_run [where c = c and b = b] by (metis snd_conv)
  show ?thesis
  proof (cases "aggregated_prices ?exts = []")
    case True
    then have "all_reports k ?exts = []" using aggregated_lookup [of ?exts k] by (auto split: if_splits)
    moreover have "list_all (\<lambda>tx. \<not> is_oracle_tx tx) (fb_Txs b)"
      using assms(1-3) True by (auto simp: build_proposal_def buildOracleTx_eq fill_no_oracle split: if_splits)
    ultimately show ?thesis using no_oracle_prices [OF run(1)] run(2) c by simp
  next
    case False
    then have ne: "?exts \<noteq> []" using gm_len_0 [of "MkMap fmempty"] by (auto simp: aggregated_prices_def gm_len_def)
    obtain rest where txs: "fb_Txs b = oracle_tx ?exts # rest" "list_all (\<lambda>tx. \<not> is_oracle_tx tx) rest"
      using assms False ne fill_no_oracle by (auto simp: build_proposal_def buildOracleTx_eq oracle_tx_def)
    obtain out1 evs1 s1 where s1: "executeTx ?s0 0 (oracle_tx ?exts) = Ret (out1, evs1, s1)" "state_ok s1"
      "\<And>k. gm_get (st_Prices s1) k = (if all_reports k ?exts = [] then gm_get (st_Prices ?s0) k
         else Some (sort (all_reports k ?exts) ! (length (all_reports k ?exts) div 2)))"
      by (rule oracle_update_prices [OF state_ok_start False oracle_tx_def]) blast
    obtain outs2 evs2 where "execute_txs s1 1 rest = Ret (outs2, evs2, s)"
      using run(1) txs(1) s1(1) by (auto simp: go_bind_Ret_iff)
    then have "st_Prices s = st_Prices s1" using no_oracle_prices txs(2) by blast
    then show ?thesis using run(2) s1(3) c by (simp add: Let_def)
  qed
qed

definition price_query :: "string \<Rightarrow> StateQuery" where
  "price_query k = \<lparr>sq_Path = ''/price'', sq_Data = bytes k, sq_Height = None, sq_Prove = False\<rparr>"

lemma price_answer:
  "gm_get (st_Prices s) k = Some v \<Longrightarrow> dex_query s (price_query k) =
     Ret (zero_StateQueryResult\<lparr>sr_Code := 0, sr_Key := bytes k, sr_Value := PutUint64 v, sr_Height := st_Height s\<rparr>)"
  by (simp add: dex_query_def price_query_def)

text \<open>
  Executing and committing the block of a proposal, and asking for the price of a pair that
  was reported: the answer is the median of the reports.
\<close>

lemma round_answer:
  assumes "valid_order ord" and "valid_order ord'" and "app_current app = Some c"
    and "build_proposal ord pctx = Ret p" and "fb_Txs b = bp_Txs p"
    and "(of_nat (length (oracle_tx (pc_VoteExtensions pctx))) :: u64) \<le> pc_MaxTxBytes pctx"
    and "all_reports k (pc_VoteExtensions pctx) \<noteq> []"
  shows "\<exists>out app1 r app2. Dex_ExecuteBlock ord' b app = (Ret (out, None), app1) \<and> Dex_Commit app1 = (Ret (r, None), app2) \<and>
    Dex_Query (price_query k) app2 =
      (Ret (zero_StateQueryResult\<lparr>sr_Code := 0, sr_Key := bytes k, sr_Height := fb_Height b,
         sr_Value := PutUint64 (let vals = all_reports k (pc_VoteExtensions pctx) in sort vals ! (length vals div 2))\<rparr>, None), app2)"
proof -
  obtain s where s: "snd (dex_exec c b) = s" "st_Height s = fb_Height b"
    using dex_exec_run [where c = c and b = b] by (metis snd_conv)
  have "gm_get (st_Prices s) k = Some (let vals = all_reports k (pc_VoteExtensions pctx) in sort vals ! (length vals div 2))"
    using built_block_prices [OF assms(1,4-6), of c k] assms(7) s(1) by (simp add: Let_def)
  note answer = price_answer [OF this]
  show ?thesis using Dex_ExecuteBlock_eq [OF assms(2,3), of b] s answer
    by (simp add: Dex_Commit_def Dex_Query_eq)
qed

text \<open>Validators that report once each: their majority is one of reports.\<close>

lemma honest_majority:
  assumes "\<forall>e\<in>set exts. length (reports k e) \<le> 1"
  shows "length (all_reports k exts) \<le> length exts" and
    "length (filter P (all_reports k exts)) = length (filter (\<lambda>e. \<exists>v. reports k e = [v] \<and> P v) exts)"
proof -
  have "length (all_reports k exts) \<le> length exts \<and>
      length (filter P (all_reports k exts)) = length (filter (\<lambda>e. \<exists>v. reports k e = [v] \<and> P v) exts)"
    using assms
  proof (induction exts)
    case (Cons e exts)
    then show ?case by (cases "reports k e") (auto simp: all_reports_def)
  qed (simp add: all_reports_def)
  then show "length (all_reports k exts) \<le> length exts" and
    "length (filter P (all_reports k exts)) = length (filter (\<lambda>e. \<exists>v. reports k e = [v] \<and> P v) exts)" by blast+
qed

section \<open>Stuffing\<close>

definition stuffed :: "nat \<Rightarrow> OraclePrice \<Rightarrow> byte_slice" where
  "stuffed n p = Marshal (json_slice json_OraclePrice (Some (replicate n p)))"

lemma stuffed_decodes:
  assumes "valid_utf8 (op_Pair p)"
  shows "Unmarshal_prices (stuffed n p) = Inr (Some (replicate n p))"
  unfolding stuffed_def by (rule prices_roundtrip) (use assms in \<open>auto simp: elems_def\<close>)

lemma stuffed_reports:
  assumes "valid_utf8 (op_Pair p)" and "op_Pair p \<noteq> []" and "op_Price p \<noteq> 0" and "cve_Extension e = stuffed n p"
  shows "reports (op_Pair p) e = replicate n (op_Price p)"
proof -
  have "stuffed n p \<noteq> []" by (simp add: stuffed_def Marshal_slice_nonempty)
  then show ?thesis using assms by (simp add: reports_def stuffed_decodes elems_def quotes_def word_neq_0_conv)
qed

section \<open>Honest rounds\<close>

text \<open>Extensions made by validators whose committed prices are those of \<open>c\<close>.\<close>

lemma filter_single: "distinct xs \<Longrightarrow> k \<in> set xs \<Longrightarrow> filter (\<lambda>x. x = k) xs = [k]"
  by (induction xs) (auto simp: filter_empty_conv)

lemma own_reports:
  assumes "valid_order ord" and "prices_ok (st_Prices c)" and "cve_Extension e = extend_vote ord c"
  shows "reports k e = (case gm_get (st_Prices c) k of Some v \<Rightarrow> [v] | None \<Rightarrow> [])"
proof -
  let ?f = "\<lambda>k. \<lparr>op_Pair = k, op_Price = amount_of (st_Prices c) k\<rparr>" and ?ks = "gm_keys (st_Prices c)"
  have ne: "cve_Extension e \<noteq> []" using assms(3) by (simp add: extend_vote_def Marshal_slice_nonempty)
  have "filter (\<lambda>p. op_Pair p = k \<and> k \<noteq> [] \<and> op_Price p > 0) (map ?f ?ks) =
      map ?f (filter (\<lambda>x. x = k \<and> k \<noteq> [] \<and> amount_of (st_Prices c) x > 0) ?ks)" by (simp add: filter_map comp_def)
  also have "filter (\<lambda>x. x = k \<and> k \<noteq> [] \<and> amount_of (st_Prices c) x > 0) ?ks = (if gm_get (st_Prices c) k = None then [] else [k])"
  proof (cases "gm_get (st_Prices c) k")
    case None
    then show ?thesis using in_gm_keys [of k "st_Prices c"] by (auto simp: filter_empty_conv simp del: set_gm_keys)
  next
    case (Some v)
    then have "k \<in> set ?ks" "k \<noteq> []" "amount_of (st_Prices c) k > 0"
      using assms(2) by (auto simp: in_gm_keys prices_ok_def amount_of_def word_neq_0_conv simp del: set_gm_keys)
    then have "filter (\<lambda>x. x = k \<and> k \<noteq> [] \<and> amount_of (st_Prices c) x > 0) ?ks = filter (\<lambda>x. x = k) ?ks"
      by (intro filter_cong) auto
    also have "\<dots> = [k]" using \<open>k \<in> set ?ks\<close> by (intro filter_single) simp_all
    finally show ?thesis using Some by simp
  qed
  finally show ?thesis using ne extension_roundtrip [OF assms(1,2)] assms(3)
    by (auto simp: reports_def quotes_def append_slice_def elems_def amount_of_def split: option.splits)
qed

text \<open>
  Chains in which every proposal is built by this code from extensions that this code made in
  the state before the block.
\<close>

inductive honest_chain :: "state \<Rightarrow> bool" where
  start: "honest_chain newState"
| block: "honest_chain c \<Longrightarrow> valid_order ord \<Longrightarrow>
    \<forall>e\<in>set (pc_VoteExtensions pctx). \<exists>ord'. valid_order ord' \<and> cve_Extension e = extend_vote ord' c \<Longrightarrow>
    build_proposal ord pctx = Ret p \<Longrightarrow> fb_Txs b = bp_Txs p \<Longrightarrow> honest_chain (snd (dex_exec c b))"

lemma no_oracle_round:
  assumes "list_all (\<lambda>tx. \<not> is_oracle_tx tx) (fb_Txs b)"
  shows "gm_get (st_Prices (snd (dex_exec c b))) k = gm_get (st_Prices c) k"
proof -
  obtain outs evs s where run: "execute_txs ((cloned c)\<lparr>st_Height := fb_Height b\<rparr>) 0 (fb_Txs b) = Ret (outs, evs, s)"
    "snd (dex_exec c b) = s" using dex_exec_run [where c = c and b = b] by (metis snd_conv)
  have "st_Prices s = st_Prices ((cloned c)\<lparr>st_Height := fb_Height b\<rparr>)" using no_oracle_prices [OF run(1)] assms by blast
  then show ?thesis using run(2) by (simp add: cloned_def present_def gm_get_def)
qed

lemma silent_round:
  assumes "valid_order ord" and "build_proposal ord pctx = Ret p" and "fb_Txs b = bp_Txs p"
    and "\<And>k. all_reports k (pc_VoteExtensions pctx) = []"
  shows "gm_get (st_Prices (snd (dex_exec c b))) k = gm_get (st_Prices c) k"
proof -
  let ?exts = "pc_VoteExtensions pctx"
  have "aggregated_prices ?exts = []"
  proof (rule ccontr)
    assume "aggregated_prices ?exts \<noteq> []"
    then obtain p where "p \<in> set (aggregated_prices ?exts)" by (meson last_in_set)
    then have "map_of (map (\<lambda>p. (op_Pair p, op_Price p)) (aggregated_prices ?exts)) (op_Pair p) \<noteq> None"
      by (auto simp: map_of_eq_None_iff image_image)
    then show False using aggregated_lookup [of ?exts "op_Pair p"] assms(4) by simp
  qed
  then have "list_all (\<lambda>tx. \<not> is_oracle_tx tx) (fb_Txs b)"
    using assms(1-3) by (auto simp: build_proposal_def buildOracleTx_eq fill_no_oracle split: if_splits)
  then show ?thesis by (rule no_oracle_round)
qed

text \<open>
  An oracle transaction that is larger than the proposal may be is left out, and the prices
  stay as they are. It holds every pair that some extension reports, so that one extension
  with enough pairs makes it too large.
\<close>

lemma join_length: "(\<And>x. x \<in> set xs \<Longrightarrow> f x \<noteq> []) \<Longrightarrow> length xs \<le> length (join sep (map f xs))"
proof (induction xs rule: induct_list012)
  case (3 x y xs)
  then show ?case using 3(2) by (cases "f x") (auto simp: le_SucI)
qed (auto simp: Suc_le_eq)

lemma oracle_tx_size:
  assumes "\<forall>k\<in>set ks. all_reports k exts \<noteq> []" and "distinct ks"
  shows "length ks < length (oracle_tx exts)"
proof -
  let ?ps = "aggregated_prices exts"
  have "k \<in> op_Pair ` set ?ps" if "k \<in> set ks" for k
  proof -
    have "map_of (map (\<lambda>p. (op_Pair p, op_Price p)) ?ps) k \<noteq> None" using assms(1) that by (simp add: aggregated_lookup)
    then show ?thesis by (auto simp: map_of_eq_None_iff image_image)
  qed
  then have "card (set ks) \<le> card (op_Pair ` set ?ps)" by (intro card_mono) auto
  also have "\<dots> \<le> length ?ps" by (meson card_image_le card_length finite_set le_trans)
  also have "\<dots> \<le> length (join '','' (map (print_json \<circ> json_OraclePrice) ?ps))" by (rule join_length) (simp add: json_OraclePrice_def)
  finally have "card (set ks) \<le> length (join '','' (map (print_json \<circ> json_OraclePrice) ?ps))" .
  then show ?thesis using distinct_card [OF assms(2)]
    by (simp add: oracle_tx_def Marshal_def json_slice_def bytes_def)
qed

lemma crowded_out:
  assumes "valid_order ord" and "build_proposal ord pctx = Ret p" and "fb_Txs b = bp_Txs p"
    and "\<not> (of_nat (length (oracle_tx (pc_VoteExtensions pctx))) :: u64) \<le> pc_MaxTxBytes pctx"
  shows "list_all (\<lambda>tx. \<not> is_oracle_tx tx) (fb_Txs b)"
  using assms by (auto simp: build_proposal_def buildOracleTx_eq oracle_tx_def fill_no_oracle split: if_splits)

lemma honest_prices: "honest_chain c \<Longrightarrow> gm_get (st_Prices c) k = None"
proof (induction arbitrary: k rule: honest_chain.induct)
  case (block c ord pctx p b)
  have "reports k e = []" if "e \<in> set (pc_VoteExtensions pctx)" for e k
    using that block.hyps(3) block.IH own_reports [of _ c e k] by (fastforce simp: prices_ok_def)
  then have "all_reports k (pc_VoteExtensions pctx) = []" for k by (simp add: all_reports_def)
  then show ?case using silent_round [OF block.hyps(2,4,5)] block.IH by simp
qed (simp add: newState_def)

section \<open>Properties\<close>


definition feed :: "nat \<Rightarrow> u64 \<Rightarrow> CommittedVoteExtension" where
  "feed n v = \<lparr>cve_Validator = zero_address, cve_Extension = stuffed n \<lparr>op_Pair = ''ETH/USD'', op_Price = v\<rparr>\<rparr>"

definition round_pctx :: "CommittedVoteExtension list \<Rightarrow> ProposalContext" where
  "round_pctx exts = \<lparr>pc_Height = 2, pc_Time = \<lparr>ts_Seconds = 0, ts_Nanos = 0\<rparr>, pc_Proposer = zero_address,
     pc_MempoolTxs = [], pc_MaxTxBytes = - 1, pc_VoteExtensions = exts\<rparr>"

lemma round_proposal:
  obtains p where "Dex_BuildProposal (\<lambda>l ks. rev ks) (round_pctx exts) Dex_New = (Ret (p, None), Dex_New)"
proof -
  have "valid_order (\<lambda>l ks. rev ks)" by (simp add: valid_order_def)
  then obtain p where "build_proposal (\<lambda>l ks. rev ks) (round_pctx exts) = Ret p" by (rule build_proposal_eq) blast
  then show ?thesis using that by (simp add: Dex_BuildProposal_def)
qed

lemma utf8_pair: "valid_utf8 ''ETH/USD''"
  by (simp add: valid_utf8.simps rune_size_def)

lemma feed_reports: "v \<noteq> 0 \<Longrightarrow> reports ''ETH/USD'' (feed n v) = replicate n v"
  using stuffed_reports [of "\<lparr>op_Pair = ''ETH/USD'', op_Price = v\<rparr>" "feed n v" n] utf8_pair by (simp add: feed_def)


text \<open>
  C12. Reports are counted, not validators: whatever the other extensions say, one validator
  that lists a pair more often than all of them together is accepted by \<open>VerifyExtension\<close>, and
  the price it names is the price of the pair after the block, as long as the oracle
  transaction fits \<open>MaxTxBytes\<close>.
\<close>

theorem ballot_stuffing:
  assumes "valid_order ord" and "valid_order ord'" and "app_current app = Some c"
    and "Dex_BuildProposal ord pctx app = (Ret (p, None), app)" and "fb_Txs b = bp_Txs p"
    and "(of_nat (length (oracle_tx (pc_VoteExtensions pctx))) :: u64) \<le> pc_MaxTxBytes pctx"
    and "pc_VoteExtensions pctx = others @ [e]" and "cve_Extension e = stuffed (Suc n) q" and "length (all_reports (op_Pair q) others) \<le> n"
    and "valid_utf8 (op_Pair q)" and "op_Pair q \<noteq> []" and "op_Price q \<noteq> 0" and "re_Extension ext = cve_Extension e"
  shows "Dex_VerifyExtension ext app = (Ret (ExtensionAccept, None), app) \<and>
    (\<exists>out app1 r app2. Dex_ExecuteBlock ord' b app = (Ret (out, None), app1) \<and> Dex_Commit app1 = (Ret (r, None), app2) \<and>
      Dex_Query (price_query (op_Pair q)) app2 = (Ret (zero_StateQueryResult\<lparr>sr_Code := 0, sr_Key := bytes (op_Pair q),
        sr_Height := fb_Height b, sr_Value := PutUint64 (op_Price q)\<rparr>, None), app2))"
proof
  show "Dex_VerifyExtension ext app = (Ret (ExtensionAccept, None), app)"
    using assms(8,10,11,13)
    by (simp add: Dex_VerifyExtension_def verify_extension_def stuffed_decodes elems_def list_ex_iff del: replicate.simps)
  let ?vals = "all_reports (op_Pair q) (pc_VoteExtensions pctx)"
  have p: "build_proposal ord pctx = Ret p" using assms(4) by (auto simp: Dex_BuildProposal_def go_bind_Ret_iff)
  have vals: "?vals = all_reports (op_Pair q) others @ replicate (Suc n) (op_Price q)"
    using assms(7) stuffed_reports [OF assms(10-12,8)] by (simp add: all_reports_def)
  have "length ?vals < 2 * length (filter (\<lambda>v. op_Price q \<le> v \<and> v \<le> op_Price q) ?vals)"
    unfolding vals using assms(9) by (simp del: replicate.simps)
  note m = median_value [OF this]
  show "\<exists>out app1 r app2. Dex_ExecuteBlock ord' b app = (Ret (out, None), app1) \<and> Dex_Commit app1 = (Ret (r, None), app2) \<and>
      Dex_Query (price_query (op_Pair q)) app2 = (Ret (zero_StateQueryResult\<lparr>sr_Code := 0, sr_Key := bytes (op_Pair q),
        sr_Height := fb_Height b, sr_Value := PutUint64 (op_Price q)\<rparr>, None), app2)"
    using round_answer [OF assms(1-3) p assms(5,6) m(1)] antisym [OF m(3,2)] by (simp add: Let_def)
qed

theorem ballot_stuffing_witness:
  "\<exists>p out app1 r app2.
    Dex_BuildProposal (\<lambda>l ks. rev ks) (round_pctx [feed 1 100, feed 1 101, feed 3 900000]) Dex_New = (Ret (p, None), Dex_New) \<and>
    Dex_VerifyExtension \<lparr>re_Height = 1, re_Round = 0, re_Validator = zero_address, re_Extension = cve_Extension (feed 3 900000)\<rparr> Dex_New =
      (Ret (ExtensionAccept, None), Dex_New) \<and>
    Dex_ExecuteBlock (\<lambda>l ks. ks) (MakeBlock 2 (bp_Txs p)) Dex_New = (Ret (out, None), app1) \<and>
    Dex_Commit app1 = (Ret (r, None), app2) \<and>
    Dex_Query (price_query ''ETH/USD'') app2 = (Ret (zero_StateQueryResult\<lparr>sr_Code := 0, sr_Key := bytes ''ETH/USD'', sr_Height := 2,
      sr_Value := PutUint64 900000\<rparr>, None), app2)"
proof -
  let ?others = "[feed 1 100, feed 1 101]" and ?e = "feed 3 900000"
  obtain p where p: "Dex_BuildProposal (\<lambda>l ks. rev ks) (round_pctx (?others @ [?e])) Dex_New = (Ret (p, None), Dex_New)"
    by (rule round_proposal)
  let ?b = "MakeBlock 2 (bp_Txs p)"
  have b: "fb_Txs ?b = bp_Txs p" "fb_Height ?b = 2" by (simp_all add: MakeBlock_def Let_def)
  have ords: "valid_order (\<lambda>l ks. rev ks)" "valid_order (\<lambda>l ks. ks)" by (simp_all add: valid_order_def)
  have start: "app_current Dex_New = Some newState" by (simp add: Dex_New_def)
  have e: "cve_Extension ?e = stuffed (Suc 2) \<lparr>op_Pair = ''ETH/USD'', op_Price = 900000\<rparr>" by (simp add: feed_def)
  note attack = ballot_stuffing [OF ords start p b(1) _ _ e]
  show ?thesis
    using attack [of ?others "\<lparr>re_Height = 1, re_Round = 0, re_Validator = zero_address, re_Extension = cve_Extension ?e\<rparr>"] p
    by (simp add: round_pctx_def feed_reports all_reports_def utf8_pair b(2))
qed

text \<open>
  C32. No price ever enters a network of validators that run this code alone: in a chain from
  genesis whose proposals are built by \<open>BuildProposal\<close> from extensions that \<open>ExtendVote\<close> made,
  every price query is answered with \<open>unknown pair\<close>.
\<close>

theorem honest_oracle_silent:
  assumes "honest_chain c" and "app_current app = Some c"
  shows "Dex_Query (price_query k) app =
    (Ret (zero_StateQueryResult\<lparr>sr_Code := 1, sr_Info := ''unknown pair'', sr_Height := st_Height c\<rparr>, None), app)"
  using assms honest_prices [OF assms(1), of k] by (simp add: Dex_Query_eq dex_query_def price_query_def)

theorem honest_oracle_silent_witness:
  "\<exists>p. build_proposal (\<lambda>l ks. rev ks) (round_pctx [\<lparr>cve_Validator = zero_address, cve_Extension = extend_vote (\<lambda>l ks. ks) newState\<rparr>]) = Ret p \<and>
    fst (Dex_Query (price_query ''ETH/USD'') \<lparr>app_current = Some (snd (dex_exec newState (MakeBlock 1 (bp_Txs p)))), app_staged = None\<rparr>) =
      Ret (zero_StateQueryResult\<lparr>sr_Code := 1, sr_Info := ''unknown pair'', sr_Height := 1\<rparr>, None)"
proof -
  let ?pctx = "round_pctx [\<lparr>cve_Validator = zero_address, cve_Extension = extend_vote (\<lambda>l ks. ks) newState\<rparr>]"
  have ords: "valid_order (\<lambda>l ks. rev ks)" "valid_order (\<lambda>l ks. ks)" by (simp_all add: valid_order_def)
  obtain p where p: "build_proposal (\<lambda>l ks. rev ks) ?pctx = Ret p"
    by (rule build_proposal_eq [OF ords(1), of ?pctx]) blast
  let ?b = "MakeBlock 1 (bp_Txs p)"
  have h: "st_Height (snd (dex_exec newState ?b)) = 1"
    by (rule dex_exec_run [where c = newState and b = ?b]) (simp add: MakeBlock_def Let_def)
  have "honest_chain (snd (dex_exec newState ?b))"
    by (rule honest_chain.block [OF honest_chain.start ords(1) _ p]) (use ords(2) in \<open>auto simp: round_pctx_def MakeBlock_def Let_def\<close>)
  from honest_oracle_silent [OF this, of "\<lparr>app_current = Some (snd (dex_exec newState ?b)), app_staged = None\<rparr>"]
  show ?thesis using p h by auto
qed

end
