(* ===== verification/Dex_Heap.thy ===== *)
theory Dex_Heap
  imports Dex
begin

text \<open>
  \<^verbatim>\<open>example/dex/app.go\<close> over an explicit store. In the other theories a state is a value; in the
  program it is a struct behind a pointer, with maps and an array behind further pointers,
  and transactions assign to them in place. Here every \<open>make\<close>, assignment, \<open>delete\<close>, \<open>append\<close>
  and field update acts on the store, so that what is shared and what is copied is part of
  the model: \<open>clone\<close> copies map by map, \<open>append\<close> writes into the old array when it has room
  (the capacity of a new array is a parameter, \<open>grow\<close>), and \<open>Commit\<close> moves a pointer.
\<close>

section \<open>The store\<close>

type_synonym ref = nat

text \<open>A struct; a slice is an array and a length (its capacity is the array's length).\<close>

record hstate =
  hs_Height :: u64
  hs_Balances :: "ref option"
  hs_Orders :: "(ref \<times> nat) option"
  hs_Prices :: "ref option"

record heap =
  h_states :: "ref \<Rightarrow> hstate"
  h_balances :: "ref \<Rightarrow> (string, ref option) fmap"
  h_amounts :: "ref \<Rightarrow> (string, u64) fmap"
  h_arrays :: "ref \<Rightarrow> Order list"
  h_lim :: ref

definition empty_heap :: heap where
  "empty_heap = \<lparr>h_states = (\<lambda>_. \<lparr>hs_Height = 0, hs_Balances = None, hs_Orders = None, hs_Prices = None\<rparr>),
     h_balances = (\<lambda>_. fmempty), h_amounts = (\<lambda>_. fmempty), h_arrays = (\<lambda>_. []), h_lim = 0\<rparr>"

definition new_struct :: "hstate \<Rightarrow> heap \<Rightarrow> ref \<times> heap" where
  "new_struct v h = (h_lim h, h\<lparr>h_states := (h_states h)(h_lim h := v), h_lim := Suc (h_lim h)\<rparr>)"

definition new_balances :: "(string, ref option) fmap \<Rightarrow> heap \<Rightarrow> ref \<times> heap" where
  "new_balances m h = (h_lim h, h\<lparr>h_balances := (h_balances h)(h_lim h := m), h_lim := Suc (h_lim h)\<rparr>)"

definition new_amounts :: "(string, u64) fmap \<Rightarrow> heap \<Rightarrow> ref \<times> heap" where
  "new_amounts m h = (h_lim h, h\<lparr>h_amounts := (h_amounts h)(h_lim h := m), h_lim := Suc (h_lim h)\<rparr>)"

definition new_array :: "Order list \<Rightarrow> heap \<Rightarrow> ref \<times> heap" where
  "new_array xs h = (h_lim h, h\<lparr>h_arrays := (h_arrays h)(h_lim h := xs), h_lim := Suc (h_lim h)\<rparr>)"

text \<open>What a reader finds behind a pointer: the value that the other theories work on.\<close>

definition amounts_at :: "heap \<Rightarrow> ref option \<Rightarrow> amounts" where
  "amounts_at h r = (case r of None \<Rightarrow> NilMap | Some a \<Rightarrow> MkMap (h_amounts h a))"

definition balances_at :: "heap \<Rightarrow> ref option \<Rightarrow> balances" where
  "balances_at h r = (case r of None \<Rightarrow> NilMap | Some b \<Rightarrow> MkMap (fmmap (amounts_at h) (h_balances h b)))"

definition orders_at :: "heap \<Rightarrow> (ref \<times> nat) option \<Rightarrow> Order slice" where
  "orders_at h sl = map_option (\<lambda>(a, n). take n (h_arrays h a)) sl"

definition state_at :: "heap \<Rightarrow> ref \<Rightarrow> state" where
  "state_at h p = (let s = h_states h p in
     \<lparr>st_Height = hs_Height s, st_Balances = balances_at h (hs_Balances s),
      st_Orders = orders_at h (hs_Orders s), st_Prices = amounts_at h (hs_Prices s)\<rparr>)"

section \<open>Assignments\<close>

text \<open>\<open>s.Balances[addr]\<close>, and \<open>s.Balances[addr][denom]\<close> read.\<close>

definition inner_at :: "ref \<Rightarrow> string \<Rightarrow> heap \<Rightarrow> ref option" where
  "inner_at p addr h = (case hs_Balances (h_states h p) of
     None \<Rightarrow> None
   | Some b \<Rightarrow> (case fmlookup (h_balances h b) addr of Some r \<Rightarrow> r | None \<Rightarrow> None))"

definition balance_at :: "ref \<Rightarrow> string \<Rightarrow> string \<Rightarrow> heap \<Rightarrow> u64" where
  "balance_at p addr denom h = amount_of (amounts_at h (inner_at p addr h)) denom"

definition nil_map :: "'r go" where
  "nil_map = Panic ''assignment to entry in nil map''"

text \<open>\<open>s.Balances[addr] = make(map[string]uint64)\<close>\<close>

definition make_inner :: "ref \<Rightarrow> string \<Rightarrow> heap \<Rightarrow> (unit \<times> heap) go" where
  "make_inner p addr h = (case hs_Balances (h_states h p) of
     None \<Rightarrow> nil_map
   | Some b \<Rightarrow> (case new_amounts fmempty h of (r, h) \<Rightarrow>
       Ret ((), h\<lparr>h_balances := (h_balances h)(b := fmupd addr (Some r) (h_balances h b))\<rparr>)))"

text \<open>\<open>s.Balances[addr][denom] = v\<close>\<close>

definition put_balance :: "ref \<Rightarrow> string \<Rightarrow> string \<Rightarrow> u64 \<Rightarrow> heap \<Rightarrow> (unit \<times> heap) go" where
  "put_balance p addr denom v h = (case inner_at p addr h of
     None \<Rightarrow> nil_map
   | Some r \<Rightarrow> Ret ((), h\<lparr>h_amounts := (h_amounts h)(r := fmupd denom v (h_amounts h r))\<rparr>))"

text \<open>\<open>delete(s.Balances[addr], denom)\<close> and \<open>delete(s.Balances, addr)\<close>, which do nothing to a nil map\<close>

definition drop_denom :: "ref \<Rightarrow> string \<Rightarrow> string \<Rightarrow> heap \<Rightarrow> heap" where
  "drop_denom p addr denom h = (case inner_at p addr h of
     None \<Rightarrow> h
   | Some r \<Rightarrow> h\<lparr>h_amounts := (h_amounts h)(r := fmdrop denom (h_amounts h r))\<rparr>)"

definition drop_account :: "ref \<Rightarrow> string \<Rightarrow> heap \<Rightarrow> heap" where
  "drop_account p addr h = (case hs_Balances (h_states h p) of
     None \<Rightarrow> h
   | Some b \<Rightarrow> h\<lparr>h_balances := (h_balances h)(b := fmdrop addr (h_balances h b))\<rparr>)"

text \<open>\<open>s.Prices[pair] = v\<close>\<close>

definition put_price :: "ref \<Rightarrow> string \<Rightarrow> u64 \<Rightarrow> heap \<Rightarrow> (unit \<times> heap) go" where
  "put_price p pair v h = (case hs_Prices (h_states h p) of
     None \<Rightarrow> nil_map
   | Some r \<Rightarrow> Ret ((), h\<lparr>h_amounts := (h_amounts h)(r := fmupd pair v (h_amounts h r))\<rparr>))"

text \<open>
  \<open>s.Orders = append(s.Orders, order)\<close>: in place if the array has room, and otherwise into a
  new array with room for at least one more.
\<close>

definition append_order :: "(nat \<Rightarrow> nat) \<Rightarrow> ref \<Rightarrow> Order \<Rightarrow> heap \<Rightarrow> heap" where
  "append_order grow p order h =
     (let s = h_states h p;
          (xs, n) = (case hs_Orders s of None \<Rightarrow> ([], 0) | Some (a, n) \<Rightarrow> (h_arrays h a, n)) in
      if n < length xs then
        (case hs_Orders s of
           None \<Rightarrow> h
         | Some (a, _) \<Rightarrow> h\<lparr>h_arrays := (h_arrays h)(a := xs[n := order]),
             h_states := (h_states h)(p := s\<lparr>hs_Orders := Some (a, Suc n)\<rparr>)\<rparr>)
      else
        (case new_array (take n xs @ order # replicate (grow n) zero_Order) h of (a, h) \<Rightarrow>
           h\<lparr>h_states := (h_states h)(p := s\<lparr>hs_Orders := Some (a, Suc n)\<rparr>)\<rparr>))"

definition put_height :: "ref \<Rightarrow> u64 \<Rightarrow> heap \<Rightarrow> heap" where
  "put_height p v h = h\<lparr>h_states := (h_states h)(p := (h_states h p)\<lparr>hs_Height := v\<rparr>)\<rparr>"

section \<open>Cloning\<close>

text \<open>The loops of \<open>clone\<close>, from \<open>p\<close> to \<open>c\<close>.\<close>

fun copy_denoms :: "ref \<Rightarrow> ref \<Rightarrow> string \<Rightarrow> string list \<Rightarrow> heap \<Rightarrow> (unit \<times> heap) go" where
  "copy_denoms p c addr [] h = Ret ((), h)"
| "copy_denoms p c addr (d # ds) h =
     go_bind (put_balance c addr d (balance_at p addr d h) h) (\<lambda>(_, h). copy_denoms p c addr ds h)"

fun copy_accounts :: "range_order \<Rightarrow> ref \<Rightarrow> ref \<Rightarrow> string list \<Rightarrow> heap \<Rightarrow> (unit \<times> heap) go" where
  "copy_accounts ord p c [] h = Ret ((), h)"
| "copy_accounts ord p c (addr # addrs) h =
     go_bind (make_inner c addr h) (\<lambda>(_, h).
     go_bind (copy_denoms p c addr (ord ''denoms'' (gm_keys (amounts_at h (inner_at p addr h)))) h) (\<lambda>(_, h).
       copy_accounts ord p c addrs h))"

fun copy_prices :: "ref \<Rightarrow> ref \<Rightarrow> string list \<Rightarrow> heap \<Rightarrow> (unit \<times> heap) go" where
  "copy_prices p c [] h = Ret ((), h)"
| "copy_prices p c (k # ks) h =
     go_bind (put_price c k (amount_of (amounts_at h (hs_Prices (h_states h p))) k) h) (\<lambda>(_, h). copy_prices p c ks h)"

definition clone_at :: "range_order \<Rightarrow> ref \<Rightarrow> heap \<Rightarrow> (ref \<times> heap) go" where
  "clone_at ord p h =
     (let s = h_states h p;
          n = length (elems (orders_at h (hs_Orders s)));
          (b, h) = new_balances fmempty h;
          (a, h) = new_array (replicate n zero_Order) h;
          (r, h) = new_amounts fmempty h;
          (c, h) = new_struct \<lparr>hs_Height = hs_Height s, hs_Balances = Some b, hs_Orders = Some (a, n), hs_Prices = Some r\<rparr> h
      in go_bind (copy_accounts ord p c (ord ''balances'' (gm_keys (balances_at h (hs_Balances s)))) h) (\<lambda>(_, h).
         let h = h\<lparr>h_arrays := (h_arrays h)(a := elems (orders_at h (hs_Orders s)) @ drop n (h_arrays h a))\<rparr> in
         go_bind (copy_prices p c (ord ''prices'' (gm_keys (amounts_at h (hs_Prices s)))) h) (\<lambda>(_, h). Ret (c, h))))"

section \<open>Transactions\<close>

type_synonym executed_at = "((TxOutcome \<times> Event list) \<times> heap) go"

definition deposit_at :: "ref \<Rightarrow> u32 \<Rightarrow> Tx \<Rightarrow> heap \<Rightarrow> executed_at" where
  "deposit_at p index tx h =
     (if length tx < 30 then Ret ((failed index 1 ''deposit tx too short'', []), h)
      else
        go_bind (go_slice 1 21 tx) (\<lambda>a.
        go_bind (go_slice 21 29 tx) (\<lambda>n.
        go_bind (Uint64 n) (\<lambda>amount.
        go_bind (go_slice 29 (length tx) tx) (\<lambda>d.
        let addr = addrHex a; denom = str d in
        if amount = 0 then Ret ((failed index 1 ''zero deposit'', []), h)
        else
          go_bind (if inner_at p addr h = None then make_inner p addr h else Ret ((), h)) (\<lambda>(_, h).
          go_bind (put_balance p addr denom (balance_at p addr denom h + amount) h) (\<lambda>(_, h).
          Ret ((zero_TxOutcome\<lparr>txo_Index := index, txo_Code := 0,
                  txo_Data := encodeUint64 (balance_at p addr denom h),
                  txo_Events := [\<lparr>ev_Kind = ''deposit'', ev_Attributes =
                    [attr ''address'' addr True, attr ''denom'' denom True,
                     attr ''amount'' (dec_nat (unat amount)) True]\<rparr>]\<rparr>,
                []), h))))))))"

definition withdraw_at :: "ref \<Rightarrow> u32 \<Rightarrow> Tx \<Rightarrow> heap \<Rightarrow> executed_at" where
  "withdraw_at p index tx h =
     (if length tx < 30 then Ret ((failed index 1 ''withdraw tx too short'', []), h)
      else
        go_bind (go_slice 1 21 tx) (\<lambda>a.
        go_bind (go_slice 21 29 tx) (\<lambda>n.
        go_bind (Uint64 n) (\<lambda>amount.
        go_bind (go_slice 29 (length tx) tx) (\<lambda>d.
        let addr = addrHex a; denom = str d in
        if amount = 0 then Ret ((failed index 1 ''zero withdrawal'', []), h)
        else
          let bal = balance_at p addr denom h in
          if bal < amount then
            Ret ((failed index 2 (''insufficient balance: have '' @ dec_nat (unat bal) @
                    '', need '' @ dec_nat (unat amount)), []), h)
          else
            go_bind (put_balance p addr denom (bal - amount) h) (\<lambda>(_, h).
            let h = (if balance_at p addr denom h = 0 then
                       (let h = drop_denom p addr denom h in
                        if gm_len (amounts_at h (inner_at p addr h)) = 0 then drop_account p addr h else h)
                     else h) in
            Ret ((zero_TxOutcome\<lparr>txo_Index := index, txo_Code := 0,
                    txo_Data := encodeUint64 (balance_at p addr denom h),
                    txo_Events := [\<lparr>ev_Kind = ''withdraw'', ev_Attributes =
                      [attr ''address'' addr True, attr ''denom'' denom True,
                       attr ''amount'' (dec_nat (unat amount)) True]\<rparr>]\<rparr>,
                  []), h)))))))"

definition limit_order_at :: "(nat \<Rightarrow> nat) \<Rightarrow> ref \<Rightarrow> u32 \<Rightarrow> Tx \<Rightarrow> heap \<Rightarrow> executed_at" where
  "limit_order_at grow p index tx h =
     (if length tx < 38 then Ret ((failed index 1 ''limit_order tx too short'', []), h)
      else
        go_bind (go_slice 1 21 tx) (\<lambda>owner.
        go_bind (go_slice 21 29 tx) (\<lambda>n.
        go_bind (Uint64 n) (\<lambda>amount.
        go_bind (go_slice 29 37 tx) (\<lambda>q.
        go_bind (Uint64 q) (\<lambda>price.
        go_bind (go_slice 37 (length tx) tx) (\<lambda>q.
        let addr = addrHex owner; pair = str q in
        if amount = 0 \<or> price = 0 then Ret ((failed index 1 ''zero amount or price'', []), h)
        else
          let baseDenom = pairBase pair; bal = balance_at p addr baseDenom h in
          if bal < amount then
            Ret ((failed index 2 (''insufficient '' @ baseDenom @ '' balance: have '' @
                    dec_nat (unat bal) @ '', need '' @ dec_nat (unat amount)), []), h)
          else
            go_bind (put_balance p addr baseDenom (bal - amount) h) (\<lambda>(_, h).
            let h = append_order grow p \<lparr>or_Owner = owner, or_Pair = pair, or_Amount = amount, or_Price = price\<rparr> h in
            Ret ((zero_TxOutcome\<lparr>txo_Index := index, txo_Code := 0,
                    txo_Data := encodeUint64 (of_nat (length (elems (orders_at h (hs_Orders (h_states h p)))) - 1)),
                    txo_Events := [\<lparr>ev_Kind = ''limit_order'', ev_Attributes =
                      [attr ''address'' addr True, attr ''pair'' pair True,
                       attr ''amount'' (dec_nat (unat amount)) False,
                       attr ''price'' (dec_nat (unat price)) False]\<rparr>]\<rparr>,
                  []), h)))))))))"

fun put_prices :: "ref \<Rightarrow> OraclePrice list \<Rightarrow> heap \<Rightarrow> (Event list \<times> heap) go" where
  "put_prices p [] h = Ret ([], h)"
| "put_prices p (q # qs) h =
     (if op_Pair q = [] \<or> op_Price q = 0 then put_prices p qs h
      else
        go_bind (put_price p (op_Pair q) (op_Price q) h) (\<lambda>(_, h).
        go_bind (put_prices p qs h) (\<lambda>(events, h). Ret (oracle_event q # events, h))))"

definition oracle_update_at :: "ref \<Rightarrow> u32 \<Rightarrow> Tx \<Rightarrow> heap \<Rightarrow> executed_at" where
  "oracle_update_at p index tx h =
     (if length tx < 2 then Ret ((failed index 1 ''oracle_update tx too short'', []), h)
      else
        go_bind (go_slice 1 (length tx) tx) (\<lambda>payload.
        case Unmarshal_prices payload of
          Inl err \<Rightarrow> Ret ((failed index 1 (''invalid oracle JSON: '' @ err), []), h)
        | Inr prices \<Rightarrow>
            go_bind (put_prices p (elems prices) h) (\<lambda>(events, h).
            Ret ((zero_TxOutcome\<lparr>txo_Index := index, txo_Code := 0, txo_Events := events\<rparr>, events), h))))"

definition execute_at :: "(nat \<Rightarrow> nat) \<Rightarrow> ref \<Rightarrow> u32 \<Rightarrow> Tx \<Rightarrow> heap \<Rightarrow> executed_at" where
  "execute_at grow p index tx h =
     (if length tx = 0 then Ret ((failed index 1 ''empty tx'', []), h)
      else
        go_bind (go_index tx 0) (\<lambda>kind.
        if kind = TxDeposit then deposit_at p index tx h
        else if kind = TxWithdraw then withdraw_at p index tx h
        else if kind = TxLimitOrder then limit_order_at grow p index tx h
        else if kind = TxOracleUpdate then oracle_update_at p index tx h
        else Ret ((failed index 1 (''unknown tx type 0x'' @ hex_byte kind), []), h)))"

fun execute_all_at :: "(nat \<Rightarrow> nat) \<Rightarrow> ref \<Rightarrow> nat \<Rightarrow> Tx list \<Rightarrow> heap \<Rightarrow> ((TxOutcome list \<times> Event list) \<times> heap) go" where
  "execute_all_at grow p i [] h = Ret (([], []), h)"
| "execute_all_at grow p i (tx # txs) h =
     go_bind (execute_at grow p (of_nat i) tx h) (\<lambda>((outcome, events), h).
     go_bind (execute_all_at grow p (Suc i) txs h) (\<lambda>((outcomes, blockEvents), h).
       Ret ((outcome # outcomes, events @ blockEvents), h)))"

section \<open>Handlers\<close>

text \<open>The application object; a handler that only reads sees what is behind \<open>app.current\<close>.\<close>

record HApp =
  ha_current :: "ref option"
  ha_staged :: "ref option"

type_synonym world = "HApp \<times> heap"

definition observe :: "world \<Rightarrow> App" where
  "observe w = \<lparr>app_current = map_option (state_at (snd w)) (ha_current (fst w)),
     app_staged = map_option (state_at (snd w)) (ha_staged (fst w))\<rparr>"

definition just_reading :: "(App, 'r) meth \<Rightarrow> (world, 'r) meth" where
  "just_reading m w = (fst (m (observe w)), w)"

text \<open>An object that holds a given value, fresh in all its parts: what \<open>json.Unmarshal\<close> leaves.\<close>

definition fresh_amounts :: "amounts \<Rightarrow> heap \<Rightarrow> ref option \<times> heap" where
  "fresh_amounts m h = (case m of NilMap \<Rightarrow> (None, h) | MkMap f \<Rightarrow> apfst Some (new_amounts f h))"

fun fresh_accounts :: "balances \<Rightarrow> string list \<Rightarrow> heap \<Rightarrow> (string, ref option) fmap \<times> heap" where
  "fresh_accounts b [] h = (fmempty, h)"
| "fresh_accounts b (a # as) h =
     (case fresh_amounts (inner b a) h of (r, h) \<Rightarrow>
        (case fresh_accounts b as h of (m, h) \<Rightarrow> (fmupd a r m, h)))"

definition fresh_state :: "state \<Rightarrow> heap \<Rightarrow> ref \<times> heap" where
  "fresh_state s h =
     (case (case st_Balances s of
              NilMap \<Rightarrow> (None, h)
            | MkMap _ \<Rightarrow> (case fresh_accounts (st_Balances s) (gm_keys (st_Balances s)) h of (m, h) \<Rightarrow>
                apfst Some (new_balances m h))) of (b, h) \<Rightarrow>
      case (case st_Orders s of None \<Rightarrow> (None, h) | Some xs \<Rightarrow> apfst (\<lambda>a. Some (a, length xs)) (new_array xs h)) of (q, h) \<Rightarrow>
      case fresh_amounts (st_Prices s) h of (r, h) \<Rightarrow>
        new_struct \<lparr>hs_Height = st_Height s, hs_Balances = b, hs_Orders = q, hs_Prices = r\<rparr> h)"

definition heap_New :: world where
  "heap_New = (case fresh_state newState empty_heap of (p, h) \<Rightarrow> (\<lparr>ha_current = Some p, ha_staged = None\<rparr>, h))"

definition heap_ExecuteBlock :: "range_order \<Rightarrow> (nat \<Rightarrow> nat) \<Rightarrow> FinalizedBlock \<Rightarrow> (world, BlockOutcome) meth" where
  "heap_ExecuteBlock ord grow block w =
     (case w of (app, h) \<Rightarrow>
        case ha_current app of
          None \<Rightarrow> (nil_deref, w)
        | Some p \<Rightarrow>
            (case go_bind (clone_at ord p h) (\<lambda>(c, h).
                    go_bind (execute_all_at grow c 0 (fb_Txs block) (put_height c (fb_Height block) h)) (\<lambda>(r, h). Ret (c, r, h))) of
               Ret (c, (outcomes, blockEvents), h) \<Rightarrow>
                 (Ret (zero_BlockOutcome\<lparr>bo_TxOutcomes := outcomes, bo_BlockEvents := blockEvents,
                         bo_AppHash := appHash (state_at h c)\<rparr>, None),
                  app\<lparr>ha_staged := Some c\<rparr>, h)
             | Panic m \<Rightarrow> (Panic m, w)
             | Blocked \<Rightarrow> (Blocked, w)))"

definition heap_Commit :: "(world, CommitResult) meth" where
  "heap_Commit w =
     (case w of (app, h) \<Rightarrow>
        let app = app\<lparr>ha_current := ha_staged app, ha_staged := None\<rparr> in
        case ha_current app of
          None \<Rightarrow> (nil_deref, app, h)
        | Some p \<Rightarrow>
            (let ht = hs_Height (h_states h p); retain = (if ht > 100 then ht - 100 else 0)
             in (Ret (\<lparr>cr_RetainHeight = retain\<rparr>, None), app, h)))"

definition heap_ImportSnapshot :: "SnapshotDescriptor \<Rightarrow> chunk_chan \<Rightarrow> (world, ImportResult) meth" where
  "heap_ImportSnapshot desc chunks w =
     (case import_snapshot desc chunks of
        (r, None) \<Rightarrow> (Ret (r, None), w)
      | (r, Some s) \<Rightarrow> (case fresh_state s (snd w) of (p, h) \<Rightarrow> (Ret (r, None), (fst w)\<lparr>ha_current := Some p\<rparr>, h)))"

definition heap_Simulate :: "range_order \<Rightarrow> (nat \<Rightarrow> nat) \<Rightarrow> Tx \<Rightarrow> (world, TxOutcome) meth" where
  "heap_Simulate ord grow tx w =
     (case ha_current (fst w) of
        None \<Rightarrow> (nil_deref, w)
      | Some p \<Rightarrow>
          (case go_bind (clone_at ord p (snd w)) (\<lambda>(c, h). execute_at grow c 0 tx h) of
             Ret ((outcome, _), h) \<Rightarrow> (Ret (outcome, None), fst w, h)
           | Panic m \<Rightarrow> (Panic m, w)
           | Blocked \<Rightarrow> (Blocked, w)))"

definition dex_heap :: "range_order \<Rightarrow> (nat \<Rightarrow> nat) \<Rightarrow> world Lifecycle" where
  "dex_heap ord grow = \<lparr>m_Handshake = (\<lambda>req. just_reading (Dex_Handshake req)),
     m_CheckTx = (\<lambda>tx mctx. just_reading (Dex_CheckTx tx mctx)),
     m_ExecuteBlock = heap_ExecuteBlock ord grow, m_Commit = heap_Commit, m_Query = (\<lambda>q. just_reading (Dex_Query q)),
     as_ProposalControl = Some \<lparr>m_BuildProposal = (\<lambda>x. just_reading (Dex_BuildProposal ord x)),
       m_VerifyProposal = (\<lambda>x. just_reading (Dex_VerifyProposal x))\<rparr>,
     as_VoteExtender = Some \<lparr>m_ExtendVote = (\<lambda>x. just_reading (Dex_ExtendVote ord x)),
       m_VerifyExtension = (\<lambda>x. just_reading (Dex_VerifyExtension x))\<rparr>,
     as_StateSync = Some \<lparr>m_AvailableSnapshots = just_reading Dex_AvailableSnapshots,
       m_ExportSnapshot = (\<lambda>ht f. just_reading (Dex_ExportSnapshot ht f)), m_ImportSnapshot = heap_ImportSnapshot\<rparr>,
     as_Simulator = Some \<lparr>m_Simulate = heap_Simulate ord grow\<rparr>,
     as_MempoolObserver = None\<rparr>"

end
