(* ===== verification/Concurrency.thy ===== *)
theory Concurrency
  imports Connections Sessions "HOL-Library.Multiset"
begin

text \<open>
  \<^verbatim>\<open>server/server.go\<close> and \<^verbatim>\<open>server/state_machine.go\<close> with calls that overlap. A goroutine is a
  call of the server together with the point it has reached; between two points lies one
  access to shared memory: a compare-and-swap, load or store of the state word, of the
  handshake flag or of the capabilities, a lock or unlock of \<open>seqMu\<close>, the section under
  \<open>s.mu\<close>, or one call of the application (which is entered before it and left after it, so
  that two calls inside the application at once are visible). A step of the whole program
  is a step of any goroutine that can move, or a new call. The methods of \<open>Server\<close>, run from
  beginning to end, are the specification.
\<close>

section \<open>Goroutines\<close>

datatype pc =
    Start
  | HsRefused | HsApp | HsFailing HandshakeResponse go_error | HsCaps HandshakeResponse | HsCompleting HandshakeResponse
  | ExLocked | ExRefused lifecycleState | ExAcquired | ExApp | ExHold BlockOutcome | ExCompleting BlockOutcome
  | ExFailing BlockOutcome go_error
  | CoLocked | CoRefused lifecycleState | CoAcquired | CoApp | CoClear CommitResult "go_error option"
  | CoCompleting CommitResult "go_error option"
  | Unlocking reply
  | InApp
  | Finished reply
  | Hung reply

type_synonym goroutine = "engine_call \<times> pc"

text \<open>A call from beginning to end, with its reply.\<close>

fun serve :: "engine_call \<Rightarrow> 'a Server \<Rightarrow> reply \<times> 'a Server" where
  "serve (ECHandshake req) s = apfst RHandshake (Handshake req s)"
| "serve (ECCheckTx tx mctx) s = apfst RCheckTx (CheckTx tx mctx s)"
| "serve (ECExecuteBlock b) s = apfst RExecuteBlock (ExecuteBlock b s)"
| "serve ECCommit s = apfst RCommit (Commit s)"
| "serve (ECQuery q) s = apfst RQuery (Query q s)"
| "serve (ECBuildProposal x) s = apfst RBuildProposal (BuildProposal x s)"
| "serve (ECVerifyProposal x) s = apfst RVerifyProposal (VerifyProposal x s)"
| "serve (ECExtendVote x) s = apfst RExtendVote (ExtendVote x s)"
| "serve (ECVerifyExtension x) s = apfst RVerifyExtension (VerifyExtension x s)"
| "serve ECAvailableSnapshots s = apfst RAvailableSnapshots (AvailableSnapshots s)"
| "serve (ECExportSnapshot h f) s = apfst RExportSnapshot (ExportSnapshot h f s)"
| "serve (ECImportSnapshot d ch) s = apfst RImportSnapshot (ImportSnapshot d ch s)"
| "serve (ECSimulate tx) s = apfst RSimulate (Simulate tx s)"
| "serve (ECOnBatchCertified e) s = apfst RObserved (OnBatchCertified e s)"
| "serve (ECOnBlockConstructed e) s = apfst RObserved (OnBlockConstructed e s)"

text \<open>Whether a call that takes no lock gets past its checks and enters the application.\<close>

fun enters :: "engine_call \<Rightarrow> 'a Server \<Rightarrow> bool" where
  "enters (ECCheckTx tx mctx) s = g_handshakeDone (s_guard s)"
| "enters (ECQuery q) s = g_handshakeDone (s_guard s)"
| "enters (ECBuildProposal x) s = (s_proposalCtl s \<noteq> None)"
| "enters (ECVerifyProposal x) s = (s_proposalCtl s \<noteq> None)"
| "enters (ECExtendVote x) s = (s_voteExt s \<noteq> None)"
| "enters (ECVerifyExtension x) s = (s_voteExt s \<noteq> None)"
| "enters ECAvailableSnapshots s = (s_stateSync s \<noteq> None)"
| "enters (ECExportSnapshot h f) s = (s_stateSync s \<noteq> None)"
| "enters (ECImportSnapshot d ch) s = (s_stateSync s \<noteq> None)"
| "enters (ECSimulate tx) s = (s_simulator s \<noteq> None \<and> g_handshakeDone (s_guard s))"
| "enters (ECOnBatchCertified e) s =
     (Capabilities_Has (s_caps s) CapMempoolObserver \<and> s_mempoolObs s \<noteq> None \<and> g_handshakeDone (s_guard s))"
| "enters (ECOnBlockConstructed e) s =
     (Capabilities_Has (s_caps s) CapMempoolObserver \<and> s_mempoolObs s \<noteq> None \<and> g_handshakeDone (s_guard s))"
| "enters x s = False"

definition store :: "lifecycleState \<Rightarrow> 'a Server \<Rightarrow> 'a Server" where
  "store st s = s\<lparr>s_guard := (s_guard s)\<lparr>g_state := st\<rparr>\<rparr>"

definition set_seqMu :: "bool \<Rightarrow> 'a Server \<Rightarrow> 'a Server" where
  "set_seqMu b s = s\<lparr>s_guard := (s_guard s)\<lparr>g_seqMu := b\<rparr>\<rparr>"

fun begin_call :: "engine_call \<Rightarrow> 'a Server \<Rightarrow> (pc \<times> 'a Server) option" where
  "begin_call (ECHandshake req) s =
     Some (if g_state (s_guard s) = stateInit then (HsApp, store stateReady s) else (HsRefused, s))"
| "begin_call (ECExecuteBlock b) s = (if g_seqMu (s_guard s) then None else Some (ExLocked, set_seqMu True s))"
| "begin_call ECCommit s = (if g_seqMu (s_guard s) then None else Some (CoLocked, set_seqMu True s))"
| "begin_call x s = Some (if enters x s then (InApp, s) else (Finished (fst (serve x s)), s))"

definition refused :: "string \<Rightarrow> lifecycleState \<Rightarrow> string \<Rightarrow> 'r go" where
  "refused name st expected = Panic (''github.com/blockberries/bapi: '' @ name @ '' called in state '' @
     lifecycleState_String st @ '' (expected '' @ expected @ '')'')"

definition leave :: "reply \<Rightarrow> pc" where
  "leave r = (if hung r then Hung r else Finished r)"

text \<open>
  One step of a goroutine; \<open>None\<close> if it cannot move: it is finished, or waits for the lock, or
  hangs in the application. \<open>Hung\<close> is the point of a goroutine whose call of the application never
  returns: what the call has done to the application's state is done, and nothing after it
  ever happens. It holds no reply, only the result \<open>Blocked\<close> that stands for none.
\<close>

fun advance :: "engine_call \<Rightarrow> pc \<Rightarrow> 'a Server \<Rightarrow> (pc \<times> 'a Server) option" where
  "advance x Start s = begin_call x s"
| "advance x HsRefused s = Some (Finished (RHandshake (refused ''Handshake'' (g_state (s_guard s)) ''Init'')), s)"
| "advance x HsApp s =
     (case x of
        ECHandshake req \<Rightarrow>
          Some (case call (m_Handshake (s_app s) req) s of
             (Ret (resp, Some e), s) \<Rightarrow> (HsFailing resp e, s)
           | (Ret (resp, None), s) \<Rightarrow>
               (case discoverCapabilities (s_app s) (hr_Capabilities resp) of
                  (Some e, _) \<Rightarrow> (HsFailing resp e, s)
                | (None, warnings) \<Rightarrow> (HsCaps resp, s\<lparr>s_log := s_log s @ warnings\<rparr>))
           | (Panic m, s) \<Rightarrow> (Finished (RHandshake (Panic m)), s)
           | (Blocked, s) \<Rightarrow> (Hung (RHandshake Blocked), s))
      | _ \<Rightarrow> None)"
| "advance x (HsFailing resp e) s = Some (Finished (RHandshake (Ret (resp, Some e))), store stateInit s)"
| "advance x (HsCaps resp) s = Some (HsCompleting resp, s\<lparr>s_caps := hr_Capabilities resp\<rparr>)"
| "advance x (HsCompleting resp) s =
     Some (Finished (RHandshake (Ret (resp, None))), s\<lparr>s_guard := (s_guard s)\<lparr>g_handshakeDone := True\<rparr>\<rparr>)"
| "advance x ExLocked s =
     Some (if g_state (s_guard s) \<noteq> stateReady then (ExRefused (g_state (s_guard s)), s) else (ExAcquired, s))"
| "advance x (ExRefused st) s =
     Some (Finished (RExecuteBlock (refused ''ExecuteBlock'' st ''Ready'')), set_seqMu False s)"
| "advance x ExAcquired s = Some (ExApp, store stateExecuting s)"
| "advance x ExApp s =
     (case x of
        ECExecuteBlock b \<Rightarrow>
          Some (case call (m_ExecuteBlock (s_app s) b) s of
             (Ret (out, Some e), s) \<Rightarrow> (ExFailing out e, s)
           | (Ret (out, None), s) \<Rightarrow> (ExHold out, s)
           | (Panic m, s) \<Rightarrow> (Finished (RExecuteBlock (Panic m)), s)
           | (Blocked, s) \<Rightarrow> (Hung (RExecuteBlock Blocked), s))
      | _ \<Rightarrow> None)"
| "advance x (ExHold out) s =
     (case x of
        ECExecuteBlock b \<Rightarrow>
          Some (ExCompleting out, s\<lparr>s_lastOutcome := Some out, s_lastExecHeight := fb_Height b\<rparr>)
      | _ \<Rightarrow> None)"
| "advance x (ExCompleting out) s = Some (Unlocking (RExecuteBlock (Ret (out, None))), store stateExecuted s)"
| "advance x (ExFailing out e) s = Some (Unlocking (RExecuteBlock (Ret (out, Some e))), store stateReady s)"
| "advance x CoLocked s =
     Some (if g_state (s_guard s) \<noteq> stateExecuted then (CoRefused (g_state (s_guard s)), s) else (CoAcquired, s))"
| "advance x (CoRefused st) s = Some (Finished (RCommit (refused ''Commit'' st ''Executed'')), set_seqMu False s)"
| "advance x CoAcquired s = Some (CoApp, store stateCommitting s)"
| "advance x CoApp s =
     Some (case call (m_Commit (s_app s)) s of
         (Ret (res, err), s) \<Rightarrow> (CoClear res err, s)
       | (Panic m, s) \<Rightarrow> (Finished (RCommit (Panic m)), s)
       | (Blocked, s) \<Rightarrow> (Hung (RCommit Blocked), s))"
| "advance x (CoClear res err) s = Some (CoCompleting res err, s\<lparr>s_lastOutcome := None\<rparr>)"
| "advance x (CoCompleting res err) s = Some (Unlocking (RCommit (Ret (res, err))), store stateReady s)"
| "advance x (Unlocking r) s = (if g_seqMu (s_guard s) then Some (Finished r, set_seqMu False s) else None)"
| "advance x InApp s = Some (case serve x s of (r, s) \<Rightarrow> (leave r, s))"
| "advance x (Finished r) s = None"
| "advance x (Hung r) s = None"

text \<open>
  The checks before \<open>InApp\<close> are not made again: they only read the handshake flag, which is
  never cleared, and fields that do not change, so the method entered is the one that
  \<open>serve\<close> calls.
\<close>

type_synonym 'a config = "goroutine multiset \<times> 'a Server"

inductive step :: "'a config \<Rightarrow> 'a config \<Rightarrow> bool" where
  move: "advance x p s = Some (p', s') \<Longrightarrow> step (add_mset (x, p) M, s) (add_mset (x, p') M, s')"
| spawn: "step (M, s) (add_mset (x, Start) M, s)"

inductive_cases stepE: "step (M, s) (M', s')"

inductive steps :: "'a config \<Rightarrow> 'a config \<Rightarrow> bool" where
  none: "steps c c"
| one: "steps c d \<Longrightarrow> step d e \<Longrightarrow> steps c e"

section \<open>The goroutines one by one\<close>

text \<open>The points at which a goroutine owns \<open>seqMu\<close>, and the points that belong to a call.\<close>

fun holds :: "pc \<Rightarrow> bool" where
  "holds ExLocked = True" | "holds (ExRefused st) = True" | "holds ExAcquired = True" | "holds ExApp = True"
| "holds (ExHold out) = True" | "holds (ExCompleting out) = True" | "holds (ExFailing out e) = True"
| "holds CoLocked = True" | "holds (CoRefused st) = True" | "holds CoAcquired = True" | "holds CoApp = True"
| "holds (CoClear res err) = True" | "holds (CoCompleting res err) = True" | "holds (Unlocking r) = True"
| "holds p = False"

fun simple :: "engine_call \<Rightarrow> bool" where
  "simple (ECHandshake req) = False" | "simple (ECExecuteBlock b) = False" | "simple ECCommit = False"
| "simple x = True"

fun is_execute :: "engine_call \<Rightarrow> bool" where
  "is_execute (ECExecuteBlock b) = True" | "is_execute x = False"

fun is_handshake :: "engine_call \<Rightarrow> bool" where
  "is_handshake (ECHandshake req) = True" | "is_handshake x = False"

fun reaches :: "engine_call \<Rightarrow> pc \<Rightarrow> bool" where
  "reaches x Start = True" | "reaches x (Finished r) = True" | "reaches x (Hung r) = True"
| "reaches x InApp = simple x"
| "reaches x HsRefused = is_handshake x" | "reaches x HsApp = is_handshake x"
| "reaches x (HsFailing resp e) = is_handshake x" | "reaches x (HsCaps resp) = is_handshake x"
| "reaches x (HsCompleting resp) = is_handshake x"
| "reaches x (Unlocking r) = (is_execute x \<or> x = ECCommit)"
| "reaches x CoLocked = (x = ECCommit)" | "reaches x (CoRefused st) = (x = ECCommit)" | "reaches x CoAcquired = (x = ECCommit)"
| "reaches x CoApp = (x = ECCommit)" | "reaches x (CoClear res err) = (x = ECCommit)"
| "reaches x (CoCompleting res err) = (x = ECCommit)"
| "reaches x p = is_execute x"

lemma leave_free [simp]: "\<not> holds (leave r)" "reaches x (leave r)"
  by (simp_all add: leave_def)

lemma is_execute_iff: "is_execute x \<longleftrightarrow> (\<exists>b. x = ECExecuteBlock b)" by (cases x) auto

lemma is_handshake_iff: "is_handshake x \<longleftrightarrow> (\<exists>req. x = ECHandshake req)" by (cases x) auto

lemma simple_not: "simple x \<Longrightarrow> \<not> is_execute x \<and> \<not> is_handshake x \<and> x \<noteq> ECCommit" by (cases x) auto

lemma begin_simple: "simple x \<Longrightarrow> begin_call x s = Some (if enters x s then (InApp, s) else (Finished (fst (serve x s)), s))"
  by (cases x) auto

lemmas shared = store_def set_seqMu_def call_def leave_def

lemma advance_reaches: "advance x p s = Some (p', s') \<Longrightarrow> reaches x p \<Longrightarrow> reaches x p'"
  by (cases p; cases x) (auto simp: shared split: prod.splits go.splits option.splits if_splits)

text \<open>What a call that takes no lock reads, and that it changes the application's state only.\<close>

definition view :: "'a Server \<Rightarrow> 'a Lifecycle \<times> 'a \<times> bool \<times> Capabilities \<times> 'a ProposalControl option \<times>
    'a VoteExtender option \<times> 'a StateSync option \<times> 'a Simulator option \<times> 'a MempoolObserver option" where
  "view s = (s_app s, s_state s, g_handshakeDone (s_guard s), s_caps s, s_proposalCtl s, s_voteExt s, s_stateSync s,
     s_simulator s, s_mempoolObs s)"

lemma serve_simple:
  assumes "simple x" and "view s2 = view s"
  shows "serve x s2 = (fst (serve x s), s2\<lparr>s_state := s_state (snd (serve x s))\<rparr>)"
  using assms
  by (cases x) (auto simp: view_def CheckTx_def Query_def BuildProposal_def VerifyProposal_def ExtendVote_def VerifyExtension_def
      AvailableSnapshots_def ExportSnapshot_def ImportSnapshot_def Simulate_def OnBatchCertified_def OnBlockConstructed_def
      with_guard_def call_def CheckConcurrent_def split: option.splits prod.splits)

lemma serve_simple_state:
  assumes "simple x"
  obtains a where "serve x s = (fst (serve x s), s\<lparr>s_state := a\<rparr>)"
  using serve_simple [OF assms refl, of s] by blast

lemma serve_not_entered:
  assumes "simple x" and "\<not> enters x s"
  shows "snd (serve x s) = s"
  using assms
  by (cases x) (auto simp: CheckTx_def Query_def BuildProposal_def VerifyProposal_def ExtendVote_def VerifyExtension_def
      AvailableSnapshots_def ExportSnapshot_def ImportSnapshot_def Simulate_def OnBatchCertified_def OnBlockConstructed_def
      with_guard_def CheckConcurrent_def split: option.splits)

lemma call_eq: "call m s = (fst (m (s_state s)), s\<lparr>s_state := snd (m (s_state s))\<rparr>)"
  by (simp add: call_def split_def)

section \<open>Mutual exclusion\<close>

fun guarded :: "engine_call \<Rightarrow> bool" where
  "guarded (ECCheckTx tx mctx) = True" | "guarded (ECQuery q) = True" | "guarded (ECSimulate tx) = True"
| "guarded (ECOnBatchCertified e) = True" | "guarded (ECOnBlockConstructed e) = True"
| "guarded x = False"

text \<open>What is known at a point, whatever the other goroutines do.\<close>

fun sound :: "engine_call \<Rightarrow> pc \<Rightarrow> 'a Server \<Rightarrow> bool" where
  "sound x (ExCompleting out) s = (s_lastOutcome s \<noteq> None)"
| "sound x CoAcquired s = (s_lastOutcome s \<noteq> None)"
| "sound x CoApp s = (s_lastOutcome s \<noteq> None \<and> g_state (s_guard s) \<noteq> stateExecuted)"
| "sound x (CoClear res err) s = (g_state (s_guard s) \<noteq> stateExecuted)"
| "sound x InApp s = (guarded x \<longrightarrow> g_handshakeDone (s_guard s))"
| "sound x p s = True"

lemma leave_sound [simp]: "sound x (leave r) s"
  by (simp add: leave_def)

abbreviation executed_held :: "'a Server \<Rightarrow> bool" where
  "executed_held s \<equiv> g_state (s_guard s) = stateExecuted \<longrightarrow> s_lastOutcome s \<noteq> None"

definition excl :: "'a config \<Rightarrow> bool" where
  "excl c \<longleftrightarrow>
     size {#t \<in># fst c. holds (snd t)#} \<le> (if g_seqMu (s_guard (snd c)) then 1 else 0) \<and>
     (\<forall>x p. (x, p) \<in># fst c \<longrightarrow> reaches x p \<and> sound x p (snd c)) \<and> executed_held (snd c)"

lemma enters_guarded: "enters x s \<Longrightarrow> guarded x \<Longrightarrow> g_handshakeDone (s_guard s)"
  by (cases x) auto

text \<open>A step of a goroutine without the lock, and of the one that has it.\<close>

lemma free_step:
  assumes "advance x p s = Some (p', s')" and "\<not> holds p" and "reaches x p"
  shows "s_lastOutcome s' = s_lastOutcome s"
    and "g_state (s_guard s') = stateExecuted \<Longrightarrow> g_state (s_guard s) = stateExecuted"
    and "g_seqMu (s_guard s') = (g_seqMu (s_guard s) \<or> holds p')" and "holds p' \<Longrightarrow> \<not> g_seqMu (s_guard s)"
    and "g_handshakeDone (s_guard s) \<Longrightarrow> g_handshakeDone (s_guard s')"
    and "sound x p' s'"
proof -
  have "s_lastOutcome s' = s_lastOutcome s \<and> (g_state (s_guard s') = stateExecuted \<longrightarrow> g_state (s_guard s) = stateExecuted) \<and>
      g_seqMu (s_guard s') = (g_seqMu (s_guard s) \<or> holds p') \<and> (holds p' \<longrightarrow> \<not> g_seqMu (s_guard s)) \<and>
      (g_handshakeDone (s_guard s) \<longrightarrow> g_handshakeDone (s_guard s')) \<and> sound x p' s'"
  proof (cases "simple x")
    case True
    obtain a where "serve x s = (fst (serve x s), s\<lparr>s_state := a\<rparr>)" by (rule serve_simple_state [OF True])
    then have a: "snd (serve x s) = s\<lparr>s_state := a\<rparr>" by (metis snd_conv)
    show ?thesis using assms True
      by (cases p) (auto simp: a begin_simple simple_not split_def split: if_splits intro: enters_guarded)
  next
    case False
    then show ?thesis using assms
      by (cases p; cases x) (auto simp: shared guard_states split: prod.splits go.splits option.splits if_splits)
  qed
  then show "s_lastOutcome s' = s_lastOutcome s"
    and "g_state (s_guard s') = stateExecuted \<Longrightarrow> g_state (s_guard s) = stateExecuted"
    and "g_seqMu (s_guard s') = (g_seqMu (s_guard s) \<or> holds p')" and "holds p' \<Longrightarrow> \<not> g_seqMu (s_guard s)"
    and "g_handshakeDone (s_guard s) \<Longrightarrow> g_handshakeDone (s_guard s')"
    and "sound x p' s'" by blast+
qed

lemma held_step:
  assumes "advance x p s = Some (p', s')" and "holds p" and "sound x p s" and "executed_held s" and "g_seqMu (s_guard s)"
  shows "sound x p' s' \<and> executed_held s' \<and> (holds p' \<longrightarrow> g_seqMu (s_guard s')) \<and>
    g_handshakeDone (s_guard s') = g_handshakeDone (s_guard s)"
  using assms by (cases p) (auto simp: shared guard_states split: prod.splits go.splits option.splits if_splits engine_call.splits)

lemma excl_move:
  assumes "advance x p s = Some (p', s')" and "excl (add_mset (x, p) M, s)"
  shows "excl (add_mset (x, p') M, s')"
proof (cases "holds p")
  case True
  have mu: "g_seqMu (s_guard s)" and none: "{#t \<in># M. holds (snd t)#} = {#}"
    using assms(2) True by (auto simp: excl_def split: if_splits)
  have free: "\<not> holds q" if "(y, q) \<in># M" for y q
  proof
    assume "holds q"
    then have "(y, q) \<in># {#t \<in># M. holds (snd t)#}" using that by simp
    then show False by (simp add: none)
  qed
  have "sound x p s" "executed_held s" "reaches x p" using assms(2) by (auto simp: excl_def)
  note h = held_step [OF assms(1) True this(1,2) mu] advance_reaches [OF assms(1) this(3)]
  have old: "sound y q s" if "(y, q) \<in># M" for y q using that assms(2) by (auto simp: excl_def)
  have "sound y q s'" if "(y, q) \<in># M" for y q
    using old [OF that] free [OF that] h(1) by (cases q) auto
  then have all: "\<forall>y q. (y, q) \<in># add_mset (x, p') M \<longrightarrow> reaches y q \<and> sound y q s'"
    using h assms(2) by (auto simp: excl_def)
  have "size {#t \<in># add_mset (x, p') M. holds (snd t)#} \<le> (if g_seqMu (s_guard s') then 1 else 0)"
    using h(1) by (simp add: none)
  then show ?thesis using all h(1) unfolding excl_def by simp
next
  case False
  have r: "reaches x p" using assms(2) by (auto simp: excl_def)
  note f = free_step [OF assms(1) False r]
  have old: "sound y q s" if "(y, q) \<in># M" for y q using that assms(2) by (auto simp: excl_def)
  have "sound y q s'" if "(y, q) \<in># M" for y q
    using old [OF that] f(1,2,5) by (cases q) auto
  moreover have "executed_held s'" using assms(2) f(1,2) by (auto simp: excl_def)
  moreover have "size {#t \<in># add_mset (x, p') M. holds (snd t)#} \<le> (if g_seqMu (s_guard s') then 1 else 0)"
    using assms(2) False f(3,4) by (auto simp: excl_def split: if_splits)
  ultimately show ?thesis using f(6) assms(2) advance_reaches [OF assms(1) r] by (auto simp: excl_def)
qed

lemma excl_step: "step c d \<Longrightarrow> excl c \<Longrightarrow> excl d"
proof (induction rule: step.induct)
  case (move x p s p' s' M)
  then show ?case by (rule excl_move)
qed (auto simp: excl_def)

lemma excl_steps: "steps c d \<Longrightarrow> excl c \<Longrightarrow> excl d"
  by (induction rule: steps.induct) (auto intro: excl_step)

lemma excl_New: "excl ({#}, New app a)"
  by (simp add: excl_def New_def NewLifecycleGuard_def guard_states)

section \<open>Every schedule ends\<close>

fun rank :: "pc \<Rightarrow> nat" where
  "rank Start = 9" | "rank HsRefused = 1" | "rank HsApp = 3" | "rank (HsFailing resp e) = 1" | "rank (HsCaps resp) = 2"
| "rank (HsCompleting resp) = 1" | "rank ExLocked = 8" | "rank (ExRefused st) = 1" | "rank ExAcquired = 7" | "rank ExApp = 6"
| "rank (ExHold out) = 4" | "rank (ExCompleting out) = 3" | "rank (ExFailing out e) = 3" | "rank CoLocked = 8"
| "rank (CoRefused st) = 1" | "rank CoAcquired = 7" | "rank CoApp = 6" | "rank (CoClear res err) = 4"
| "rank (CoCompleting res err) = 3" | "rank (Unlocking r) = 2" | "rank InApp = 1" | "rank (Finished r) = 0" | "rank (Hung r) = 0"

lemma leave_rank [simp]: "rank (leave r) = 0"
  by (simp add: leave_def)

definition work :: "goroutine multiset \<Rightarrow> nat" where
  "work M = sum_mset (image_mset (\<lambda>t. rank (snd t)) M)"

inductive moves :: "'a config \<Rightarrow> 'a config \<Rightarrow> bool" where
  "advance x p s = Some (p', s') \<Longrightarrow> moves (add_mset (x, p) M, s) (add_mset (x, p') M, s')"

lemma moves_step: "moves c d \<Longrightarrow> step c d"
  by (induction rule: moves.induct) (rule step.move)

lemma begin_rank: "begin_call x s = Some (p', s') \<Longrightarrow> rank p' < 9"
  by (cases x) (auto split: if_splits)

lemma advance_rank: "advance x p s = Some (p', s') \<Longrightarrow> rank p' < rank p"
  using begin_rank [of x s p' s']
  by (cases p) (auto simp: call_def split: prod.splits go.splits option.splits if_splits engine_call.splits)

lemma moves_work: "moves c d \<Longrightarrow> work (fst d) < work (fst c)"
  by (induction rule: moves.induct) (simp add: work_def advance_rank)

lemma moves_bound: "(moves ^^ n) c d \<Longrightarrow> n + work (fst d) \<le> work (fst c)"
  by (induction n arbitrary: d) (auto dest!: moves_work simp: relpowp.simps(2) relcompp_apply, fastforce)

text \<open>The lock is never left behind if the application returns from the calls made under it.\<close>

definition sequential_return :: "'a Lifecycle \<Rightarrow> bool" where
  "sequential_return app \<longleftrightarrow> (\<forall>b a. returns (fst (m_ExecuteBlock app b a))) \<and> (\<forall>a. returns (fst (m_Commit app a)))"

lemma advance_app: "advance x p s = Some (p', s') \<Longrightarrow> reaches x p \<Longrightarrow> s_app s' = s_app s"
proof (cases "simple x")
  case True
  obtain a where "serve x s = (fst (serve x s), s\<lparr>s_state := a\<rparr>)" by (rule serve_simple_state [OF True])
  then have a: "snd (serve x s) = s\<lparr>s_state := a\<rparr>" by (metis snd_conv)
  assume "advance x p s = Some (p', s')" "reaches x p"
  then show ?thesis using True by (cases p) (auto simp: a begin_simple simple_not split_def split: if_splits)
next
  case False
  assume "advance x p s = Some (p', s')" "reaches x p"
  then show ?thesis using False
    by (cases p; cases x) (auto simp: shared split: prod.splits go.splits option.splits if_splits)
qed

lemma held_release:
  assumes "advance x p s = Some (p', s')" and "holds p" and "\<not> holds p'" and "sequential_return (s_app s)"
  shows "\<not> g_seqMu (s_guard s')"
proof -
  have "returns (fst (call (m_ExecuteBlock (s_app s) b) s))" "returns (fst (call (m_Commit (s_app s)) s))" for b
    using assms(4) by (simp_all add: sequential_return_def call_eq)
  then have r: "call (m_ExecuteBlock (s_app s) b) s \<noteq> (Panic m, t)" "call (m_ExecuteBlock (s_app s) b) s \<noteq> (Blocked, t)"
    "call (m_Commit (s_app s)) s \<noteq> (Panic m, t)" "call (m_Commit (s_app s)) s \<noteq> (Blocked, t)" for b m t
    by (metis fst_conv returns.simps(2,3))+
  show ?thesis using assms(1-3)
    by (cases p) (auto simp: r store_def set_seqMu_def split: prod.splits go.splits option.splits if_splits engine_call.splits)
qed

definition owner :: "goroutine multiset \<Rightarrow> bool" where
  "owner M \<longleftrightarrow> (\<exists>x p. (x, p) \<in># M \<and> holds p)"

lemma owner_step:
  assumes "step c d" and "excl c" and "sequential_return (s_app (snd c))"
    and "g_seqMu (s_guard (snd c)) \<longrightarrow> owner (fst c)"
  shows "s_app (snd d) = s_app (snd c) \<and> (g_seqMu (s_guard (snd d)) \<longrightarrow> owner (fst d))"
  using assms
proof (induction rule: step.induct)
  case (move x p s p' s' M)
  have r: "reaches x p" using move by (auto simp: excl_def)
  show ?case
  proof (cases "holds p")
    case True
    then show ?thesis using held_release [OF move(1) True] advance_app [OF move(1) r] move(3) by (auto simp: owner_def)
  next
    case False
    then show ?thesis using free_step(3) [OF move(1) False r] advance_app [OF move(1) r] move(4) by (auto simp: owner_def)
  qed
qed (auto simp: owner_def)

lemma owner_steps:
  assumes "steps c d" and "excl c" and "sequential_return (s_app (snd c))" and "g_seqMu (s_guard (snd c)) \<longrightarrow> owner (fst c)"
  shows "excl d \<and> s_app (snd d) = s_app (snd c) \<and> (g_seqMu (s_guard (snd d)) \<longrightarrow> owner (fst d))"
  using assms
proof (induction rule: steps.induct)
  case (one c d e)
  then show ?case using owner_step [OF one(2)] excl_step [OF one(2)] by auto
qed auto

lemma can_advance:
  assumes "reaches x p" and "holds p \<longleftrightarrow> g_seqMu (s_guard s)" and "\<And>r. p \<noteq> Finished r" and "\<And>r. p \<noteq> Hung r"
  shows "\<exists>p' s'. advance x p s = Some (p', s')"
proof (cases "simple x")
  case True
  then show ?thesis using assms by (cases p) (auto simp: begin_simple simple_not split_def)
next
  case False
  then show ?thesis using assms by (cases p; cases x) (auto simp: split_def)
qed

lemma moves_advance: "(x, p) \<in># M \<Longrightarrow> advance x p s = Some (p', s') \<Longrightarrow> \<exists>d. moves (M, s) d"
  by (metis insert_DiffM moves.intros)

definition all_finished :: "goroutine multiset \<Rightarrow> bool" where
  "all_finished M \<longleftrightarrow> (\<forall>x p. (x, p) \<in># M \<longrightarrow> (\<exists>r. p = Finished r))"

lemma progress:
  assumes "excl (M, s)" and "g_seqMu (s_guard s) \<longrightarrow> owner M" and "\<nexists>d. moves (M, s) d" and "\<And>x r. (x, Hung r) \<notin># M"
  shows "all_finished M" and "\<not> g_seqMu (s_guard s)"
proof -
  have r: "reaches x p" if "(x, p) \<in># M" for x p using that assms(1) by (auto simp: excl_def)
  show mu: "\<not> g_seqMu (s_guard s)"
  proof
    assume mu: "g_seqMu (s_guard s)"
    then obtain x p where x: "(x, p) \<in># M" "holds p" using assms(2) by (auto simp: owner_def)
    then obtain p' s' where "advance x p s = Some (p', s')" using can_advance [OF r [OF x(1)], of s] mu by fastforce
    then show False using moves_advance [OF x(1)] assms(3) by blast
  qed
  have free: "\<not> holds p" if "(x, p) \<in># M" for x p
  proof -
    have "(x, p) \<notin># {#t \<in># M. holds (snd t)#}" using assms(1) mu by (simp add: excl_def)
    then show ?thesis using that by simp
  qed
  show "all_finished M" unfolding all_finished_def
  proof (intro allI impI, rule ccontr)
    fix x p assume p: "(x, p) \<in># M" "\<nexists>r. p = Finished r"
    then have "\<exists>p' s'. advance x p s = Some (p', s')"
      using can_advance [OF r [OF p(1)], of s] free [OF p(1)] mu assms(4) by blast
    then show False using moves_advance [OF p(1)] assms(3) by blast
  qed
qed

text \<open>No goroutine hangs in an application all of whose methods end.\<close>

definition never_hangs :: "'a Lifecycle \<Rightarrow> bool" where
  "never_hangs app \<longleftrightarrow> (\<forall>x a. \<not> hung (fst (handle app x a)))"

definition own_interfaces :: "'a Server \<Rightarrow> bool" where
  "own_interfaces s \<longleftrightarrow> s_proposalCtl s = as_ProposalControl (s_app s) \<and> s_voteExt s = as_VoteExtender (s_app s) \<and>
     s_stateSync s = as_StateSync (s_app s) \<and> s_simulator s = as_Simulator (s_app s) \<and>
     s_mempoolObs s = as_MempoolObserver (s_app s)"

lemma serve_handle:
  assumes "simple x" and "enters x s" and "own_interfaces s"
  shows "serve x s = (fst (handle (s_app s) x (s_state s)), s\<lparr>s_state := snd (handle (s_app s) x (s_state s))\<rparr>)"
  using assms
  by (cases x) (auto simp: own_interfaces_def CheckTx_def Query_def BuildProposal_def VerifyProposal_def ExtendVote_def
      VerifyExtension_def AvailableSnapshots_def ExportSnapshot_def ImportSnapshot_def Simulate_def OnBatchCertified_def
      OnBlockConstructed_def with_guard_def CheckConcurrent_def optional_def call_eq apfst_def map_prod_def split: prod.splits)

lemma refused_ends:
  assumes "simple x" and "\<not> enters x s"
  shows "\<not> hung (fst (serve x s))"
  using assms
  by (cases x) (auto simp: CheckTx_def Query_def BuildProposal_def VerifyProposal_def ExtendVote_def VerifyExtension_def
      AvailableSnapshots_def ExportSnapshot_def ImportSnapshot_def Simulate_def OnBatchCertified_def OnBlockConstructed_def
      with_guard_def CheckConcurrent_def split: option.splits)

lemma own_advance:
  assumes "advance x p s = Some (p', s')" and "reaches x p" and "own_interfaces s"
  shows "own_interfaces s'"
proof (cases "simple x")
  case True
  obtain a where "serve x s = (fst (serve x s), s\<lparr>s_state := a\<rparr>)" by (rule serve_simple_state [OF True])
  then have a: "snd (serve x s) = s\<lparr>s_state := a\<rparr>" by (metis snd_conv)
  show ?thesis using True assms
    by (cases p) (auto simp: a own_interfaces_def begin_simple simple_not split_def split: if_splits)
next
  case False
  then show ?thesis using assms
    by (cases p; cases x) (auto simp: own_interfaces_def shared split: prod.splits go.splits option.splits if_splits)
qed

fun ends :: "pc \<Rightarrow> bool" where
  "ends (Hung r) = False" | "ends p = True"

lemma never_hangs_calls:
  assumes "never_hangs app"
  shows "fst (m_Handshake app req a) \<noteq> Blocked" "fst (m_ExecuteBlock app b a) \<noteq> Blocked" "fst (m_Commit app a) \<noteq> Blocked"
  using assms [unfolded never_hangs_def, THEN spec, of "ECHandshake req", THEN spec, of a]
    assms [unfolded never_hangs_def, THEN spec, of "ECExecuteBlock b", THEN spec, of a]
    assms [unfolded never_hangs_def, THEN spec, of ECCommit, THEN spec, of a] by simp_all

lemma ends_advance:
  assumes "advance x p s = Some (p', s')" and "reaches x p" and "own_interfaces s" and "never_hangs (s_app s)"
  shows "ends p'"
proof (cases "simple x")
  case True
  have "\<not> hung (fst (serve x s))"
    using serve_handle [OF True _ assms(3)] refused_ends [OF True] assms(4) by (cases "enters x s") (auto simp: never_hangs_def)
  then show ?thesis using True assms(1,2) by (cases p) (auto simp: leave_def begin_simple simple_not split_def split: if_splits)
next
  case False
  note b = never_hangs_calls [OF assms(4)]
  have "m_Handshake (s_app s) req a \<noteq> (Blocked, t)" "m_ExecuteBlock (s_app s) blk a \<noteq> (Blocked, t)"
    "m_Commit (s_app s) a \<noteq> (Blocked, t)" for req blk a t
    using b(1) [of req a] b(2) [of blk a] b(3) [of a] by auto
  then show ?thesis using False assms(1,2)
    by (cases p; cases x) (auto simp: call_def split: prod.splits go.splits option.splits if_splits)
qed

definition none_hung :: "'a Lifecycle \<Rightarrow> 'a config \<Rightarrow> bool" where
  "none_hung app c \<longleftrightarrow> s_app (snd c) = app \<and> own_interfaces (snd c) \<and>
     (\<forall>x p. (x, p) \<in># fst c \<longrightarrow> reaches x p \<and> (never_hangs app \<longrightarrow> ends p))"

lemma none_hung_step: "step c d \<Longrightarrow> none_hung app c \<Longrightarrow> none_hung app d"
proof (induction rule: step.induct)
  case (move x p s p' s' M)
  then have r: "reaches x p" "own_interfaces s" "s_app s = app" by (auto simp: none_hung_def)
  show ?case using move(2) advance_app [OF move(1) r(1)] own_advance [OF move(1) r(1,2)] advance_reaches [OF move(1) r(1)]
      ends_advance [OF move(1) r(1,2)] r(3) by (auto simp: none_hung_def)
qed (auto simp: none_hung_def)

lemma none_hung_steps: "steps c d \<Longrightarrow> none_hung app c \<Longrightarrow> none_hung app d"
  by (induction rule: steps.induct) (auto intro: none_hung_step)

lemma none_hung_New: "none_hung app ({#}, New app a)"
  by (simp add: none_hung_def own_interfaces_def New_def)

section \<open>Reaching a configuration\<close>

lemma steps_spawn: "steps c (M, s) \<Longrightarrow> steps c (add_mset (x, Start) M, s)"
  by (rule steps.one [OF _ step.spawn])

lemma steps_move: "steps c (add_mset (x, p) M, s) \<Longrightarrow> advance x p s = Some (p', s') \<Longrightarrow> steps c (add_mset (x, p') M, s')"
  by (rule steps.one [OF _ step.move])

text \<open>A goroutine that runs alone for some steps.\<close>

fun solo :: "nat \<Rightarrow> engine_call \<Rightarrow> pc \<Rightarrow> 'a Server \<Rightarrow> (pc \<times> 'a Server) option" where
  "solo 0 x p s = Some (p, s)"
| "solo (Suc n) x p s = Option.bind (advance x p s) (\<lambda>(p, s). solo n x p s)"

lemma steps_solo:
  "steps c (add_mset (x, p) M, s) \<Longrightarrow> solo n x p s = Some (p', s') \<Longrightarrow> steps c (add_mset (x, p') M, s')"
proof (induction n arbitrary: p s)
  case (Suc n)
  obtain p1 s1 where a: "advance x p s = Some (p1, s1)" "solo n x p1 s1 = Some (p', s')"
    using Suc.prems(2) by (auto simp: bind_eq_Some_conv)
  then show ?case using Suc.IH [OF steps_move [OF Suc.prems(1) a(1)]] by blast
qed simp

lemma overlap_reachable:
  "\<exists>s. steps ({#}, New app a) ({#(ECExecuteBlock b, ExApp), (ECHandshake req, HsApp)#}, s) \<and>
     s = (New app a)\<lparr>s_guard := \<lparr>g_state = stateExecuting, g_seqMu = True, g_handshakeDone = False\<rparr>\<rparr>"
proof -
  let ?s = "\<lambda>st mu. (New app a)\<lparr>s_guard := \<lparr>g_state = st, g_seqMu = mu, g_handshakeDone = False\<rparr>\<rparr>"
  have "steps ({#}, New app a) ({#(ECHandshake req, Start)#}, New app a)" by (rule steps_spawn [OF steps.none])
  then have "steps ({#}, New app a) ({#(ECHandshake req, HsApp)#}, ?s stateReady False)"
    by (rule steps_move) (simp add: New_def NewLifecycleGuard_def store_def)
  then have "steps ({#}, New app a) ({#(ECExecuteBlock b, Start), (ECHandshake req, HsApp)#}, ?s stateReady False)"
    by (rule steps_spawn)
  then have "steps ({#}, New app a) ({#(ECExecuteBlock b, ExApp), (ECHandshake req, HsApp)#}, ?s stateExecuting True)"
    by (rule steps_solo [where n = 3]) (simp add: eval_nat_numeral store_def set_seqMu_def)
  then show ?thesis by blast
qed

section \<open>Properties\<close>

text \<open>
  C6. Mutual exclusion, for any number of goroutines and any interleaving, handshakes and
  panics of the application included: at most one goroutine is inside the application's
  \<open>ExecuteBlock\<close> or \<open>Commit\<close>; a guarded concurrent call is inside the application only after
  a handshake has completed; and while a commit is under way the server holds the outcome of
  the block being committed.
\<close>

theorem mutual_exclusion:
  assumes "steps ({#}, New app a) (M, s)"
  shows "size {#t \<in># M. snd t = ExApp \<or> snd t = CoApp#} \<le> 1 \<and>
     (\<forall>x. (x, InApp) \<in># M \<longrightarrow> guarded x \<longrightarrow> g_handshakeDone (s_guard s)) \<and>
     (\<forall>x. (x, CoApp) \<in># M \<longrightarrow> LastOutcome s \<noteq> None)"
proof -
  have e: "excl (M, s)" by (rule excl_steps [OF assms excl_New])
  have "{#t \<in># M. snd t = ExApp \<or> snd t = CoApp#} \<subseteq># {#t \<in># M. holds (snd t)#}"
    by (rule filter_mset_mono_strong) auto
  from size_mset_mono [OF this]
  have "size {#t \<in># M. snd t = ExApp \<or> snd t = CoApp#} \<le> size {#t \<in># M. holds (snd t)#}" .
  also have "\<dots> \<le> (if g_seqMu (s_guard s) then 1 else 0)" using e unfolding excl_def fst_conv snd_conv by (rule conjunct1)
  finally have "size {#t \<in># M. snd t = ExApp \<or> snd t = CoApp#} \<le> 1" by (simp only: split: if_splits)
  moreover have "sound x p s" if "(x, p) \<in># M" for x p using that e by (auto simp: excl_def)
  ultimately show ?thesis by (fastforce simp: LastOutcome_def)
qed

theorem mutual_exclusion_witness:
  "size {#t \<in># {#(ECExecuteBlock block_1, ExApp), (ECHandshake \<lparr>hq_LastCommitted = None, hq_Genesis = None\<rparr>, HsApp)#}.
     snd t = ExApp \<or> snd t = CoApp#} \<le> 1"
  using overlap_reachable [of counter_lifecycle Counter_New block_1 "\<lparr>hq_LastCommitted = None, hq_Genesis = None\<rparr>"]
    mutual_exclusion [of counter_lifecycle Counter_New] by blast


lemma counter_sequential_return: "sequential_return counter_lifecycle"
  using Counter_txs_spec by (simp add: sequential_return_def counter_lifecycle_def Counter_ExecuteBlock_def Counter_Commit_def Let_def)

lemma counter_never_hangs: "never_hangs counter_lifecycle"
proof -
  have "\<not> hung (fst (handle counter_lifecycle x a))" for x a
    using Counter_txs_spec
    by (cases x) (auto simp: counter_lifecycle_def optional_def Counter_Handshake_def Counter_CheckTx_def Counter_ExecuteBlock_def
        Counter_Commit_def Counter_Query_def Let_def apfst_def map_prod_def split: option.splits prod.splits if_splits)
  then show ?thesis by (simp add: never_hangs_def)
qed


text \<open>
  C23. What the guard lets through while a handshake is running: if a block can be executed and
  committed, and the handshake then fails, a schedule exists in which \<open>ExecuteBlock\<close> and
  \<open>Commit\<close> return success although no handshake ever completed; at the end the server is back
  in its initial state, with the block committed behind its back.
\<close>

theorem commit_without_handshake:
  assumes "m_ExecuteBlock app b a = (Ret (out, None), a1)" and "m_Commit app a1 = (Ret (res, None), a2)"
    and "m_Handshake app req a2 = (Ret (resp, Some e), a3)"
  shows "\<exists>s. steps ({#}, New app a) ({#(ECHandshake req, Finished (RHandshake (Ret (resp, Some e)))),
       (ECCommit, Finished (RCommit (Ret (res, None)))), (ECExecuteBlock b, Finished (RExecuteBlock (Ret (out, None))))#}, s) \<and>
     s_guard s = NewLifecycleGuard \<and> LastOutcome s = None \<and> s_state s = a3"
proof -
  let ?s = "\<lambda>a st mu out. (New app a)\<lparr>s_guard := \<lparr>g_state = st, g_seqMu = mu, g_handshakeDone = False\<rparr>,
    s_lastOutcome := out, s_lastExecHeight := fb_Height b\<rparr>"
  let ?hs = "(ECHandshake req, HsApp)" and ?ex = "(ECExecuteBlock b, Finished (RExecuteBlock (Ret (out, None))))"
    and ?co = "(ECCommit, Finished (RCommit (Ret (res, None))))"
  have "steps ({#}, New app a) ({#?ex, ?hs#}, ?s a1 stateExecuted False (Some out))"
    using overlap_reachable [of app a b req]
    by (elim exE conjE, elim steps_solo [where n = 4])
      (simp add: eval_nat_numeral call_def assms(1) store_def set_seqMu_def New_def)
  then have "steps ({#}, New app a) ({#(ECCommit, Start), ?ex, ?hs#}, ?s a1 stateExecuted False (Some out))"
    by (rule steps_spawn)
  then have "steps ({#}, New app a) ({#?co, ?ex, ?hs#}, ?s a2 stateReady False None)"
    by (rule steps_solo [where n = 7]) (simp add: eval_nat_numeral call_def assms(2) store_def set_seqMu_def New_def)
  then have "steps ({#}, New app a) ({#?hs, ?co, ?ex#}, ?s a2 stateReady False None)"
    by (simp add: add_mset_commute)
  then have "steps ({#}, New app a) ({#(ECHandshake req, Finished (RHandshake (Ret (resp, Some e)))), ?co, ?ex#},
      ?s a3 stateInit False None)"
    by (rule steps_solo [where n = 2]) (simp add: eval_nat_numeral call_def assms(3) store_def New_def)
  then show ?thesis by (intro exI conjI, assumption) (simp_all add: New_def NewLifecycleGuard_def LastOutcome_def)
qed

definition refusing_mock :: MockApp where
  "refusing_mock = zero_MockApp\<lparr>HandshakeFn := Some (\<lambda>req. Ret (zero_HandshakeResponse, Some (ErrorString ''wrong chain'')))\<rparr>"

theorem commit_without_handshake_witness:
  "\<exists>M s out. steps ({#}, New mock_lifecycle refusing_mock) (M, s) \<and>
     (ECExecuteBlock block_1, Finished (RExecuteBlock (Ret (out, None)))) \<in># M \<and>
     (ECCommit, Finished (RCommit (Ret (\<lparr>cr_RetainHeight = 0\<rparr>, None)))) \<in># M \<and>
     s_guard s = NewLifecycleGuard \<and> CommitCalls (s_state s) = 1"
proof -
  let ?a1 = "refusing_mock\<lparr>ExecuteBlockCalls := 1\<rparr>" and ?a2 = "refusing_mock\<lparr>ExecuteBlockCalls := 1, CommitCalls := 1\<rparr>"
  obtain out where "m_ExecuteBlock mock_lifecycle block_1 refusing_mock = (Ret (out, None), ?a1)"
    by (simp add: mock_defs Let_def refusing_mock_def zero_MockApp_def)
  moreover have "m_Commit mock_lifecycle ?a1 = (Ret (\<lparr>cr_RetainHeight = 0\<rparr>, None), ?a2)"
    by (simp add: mock_defs Let_def refusing_mock_def zero_MockApp_def)
  moreover have "m_Handshake mock_lifecycle \<lparr>hq_LastCommitted = None, hq_Genesis = None\<rparr> ?a2 =
      (Ret (zero_HandshakeResponse, Some (ErrorString ''wrong chain'')), ?a2\<lparr>HandshakeCalls := 1\<rparr>)"
    by (simp add: mock_defs Let_def refusing_mock_def zero_MockApp_def)
  ultimately show ?thesis using commit_without_handshake [of mock_lifecycle block_1 refusing_mock out ?a1] by fastforce
qed

end
