(* ===== verification/Linearise.thy ===== *)
theory Linearise
  imports Concurrency
begin

text \<open>
  Overlapping calls of a server (\<^verbatim>\<open>server/server.go\<close>) take effect one at a time: every
  interleaving of the steps of \<open>Concurrency\<close> is accounted for by a sequence of calls run from
  beginning to end. The proof is a simulation: a step of a goroutine is no step of the
  specification, or the one call that it decides.
\<close>

section \<open>Overlapping calls take effect one at a time\<close>

text \<open>
  From some point on the reply of a call is decided. The server as it will be when the owner
  of the lock is done, or as it was if it has not yet entered the application, is the state
  between two calls of the specification.
\<close>

fun decided :: "pc \<Rightarrow> reply option" where
  "decided (ExRefused st) = Some (RExecuteBlock (refused ''ExecuteBlock'' st ''Ready''))"
| "decided (ExHold out) = Some (RExecuteBlock (Ret (out, None)))"
| "decided (ExCompleting out) = Some (RExecuteBlock (Ret (out, None)))"
| "decided (ExFailing out e) = Some (RExecuteBlock (Ret (out, Some e)))"
| "decided (CoRefused st) = Some (RCommit (refused ''Commit'' st ''Executed''))"
| "decided (CoClear res err) = Some (RCommit (Ret (res, err)))"
| "decided (CoCompleting res err) = Some (RCommit (Ret (res, err)))"
| "decided (Unlocking r) = Some r"
| "decided (Finished r) = Some r"
| "decided (Hung r) = Some r"
| "decided p = None"

lemma decided_leave [simp]: "decided (leave r) = Some r"
  by (simp add: leave_def)

fun block_height :: "engine_call \<Rightarrow> u64" where
  "block_height (ECExecuteBlock b) = fb_Height b" | "block_height x = 0"

fun pending :: "engine_call \<Rightarrow> pc \<Rightarrow> 'a Server \<Rightarrow> 'a Server" where
  "pending x ExLocked s = set_seqMu False s"
| "pending x (ExRefused st) s = set_seqMu False s"
| "pending x ExAcquired s = set_seqMu False s"
| "pending x ExApp s = set_seqMu False (store stateReady s)"
| "pending x (ExHold out) s =
     set_seqMu False (store stateExecuted (s\<lparr>s_lastOutcome := Some out, s_lastExecHeight := block_height x\<rparr>))"
| "pending x (ExCompleting out) s = set_seqMu False (store stateExecuted s)"
| "pending x (ExFailing out e) s = set_seqMu False (store stateReady s)"
| "pending x CoLocked s = set_seqMu False s"
| "pending x (CoRefused st) s = set_seqMu False s"
| "pending x CoAcquired s = set_seqMu False s"
| "pending x CoApp s = set_seqMu False (store stateExecuted s)"
| "pending x (CoClear res err) s = set_seqMu False (store stateReady (s\<lparr>s_lastOutcome := None\<rparr>))"
| "pending x (CoCompleting res err) s = set_seqMu False (store stateReady s)"
| "pending x (Unlocking r) s = set_seqMu False s"
| "pending x p s = s"

fun at_point :: "pc \<Rightarrow> lifecycleState \<Rightarrow> bool" where
  "at_point ExAcquired st = (st = stateReady)"
| "at_point ExApp st = (st = stateExecuting)"
| "at_point CoAcquired st = (st = stateExecuted)"
| "at_point CoApp st = (st = stateCommitting)"
| "at_point p st = True"

lemma pending_free: "\<not> holds p \<Longrightarrow> pending x p s = s"
  by (cases p) auto

lemma pending_view: "view (pending x p s) = view s"
  by (cases p) (simp_all add: view_def shared)

lemma pending_state: "pending x p (s\<lparr>s_state := a\<rparr>) = (pending x p s)\<lparr>s_state := a\<rparr>"
  by (cases p) (simp_all add: shared)

definition agrees :: "engine_call \<Rightarrow> reply option \<Rightarrow> 'a Server \<Rightarrow> reply option \<Rightarrow> 'a Server \<Rightarrow> bool" where
  "agrees x d \<sigma> d' \<sigma>' \<longleftrightarrow> (d' = d \<and> \<sigma>' = \<sigma>) \<or> (d = None \<and> (\<exists>r. d' = Some r \<and> serve x \<sigma> = (r, \<sigma>')))"

lemmas sequential_defs = ExecuteBlock_def Commit_def with_guard_def guard_ops refused_def

lemma held_agrees:
  assumes "advance x p s = Some (p', s')" and "holds p" and "reaches x p"
    and "at_point p (g_state (s_guard s))" and "g_seqMu (s_guard s)"
  shows "agrees x (decided p) (pending x p s) (decided p') (pending x p' s')"
    and "holds p' \<Longrightarrow> at_point p' (g_state (s_guard s')) \<and> g_seqMu (s_guard s')"
proof -
  show "agrees x (decided p) (pending x p s) (decided p') (pending x p' s')"
    using assms by (cases s; cases "s_guard s"; cases p)
      (auto simp: agrees_def is_execute_iff shared sequential_defs guard_states split: prod.splits go.splits option.splits if_splits)
  show "holds p' \<Longrightarrow> at_point p' (g_state (s_guard s')) \<and> g_seqMu (s_guard s')"
    using assms by (cases p) (auto simp: is_execute_iff shared guard_states split: prod.splits go.splits option.splits if_splits)
qed

lemma free_agrees:
  assumes "advance x p s = Some (p', s')" and "\<not> holds p" and "\<not> holds p'" and "reaches x p" and "\<not> is_handshake x"
  shows "agrees x (decided p) (pending y q s) (decided p') (pending y q s')"
proof (cases "simple x")
  case False
  then show ?thesis using assms
    by (cases p; cases x) (auto simp: agrees_def split: if_splits)
next
  case True
  let ?\<sigma> = "pending y q s"
  have served: "serve x ?\<sigma> = (fst (serve x s), ?\<sigma>\<lparr>s_state := s_state (snd (serve x s))\<rparr>)"
    by (rule serve_simple [OF True pending_view])
  obtain a where "serve x s = (fst (serve x s), s\<lparr>s_state := a\<rparr>)" by (rule serve_simple_state [OF True])
  then have a: "snd (serve x s) = s\<lparr>s_state := a\<rparr>" by (metis snd_conv)
  have same: "s_state ?\<sigma> = s_state s" using pending_view [of y q s] by (simp add: view_def)
  have stay: "?\<sigma>\<lparr>s_state := s_state s\<rparr> = ?\<sigma>" by (simp flip: same)
  show ?thesis
  proof (cases p)
    case Start
    then show ?thesis using assms(1) True served stay serve_not_entered [OF True, of s]
      by (auto simp: agrees_def begin_simple split: if_splits)
  next
    case InApp
    then have "p' = leave (fst (serve x s))" "s' = s\<lparr>s_state := a\<rparr>" using assms(1) a by (auto simp: split_def)
    then show ?thesis using InApp served a by (simp add: agrees_def pending_state)
  qed (use assms True in \<open>auto simp: simple_not\<close>)
qed

lemma free_locks:
  assumes "advance x p s = Some (p', s')" and "\<not> holds p" and "holds p'" and "reaches x p"
  shows "p = Start" and "\<not> g_seqMu (s_guard s)" and "g_seqMu (s_guard s')" and "pending x p' s' = s"
    and "at_point p' st" and "decided p' = None"
proof -
  have "p = Start \<and> \<not> g_seqMu (s_guard s) \<and> g_seqMu (s_guard s') \<and> pending x p' s' = s \<and> at_point p' st \<and> decided p' = None"
  proof (cases "simple x")
    case True
    then show ?thesis using assms by (cases p) (auto simp: begin_simple simple_not split_def split: if_splits)
  next
    case False
    then show ?thesis using assms
      by (cases p; cases x; cases s; cases "s_guard s")
        (auto simp: shared split: prod.splits go.splits option.splits if_splits)
  qed
  then show "p = Start" and "\<not> g_seqMu (s_guard s)" and "g_seqMu (s_guard s')" and "pending x p' s' = s"
    and "at_point p' st" and "decided p' = None" by blast+
qed

text \<open>The specification's state that a configuration stands for.\<close>

definition free :: "goroutine multiset \<Rightarrow> bool" where
  "free M \<longleftrightarrow> (\<forall>x p. (x, p) \<in># M \<longrightarrow> \<not> holds p)"

definition engine_only :: "goroutine multiset \<Rightarrow> bool" where
  "engine_only M \<longleftrightarrow> (\<forall>x p. (x, p) \<in># M \<longrightarrow> reaches x p \<and> \<not> is_handshake x)"

inductive tracks :: "'a config \<Rightarrow> 'a Server \<Rightarrow> bool" where
  idle: "free M \<Longrightarrow> engine_only M \<Longrightarrow> tracks (M, s) s"
| owned: "free M \<Longrightarrow> engine_only (add_mset (x, p) M) \<Longrightarrow> holds p \<Longrightarrow> at_point p (g_state (s_guard s)) \<Longrightarrow>
    g_seqMu (s_guard s) \<Longrightarrow> tracks (add_mset (x, p) M, s) (pending x p s)"

definition verdicts :: "goroutine multiset \<Rightarrow> (engine_call \<times> reply) multiset" where
  "verdicts M = image_mset (\<lambda>(x, p). (x, the (decided p))) {#t \<in># M. decided (snd t) \<noteq> None#}"

lemma verdicts_add [simp]:
  "verdicts (add_mset (x, p) M) = (case decided p of None \<Rightarrow> verdicts M | Some r \<Rightarrow> add_mset (x, r) (verdicts M))"
  by (simp add: verdicts_def split: option.splits)

text \<open>One step of the program is no step of the specification, or one call.\<close>

definition follows :: "'a Server \<Rightarrow> goroutine multiset \<Rightarrow> 'a Server \<Rightarrow> goroutine multiset \<Rightarrow> bool" where
  "follows \<sigma> M \<sigma>' M' \<longleftrightarrow> (\<sigma>' = \<sigma> \<and> verdicts M' = verdicts M) \<or>
     (\<exists>x r. serve x \<sigma> = (r, \<sigma>') \<and> verdicts M' = add_mset (x, r) (verdicts M))"

lemma agrees_follows:
  "agrees x (decided p) \<sigma> (decided p') \<sigma>' \<Longrightarrow> follows \<sigma> (add_mset (x, p) M) \<sigma>' (add_mset (x, p') M)"
  by (auto simp: agrees_def follows_def)

lemma engine_only_step:
  assumes "engine_only (add_mset (x, p) M)" and "advance x p s = Some (p', s')"
  shows "engine_only (add_mset (x, p') M)"
  using assms advance_reaches [OF assms(2)] by (auto simp: engine_only_def)

lemma free_guard:
  assumes "advance x p s = Some (p', s')" and "\<not> holds p" and "\<not> holds p'" and "reaches x p" and "\<not> is_handshake x"
  shows "s_guard s' = s_guard s"
proof (cases "simple x")
  case True
  obtain a where "serve x s = (fst (serve x s), s\<lparr>s_state := a\<rparr>)" by (rule serve_simple_state [OF True])
  then have a: "snd (serve x s) = s\<lparr>s_state := a\<rparr>" by (metis snd_conv)
  show ?thesis using assms True by (cases p) (auto simp: a begin_simple simple_not split_def split: if_splits)
next
  case False
  then show ?thesis using assms by (cases p; cases x) (auto split: if_splits)
qed

lemma tracks_move:
  assumes "tracks (add_mset (x, p) N, s) \<sigma>" and adv: "advance x p s = Some (p', s')"
  shows "\<exists>\<sigma>'. tracks (add_mset (x, p') N, s') \<sigma>' \<and> follows \<sigma> (add_mset (x, p) N) \<sigma>' (add_mset (x, p') N)"
  using assms(1)
proof (cases rule: tracks.cases)
  case idle
  then have p: "\<not> holds p" "reaches x p" "\<not> is_handshake x" and N: "free N" and \<sigma>: "\<sigma> = s"
    by (auto simp: free_def engine_only_def)
  note eo = engine_only_step [OF idle(3) adv]
  show ?thesis
  proof (cases "holds p'")
    case True
    note l = free_locks [OF adv p(1) True p(2)]
    have "tracks (add_mset (x, p') N, s') (pending x p' s')" by (rule owned [OF N eo True l(5,3)])
    then show ?thesis using l \<sigma> by (intro exI [of _ s]) (simp add: follows_def)
  next
    case False
    have "agrees x (decided p) s (decided p') s'" using free_agrees [OF adv p(1) False p(2,3), of x Start] by simp
    moreover have "tracks (add_mset (x, p') N, s') s'" by (rule tracks.idle) (use N False eo in \<open>auto simp: free_def\<close>)
    ultimately show ?thesis using \<sigma> agrees_follows by blast
  qed
next
  case (owned K y q)
  consider (same) "N = K" "x = y" "p = q" | (other) L where "N = add_mset (y, q) L" "K = add_mset (x, p) L"
    using owned(1) by (auto simp: add_eq_conv_ex)
  then show ?thesis
  proof cases
    case same
    have p: "reaches x p" using owned(4) same by (auto simp: engine_only_def)
    note a = held_agrees [OF adv owned(5) [folded same] p owned(6) [folded same] owned(7)]
    have eo: "engine_only (add_mset (x, p') N)" using engine_only_step [OF owned(4) [folded same] adv] same by simp
    have "tracks (add_mset (x, p') N, s') (pending x p' s')"
    proof (cases "holds p'")
      case True
      then show ?thesis using tracks.owned [OF owned(3) [folded same] eo True] a(2) by blast
    next
      case False
      then show ?thesis using tracks.idle [of "add_mset (x, p') N" s'] eo owned(3) same
        by (auto simp: free_def pending_free)
    qed
    then show ?thesis using agrees_follows [OF a(1)] owned(2) same by blast
  next
    case other
    have p: "\<not> holds p" "reaches x p" "\<not> is_handshake x" "free L"
      using owned(3,4) other by (auto simp: free_def engine_only_def)
    have p': "\<not> holds p'" using free_locks(2) [OF adv p(1) _ p(2)] owned(7) by blast
    have g: "s_guard s' = s_guard s" by (rule free_guard [OF adv p(1) p' p(2,3)])
    have "agrees x (decided p) (pending y q s) (decided p') (pending y q s')" by (rule free_agrees [OF adv p(1) p' p(2,3)])
    moreover have "tracks (add_mset (y, q) (add_mset (x, p') L), s') (pending y q s')"
    proof (rule tracks.owned)
      show "engine_only (add_mset (y, q) (add_mset (x, p') L))"
        using engine_only_step [of x p N s p' s'] adv owned(1,4) other by (simp add: add_mset_commute)
    qed (use p p' owned(5-7) g in \<open>auto simp: free_def\<close>)
    ultimately show ?thesis using other(1) owned(2) agrees_follows [of x p "pending y q s" p' "pending y q s'" N]
      by (auto simp: add_mset_commute)
  qed
qed

lemma tracks_step:
  assumes "step (M, s) (M', s')" and "tracks (M, s) \<sigma>" and "\<forall>x p. (x, p) \<in># M' \<longrightarrow> \<not> is_handshake x"
  shows "\<exists>\<sigma>'. tracks (M', s') \<sigma>' \<and> follows \<sigma> M \<sigma>' M'"
  using assms(1)
proof (cases rule: step.cases)
  case (move x p p' N)
  then show ?thesis using tracks_move [of x p N s \<sigma> p' s'] assms(2) by simp
next
  case (spawn x)
  have "tracks (add_mset (x, Start) M, s) \<sigma>" using assms(2)
  proof (cases rule: tracks.cases)
    case idle
    then show ?thesis using assms(3) spawn by (auto intro!: tracks.idle simp: free_def engine_only_def)
  next
    case (owned K y q)
    then have "tracks (add_mset (y, q) (add_mset (x, Start) K), s) \<sigma>"
      using assms(3) spawn by (auto intro!: tracks.owned simp: free_def engine_only_def)
    then show ?thesis using owned(1) by (simp add: add_mset_commute)
  qed
  then show ?thesis using spawn by (intro exI [of _ \<sigma>]) (simp add: follows_def)
qed

text \<open>The calls of a goroutine stay what they are, and there are never fewer.\<close>

lemma step_calls: "step c d \<Longrightarrow> image_mset fst (fst c) \<subseteq># image_mset fst (fst d)"
  by (induction rule: step.induct) auto

definition no_handshake :: "goroutine multiset \<Rightarrow> bool" where
  "no_handshake M \<longleftrightarrow> (\<forall>x p. (x, p) \<in># M \<longrightarrow> \<not> is_handshake x)"

lemma no_handshake_iff: "no_handshake M \<longleftrightarrow> (\<forall>x \<in># image_mset fst M. \<not> is_handshake x)"
  by (auto simp: no_handshake_def)

lemma no_handshake_step: "step c d \<Longrightarrow> no_handshake (fst d) \<Longrightarrow> no_handshake (fst c)"
  unfolding no_handshake_iff by (meson mset_subset_eqD step_calls)

fun serve_all :: "engine_call list \<Rightarrow> 'a Server \<Rightarrow> reply list \<times> 'a Server" where
  "serve_all [] s = ([], s)"
| "serve_all (x # xs) s =
     (case serve x s of (r, s') \<Rightarrow> (case serve_all xs s' of (rs, s'') \<Rightarrow> (r # rs, s'')))"

lemma serve_all_snoc:
  assumes "serve_all xs s = (rs, \<sigma>)" and "serve x \<sigma> = (r, \<sigma>')"
  shows "serve_all (xs @ [x]) s = (rs @ [r], \<sigma>')"
  using assms by (induction xs arbitrary: s rs) (auto split: prod.splits)

text \<open>A history: calls with their replies, as the specification gives them.\<close>

definition history :: "'a Server \<Rightarrow> (engine_call \<times> reply) list \<Rightarrow> 'a Server \<Rightarrow> bool" where
  "history s0 h \<sigma> \<longleftrightarrow> serve_all (map fst h) s0 = (map snd h, \<sigma>)"

lemma history_step:
  assumes "history s0 h \<sigma>" and "mset h = verdicts M" and "follows \<sigma> M \<sigma>' M'"
  shows "\<exists>h'. history s0 (h @ h') \<sigma>' \<and> mset (h @ h') = verdicts M'"
proof -
  consider "\<sigma>' = \<sigma>" "verdicts M' = verdicts M" | x r where "serve x \<sigma> = (r, \<sigma>')" "verdicts M' = add_mset (x, r) (verdicts M)"
    using assms(3) by (auto simp: follows_def)
  then show ?thesis
  proof cases
    case 1
    then show ?thesis using assms by (intro exI [of _ "[]"]) simp
  next
    case 2
    then show ?thesis using assms(1,2) serve_all_snoc [of "map fst h" s0 "map snd h" \<sigma> x]
      by (intro exI [of _ "[(x, r)]"]) (simp add: history_def)
  qed
qed

lemma history_steps:
  assumes "steps c d" and "tracks c \<sigma>" and "history s0 h \<sigma>" and "mset h = verdicts (fst c)" and "no_handshake (fst d)"
  shows "\<exists>h' \<sigma>'. tracks d \<sigma>' \<and> history s0 (h @ h') \<sigma>' \<and> mset (h @ h') = verdicts (fst d)"
  using assms
proof (induction rule: steps.induct)
  case (none c)
  then show ?case by (intro exI [of _ "[]"]) auto
next
  case (one c d e)
  obtain h1 \<sigma>1 where 1: "tracks d \<sigma>1" "history s0 (h @ h1) \<sigma>1" "mset (h @ h1) = verdicts (fst d)"
    using one.IH one.prems no_handshake_step [OF one.hyps(2)] by blast
  obtain \<sigma>2 where 2: "tracks e \<sigma>2" "follows \<sigma>1 (fst d) \<sigma>2 (fst e)"
    using tracks_step [of "fst d" "snd d" "fst e" "snd e"] one.hyps(2) 1(1) one.prems(4)
    unfolding no_handshake_def prod.collapse by blast
  then show ?case using history_step [OF 1(2,3) 2(2)] by (metis append.assoc)
qed

lemma tracks_finished: "tracks (M, s) \<sigma> \<Longrightarrow> all_finished M \<Longrightarrow> \<sigma> = s"
  by (erule tracks.cases) (force simp: all_finished_def)+

section \<open>Property\<close>

text \<open>
  C5. Overlapping calls behave like calls made one after the other. However many goroutines
  call the server, whenever they start and however their steps interleave (handshakes
  apart), there is an order of the calls whose outcome is decided in which the methods of
  the server, run one at a time from beginning to end, give exactly the same replies and,
  once all calls have returned, exactly the same server. The order is only ever extended at
  its end, so a call that returned before another one started comes before it. The
  properties of sessions of sequential calls so carry over to concurrent ones.
\<close>

theorem calls_linearise:
  assumes "steps ({#}, s0) (M, s)" and "steps (M, s) (M', s')" and "no_handshake M'"
  shows "\<exists>h h'. mset h = verdicts M \<and> mset (h @ h') = verdicts M' \<and>
     fst (serve_all (map fst (h @ h')) s0) = map snd (h @ h') \<and>
     (all_finished M \<longrightarrow> snd (serve_all (map fst h) s0) = s) \<and>
     (all_finished M' \<longrightarrow> snd (serve_all (map fst (h @ h')) s0) = s')"
proof -
  have "tracks ({#}, s0) s0" by (rule idle) (simp_all add: free_def engine_only_def)
  moreover have "history s0 [] s0" "mset [] = verdicts {#}" by (simp_all add: history_def verdicts_def)
  moreover have "no_handshake M" using assms(2,3) by (induction "(M, s)" "(M', s')" arbitrary: M' s' rule: steps.induct) (auto dest: no_handshake_step)
  ultimately obtain h \<sigma> where h: "tracks (M, s) \<sigma>" "history s0 h \<sigma>" "mset h = verdicts M"
    using history_steps [OF assms(1), of s0 s0 "[]"] by auto
  obtain h' \<sigma>' where h': "tracks (M', s') \<sigma>'" "history s0 (h @ h') \<sigma>'" "mset (h @ h') = verdicts M'"
    using history_steps [OF assms(2) h(1,2)] h(3) assms(3) by auto
  show ?thesis using h h' tracks_finished [OF h(1)] tracks_finished [OF h'(1)]
    by (intro exI [of _ h] exI [of _ h']) (simp add: history_def)
qed

theorem calls_linearise_witness:
  "\<exists>h h'. mset h = verdicts {#} \<and> mset (h @ h') = verdicts {#(ECCommit, CoLocked), (ECExecuteBlock block_1, Start)#} \<and>
     fst (serve_all (map fst (h @ h')) (New counter_lifecycle Counter_New)) = map snd (h @ h')"
proof -
  let ?s = "New counter_lifecycle Counter_New"
  have "steps ({#}, ?s) ({#(ECCommit, Start), (ECExecuteBlock block_1, Start)#}, ?s)"
    by (intro steps_spawn steps.none)
  then have "steps ({#}, ?s) ({#(ECCommit, CoLocked), (ECExecuteBlock block_1, Start)#}, set_seqMu True ?s)"
    by (rule steps_move) (simp add: New_def NewLifecycleGuard_def)
  from calls_linearise [OF steps.none this] show ?thesis by (auto simp: no_handshake_def)
qed

end
