(* ===== verification/App_Refinement.thy ===== *)
theory App_Refinement
  imports Linearise
begin

text \<open>
  Two applications behind the interfaces of \<^verbatim>\<open>bapi.go\<close>, one of which implements the other: a
  relation between their states that every method keeps, with equal results. A server cannot
  tell them apart, in any sequence of calls. The locale \<open>app_refinement\<close> is the interface
  between a detailed model of an application and an abstract one.
\<close>

section \<open>Methods that answer alike\<close>

definition paired :: "('b \<Rightarrow> 'a \<Rightarrow> bool) \<Rightarrow> 'r \<times> 'b \<Rightarrow> 'r \<times> 'a \<Rightarrow> bool" where
  "paired R p q \<longleftrightarrow> fst p = fst q \<and> R (snd p) (snd q)"

definition alike :: "('b \<Rightarrow> 'a \<Rightarrow> bool) \<Rightarrow> ('b \<Rightarrow> 'r \<times> 'b) \<Rightarrow> ('a \<Rightarrow> 'r \<times> 'a) \<Rightarrow> bool" where
  "alike R m m' \<longleftrightarrow> (\<forall>b a. R b a \<longrightarrow> paired R (m b) (m' a))"

lemma paired_Pair [simp]: "paired R (r, b) (r', a) \<longleftrightarrow> r = r' \<and> R b a"
  by (simp add: paired_def)

lemma alikeI: "(\<And>b a. R b a \<Longrightarrow> paired R (m b) (m' a)) \<Longrightarrow> alike R m m'"
  by (simp add: alike_def)

lemma alikeD: "alike R m m' \<Longrightarrow> R b a \<Longrightarrow> paired R (m b) (m' a)"
  by (simp add: alike_def)

lemma paired_then:
  assumes "paired R p q" and "\<And>x b a. R b a \<Longrightarrow> paired R (f x b) (f' x a)"
  shows "paired R (and_then p f) (and_then q f')"
  using assms by (cases p; cases q; cases "fst p") auto

lemma paired_apfst: "paired R p q \<Longrightarrow> paired R (apfst f p) (apfst f q)"
  by (simp add: paired_def)

text \<open>Method tables, field by field; of the optional interfaces both have one or neither.\<close>

definition proposal_alike :: "('b \<Rightarrow> 'a \<Rightarrow> bool) \<Rightarrow> 'b ProposalControl \<Rightarrow> 'a ProposalControl \<Rightarrow> bool" where
  "proposal_alike R p p' \<longleftrightarrow> (\<forall>x. alike R (m_BuildProposal p x) (m_BuildProposal p' x)) \<and>
     (\<forall>x. alike R (m_VerifyProposal p x) (m_VerifyProposal p' x))"

definition voting_alike :: "('b \<Rightarrow> 'a \<Rightarrow> bool) \<Rightarrow> 'b VoteExtender \<Rightarrow> 'a VoteExtender \<Rightarrow> bool" where
  "voting_alike R v v' \<longleftrightarrow> (\<forall>x. alike R (m_ExtendVote v x) (m_ExtendVote v' x)) \<and>
     (\<forall>x. alike R (m_VerifyExtension v x) (m_VerifyExtension v' x))"

definition sync_alike :: "('b \<Rightarrow> 'a \<Rightarrow> bool) \<Rightarrow> 'b StateSync \<Rightarrow> 'a StateSync \<Rightarrow> bool" where
  "sync_alike R y y' \<longleftrightarrow> alike R (m_AvailableSnapshots y) (m_AvailableSnapshots y') \<and>
     (\<forall>h f. alike R (m_ExportSnapshot y h f) (m_ExportSnapshot y' h f)) \<and>
     (\<forall>d ch. alike R (m_ImportSnapshot y d ch) (m_ImportSnapshot y' d ch))"

definition simulator_alike :: "('b \<Rightarrow> 'a \<Rightarrow> bool) \<Rightarrow> 'b Simulator \<Rightarrow> 'a Simulator \<Rightarrow> bool" where
  "simulator_alike R m m' \<longleftrightarrow> (\<forall>tx. alike R (m_Simulate m tx) (m_Simulate m' tx))"

definition observer_alike :: "('b \<Rightarrow> 'a \<Rightarrow> bool) \<Rightarrow> 'b MempoolObserver \<Rightarrow> 'a MempoolObserver \<Rightarrow> bool" where
  "observer_alike R m m' \<longleftrightarrow> (\<forall>e. alike R (m_OnBatchCertified m e) (m_OnBatchCertified m' e)) \<and>
     (\<forall>e. alike R (m_OnBlockConstructed m e) (m_OnBlockConstructed m' e))"

lemmas tables_alike = proposal_alike_def voting_alike_def sync_alike_def simulator_alike_def observer_alike_def

locale app_refinement =
  fixes impl :: "'b Lifecycle" and spec :: "'a Lifecycle" and R :: "'b \<Rightarrow> 'a \<Rightarrow> bool"
  assumes handshake: "alike R (m_Handshake impl req) (m_Handshake spec req)"
    and checktx: "alike R (m_CheckTx impl tx mctx) (m_CheckTx spec tx mctx)"
    and execute: "alike R (m_ExecuteBlock impl blk) (m_ExecuteBlock spec blk)"
    and commit: "alike R (m_Commit impl) (m_Commit spec)"
    and query: "alike R (m_Query impl q) (m_Query spec q)"
    and proposal: "rel_option (proposal_alike R) (as_ProposalControl impl) (as_ProposalControl spec)"
    and voting: "rel_option (voting_alike R) (as_VoteExtender impl) (as_VoteExtender spec)"
    and sync: "rel_option (sync_alike R) (as_StateSync impl) (as_StateSync spec)"
    and simulation: "rel_option (simulator_alike R) (as_Simulator impl) (as_Simulator spec)"
    and observer: "rel_option (observer_alike R) (as_MempoolObserver impl) (as_MempoolObserver spec)"
begin

text \<open>Servers in front of the two: everything but the application's state is equal.\<close>

definition servers :: "'b Server \<Rightarrow> 'a Server \<Rightarrow> bool" where
  "servers s t \<longleftrightarrow> s_app s = impl \<and> s_app t = spec \<and> R (s_state s) (s_state t) \<and> s_guard s = s_guard t \<and>
     s_caps s = s_caps t \<and> s_lastOutcome s = s_lastOutcome t \<and> s_lastExecHeight s = s_lastExecHeight t \<and>
     s_log s = s_log t \<and> s_proposalCtl s = as_ProposalControl impl \<and> s_proposalCtl t = as_ProposalControl spec \<and>
     s_voteExt s = as_VoteExtender impl \<and> s_voteExt t = as_VoteExtender spec \<and>
     s_stateSync s = as_StateSync impl \<and> s_stateSync t = as_StateSync spec \<and>
     s_simulator s = as_Simulator impl \<and> s_simulator t = as_Simulator spec \<and>
     s_mempoolObs s = as_MempoolObserver impl \<and> s_mempoolObs t = as_MempoolObserver spec"

lemma servers_New: "R b a \<Longrightarrow> servers (New impl b) (New spec a)"
  by (simp add: servers_def New_def)

lemma discover: "discoverCapabilities impl caps = discoverCapabilities spec caps"
proof -
  have "(as_ProposalControl impl = None) = (as_ProposalControl spec = None)" "(as_VoteExtender impl = None) = (as_VoteExtender spec = None)"
    "(as_StateSync impl = None) = (as_StateSync spec = None)" "(as_Simulator impl = None) = (as_Simulator spec = None)"
    "(as_MempoolObserver impl = None) = (as_MempoolObserver spec = None)"
    using proposal voting sync simulation observer by (auto simp: option_rel_Some1 option_rel_Some2 elim: option.rel_cases)
  then show ?thesis by (simp add: discoverCapabilities_def)
qed

lemma paired_call: "alike R m m' \<Longrightarrow> servers s t \<Longrightarrow> paired servers (call m s) (call m' t)"
  by (auto simp: alike_def servers_def call_eq paired_def)

lemma paired_guard: "servers s t \<Longrightarrow> paired servers (with_guard f s) (with_guard f t)"
  by (simp add: servers_def with_guard_def split: prod.splits)

lemma servers_fields:
  assumes "servers s t"
  shows "s_app s = impl" "s_app t = spec" "servers (s\<lparr>s_caps := c, s_log := s_log s @ w\<rparr>) (t\<lparr>s_caps := c, s_log := s_log t @ w\<rparr>)"
    "servers (s\<lparr>s_lastOutcome := r, s_lastExecHeight := h\<rparr>) (t\<lparr>s_lastOutcome := r, s_lastExecHeight := h\<rparr>)"
    "servers (s\<lparr>s_lastOutcome := r\<rparr>) (t\<lparr>s_lastOutcome := r\<rparr>)"
  using assms by (simp_all add: servers_def)

lemma paired_Handshake:
  assumes "servers s t"
  shows "paired servers (Handshake req s) (Handshake req t)"
  unfolding Handshake_def
  by (intro paired_then paired_guard assms)
    (auto simp: servers_fields discover split: option.splits prod.splits
      intro!: paired_then paired_guard paired_call handshake servers_fields)

lemma paired_ExecuteBlock:
  assumes "servers s t"
  shows "paired servers (ExecuteBlock b s) (ExecuteBlock b t)"
  unfolding ExecuteBlock_def
  by (intro paired_then paired_guard assms)
    (auto simp: servers_fields split: option.splits intro!: paired_then paired_guard paired_call execute servers_fields)

lemma paired_Commit:
  assumes "servers s t"
  shows "paired servers (Commit s) (Commit t)"
  unfolding Commit_def
  by (intro paired_then paired_guard assms)
    (auto simp: servers_fields intro!: paired_then paired_guard paired_call commit servers_fields)

lemma optional_cases:
  assumes "rel_option P x y"
  obtains "x = None" and "y = None" | p q where "x = Some p" and "y = Some q" and "P p q"
  using assms by (cases rule: option.rel_cases) auto

lemma optional_fields:
  assumes "servers s t"
  shows "s_proposalCtl s = as_ProposalControl impl" "s_proposalCtl t = as_ProposalControl spec"
    "s_voteExt s = as_VoteExtender impl" "s_voteExt t = as_VoteExtender spec"
    "s_stateSync s = as_StateSync impl" "s_stateSync t = as_StateSync spec"
    "s_simulator s = as_Simulator impl" "s_simulator t = as_Simulator spec"
    "s_mempoolObs s = as_MempoolObserver impl" "s_mempoolObs t = as_MempoolObserver spec" "s_caps s = s_caps t"
  using assms by (simp_all add: servers_def)

lemma paired_proposal:
  assumes "servers s t"
  shows "paired servers (BuildProposal x s) (BuildProposal x t)" and "paired servers (VerifyProposal y s) (VerifyProposal y t)"
  using assms by (cases rule: optional_cases [OF proposal];
    auto simp: BuildProposal_def VerifyProposal_def optional_fields proposal_alike_def intro!: paired_call)+

lemma paired_voting:
  assumes "servers s t"
  shows "paired servers (ExtendVote x s) (ExtendVote x t)" and "paired servers (VerifyExtension y s) (VerifyExtension y t)"
  using assms by (cases rule: optional_cases [OF voting];
    auto simp: ExtendVote_def VerifyExtension_def optional_fields voting_alike_def intro!: paired_call)+

lemma paired_sync:
  assumes "servers s t"
  shows "paired servers (AvailableSnapshots s) (AvailableSnapshots t)" and "paired servers (ExportSnapshot h f s) (ExportSnapshot h f t)"
    and "paired servers (ImportSnapshot d ch s) (ImportSnapshot d ch t)"
  using assms by (cases rule: optional_cases [OF sync];
    auto simp: AvailableSnapshots_def ExportSnapshot_def ImportSnapshot_def optional_fields sync_alike_def intro!: paired_call)+

lemma paired_simulator:
  assumes "servers s t"
  shows "paired servers (Simulate tx s) (Simulate tx t)"
  using assms by (cases rule: optional_cases [OF simulation])
    (auto simp: Simulate_def optional_fields simulator_alike_def intro!: paired_then paired_call paired_guard)

lemma paired_observer:
  assumes "servers s t"
  shows "paired servers (OnBatchCertified e s) (OnBatchCertified e t)" and "paired servers (OnBlockConstructed e' s) (OnBlockConstructed e' t)"
  using assms by (cases rule: optional_cases [OF observer];
    auto simp: OnBatchCertified_def OnBlockConstructed_def optional_fields observer_alike_def intro!: paired_then paired_call paired_guard)+

lemma paired_concurrent:
  assumes "servers s t"
  shows "paired servers (CheckTx tx mctx s) (CheckTx tx mctx t)" and "paired servers (Query q s) (Query q t)"
  unfolding CheckTx_def Query_def
  by (intro paired_then paired_guard assms; auto simp: servers_fields intro!: paired_call checktx query)+

lemma paired_serve:
  assumes "servers s t"
  shows "paired servers (serve x s) (serve x t)"
  by (cases x) (simp_all add: paired_apfst paired_Handshake paired_ExecuteBlock paired_Commit paired_proposal paired_voting
      paired_sync paired_simulator paired_observer paired_concurrent assms)

text \<open>Any sequence of calls, with the replies.\<close>

lemma paired_calls: "servers s t \<Longrightarrow> paired servers (serve_all xs s) (serve_all xs t)"
proof (induction xs arbitrary: s t)
  case (Cons x xs)
  have "fst (serve x s) = fst (serve x t)" "servers (snd (serve x s)) (snd (serve x t))"
    using paired_serve [OF Cons.prems, of x] by (auto simp: paired_def)
  then show ?case using Cons.IH [of "snd (serve x s)" "snd (serve x t)"] by (simp add: paired_def split_def)
qed simp

lemma same_replies:
  assumes "R b a"
  shows "fst (serve_all xs (New impl b)) = fst (serve_all xs (New spec a))"
    and "R (s_state (snd (serve_all xs (New impl b)))) (s_state (snd (serve_all xs (New spec a))))"
  using paired_calls [OF servers_New [OF assms], of xs] by (auto simp: paired_def servers_def)

end

end
