(* ===== verification/Dex_Heap_Refines.thy ===== *)
theory Dex_Heap_Refines
  imports Dex_Heap App_Refinement
begin

text \<open>
  The order book over the store behaves like the order book over values. What a state object
  reaches is its footprint; assignments through one object stay within its footprint and fresh
  addresses, and the copy that \<open>clone\<close> makes shares nothing with the original.
\<close>

section \<open>Footprints\<close>

definition inner_refs :: "heap \<Rightarrow> ref \<Rightarrow> ref set" where
  "inner_refs h p = {r. \<exists>b a. hs_Balances (h_states h p) = Some b \<and> fmlookup (h_balances h b) a = Some (Some r)}"

definition foot :: "heap \<Rightarrow> ref \<Rightarrow> ref set" where
  "foot h p = {p} \<union> set_option (hs_Balances (h_states h p)) \<union> fst ` set_option (hs_Orders (h_states h p)) \<union>
     inner_refs h p \<union> set_option (hs_Prices (h_states h p))"

text \<open>
  Within an object nothing is shared: the maps of two accounts are different maps, and
  different from the price table (which has the same type).
\<close>

definition separated :: "heap \<Rightarrow> ref \<Rightarrow> bool" where
  "separated h p \<longleftrightarrow> foot h p \<subseteq> {..<h_lim h} \<and>
     (\<forall>b a a' r. hs_Balances (h_states h p) = Some b \<longrightarrow> fmlookup (h_balances h b) a = Some (Some r) \<longrightarrow>
        fmlookup (h_balances h b) a' = Some (Some r) \<longrightarrow> a = a') \<and>
     (\<forall>r. hs_Prices (h_states h p) = Some r \<longrightarrow> r \<notin> inner_refs h p) \<and>
     (\<forall>a n. hs_Orders (h_states h p) = Some (a, n) \<longrightarrow> n \<le> length (h_arrays h a))"

text \<open>A store that differs from another within a set of addresses and above its limit only.\<close>

definition agree :: "heap \<Rightarrow> heap \<Rightarrow> ref \<Rightarrow> bool" where
  "agree h h' r \<longleftrightarrow> h_states h' r = h_states h r \<and> h_balances h' r = h_balances h r \<and>
     h_amounts h' r = h_amounts h r \<and> h_arrays h' r = h_arrays h r"

definition frame :: "ref set \<Rightarrow> heap \<Rightarrow> heap \<Rightarrow> bool" where
  "frame F h h' \<longleftrightarrow> h_lim h \<le> h_lim h' \<and> (\<forall>r. r < h_lim h \<longrightarrow> r \<notin> F \<longrightarrow> agree h h' r)"

lemma agree_trans: "agree h h' r \<Longrightarrow> agree h' h'' r \<Longrightarrow> agree h h'' r"
  by (simp add: agree_def)

lemma frame_refl [simp]: "frame F h h"
  by (simp add: frame_def agree_def)

lemma frame_trans:
  assumes "frame F h h'" and "frame G h' h''" and "G \<inter> {..<h_lim h} \<subseteq> F"
  shows "frame F h h''"
  unfolding frame_def
proof (intro conjI allI impI)
  show "h_lim h \<le> h_lim h''" using assms(1,2) by (simp add: frame_def)
  fix r assume r: "r < h_lim h" "r \<notin> F"
  then have "r < h_lim h'" "r \<notin> G" using assms by (auto simp: frame_def)
  then have "agree h h' r" "agree h' h'' r" using assms r by (auto simp: frame_def)
  then show "agree h h'' r" by (rule agree_trans)
qed

lemma frame_mono: "frame F h h' \<Longrightarrow> F \<inter> {..<h_lim h} \<subseteq> G \<Longrightarrow> frame G h h'"
  by (auto simp: frame_def)

lemma footI:
  "p \<in> foot h p" "hs_Balances (h_states h p) = Some b \<Longrightarrow> b \<in> foot h p"
  "hs_Orders (h_states h p) = Some (a, n) \<Longrightarrow> a \<in> foot h p" "r \<in> inner_refs h p \<Longrightarrow> r \<in> foot h p"
  "hs_Prices (h_states h p) = Some r \<Longrightarrow> r \<in> foot h p"
  by (auto simp: foot_def image_iff)

lemma framed:
  assumes "frame F h h'" and "separated h q" and "foot h q \<inter> F = {}"
  shows "state_at h' q = state_at h q" and "foot h' q = foot h q" and "separated h' q"
proof -
  have same: "h_states h' r = h_states h r" "h_balances h' r = h_balances h r" "h_amounts h' r = h_amounts h r"
    "h_arrays h' r = h_arrays h r" if "r \<in> foot h q" for r
    using that assms by (auto simp: frame_def separated_def agree_def)
  have q: "h_states h' q = h_states h q" using same footI(1) by blast
  have b: "h_balances h' b = h_balances h b" if "hs_Balances (h_states h q) = Some b" for b using same footI(2) [OF that] by blast
  have inner: "inner_refs h' q = inner_refs h q" using q b by (auto simp: inner_refs_def)
  then show f: "foot h' q = foot h q" using q by (simp add: foot_def)
  have am: "amounts_at h' r = amounts_at h r" if "\<And>a. r = Some a \<Longrightarrow> a \<in> foot h q" for r
    using that same(3) by (auto simp: amounts_at_def split: option.splits)
  have "fmmap (amounts_at h') (h_balances h b) = fmmap (amounts_at h) (h_balances h b)"
    if "hs_Balances (h_states h q) = Some b" for b
  proof (rule fmap_ext)
    fix a
    have "amounts_at h' r = amounts_at h r" if "fmlookup (h_balances h b) a = Some r" for r
      by (rule am) (use that \<open>hs_Balances (h_states h q) = Some b\<close> in \<open>auto simp: inner_refs_def intro!: footI(4)\<close>)
    then show "fmlookup (fmmap (amounts_at h') (h_balances h b)) a = fmlookup (fmmap (amounts_at h) (h_balances h b)) a"
      by (cases "fmlookup (h_balances h b) a") auto
  qed
  then have "balances_at h' (hs_Balances (h_states h q)) = balances_at h (hs_Balances (h_states h q))"
    using b by (simp add: balances_at_def split: option.splits)
  moreover have "orders_at h' (hs_Orders (h_states h q)) = orders_at h (hs_Orders (h_states h q))"
    using footI(3) same(4) by (cases "hs_Orders (h_states h q)") (auto simp: orders_at_def)
  moreover have "amounts_at h' (hs_Prices (h_states h q)) = amounts_at h (hs_Prices (h_states h q))"
    using am footI(5) by blast
  ultimately show "state_at h' q = state_at h q" using q by (simp add: state_at_def Let_def)
  show "separated h' q"
    using assms(1,2) q b inner f same(4) footI(3) by (fastforce simp: separated_def frame_def)
qed

section \<open>Assignments through an object\<close>

definition evolves :: "ref \<Rightarrow> heap \<Rightarrow> heap \<Rightarrow> bool" where
  "evolves p h h' \<longleftrightarrow> frame (foot h p) h h' \<and> foot h' p \<subseteq> foot h p \<union> {h_lim h..} \<and> separated h' p"

lemma evolves_refl: "separated h p \<Longrightarrow> evolves p h h"
  by (simp add: evolves_def)

lemma evolves_trans:
  assumes "evolves p h h'" and "evolves p h' h''"
  shows "evolves p h h''"
  unfolding evolves_def
proof (intro conjI)
  show "frame (foot h p) h h''"
    by (rule frame_trans [of _ _ h' "foot h' p"]) (use assms in \<open>auto simp: evolves_def\<close>)
  show "foot h'' p \<subseteq> foot h p \<union> {h_lim h..}"
    using assms by (fastforce simp: evolves_def frame_def)
qed (use assms in \<open>simp add: evolves_def\<close>)

lemma inner_at_refs: "inner_at p a h = Some r \<Longrightarrow> r \<in> inner_refs h p"
  by (auto simp: inner_at_def inner_refs_def split: option.splits)

lemma inner_at_value: "inner (st_Balances (state_at h p)) a = amounts_at h (inner_at p a h)"
  by (auto simp: state_at_def Let_def inner_def inner_at_def balances_at_def amounts_at_def split: option.splits)

lemma amounts_at_nil [simp]: "amounts_at h r = NilMap \<longleftrightarrow> r = None"
  by (simp add: amounts_at_def split: option.splits)

lemma balance_at_value: "balance_at p a d h = balance (st_Balances (state_at h p)) a d"
  by (simp add: balance_at_def balance_def inner_at_value)

lemma balances_nil [simp]: "balances_at h r = NilMap \<longleftrightarrow> r = None"
  by (simp add: balances_at_def split: option.splits)

lemma amounts_at_upd:
  "amounts_at (h\<lparr>h_amounts := (h_amounts h)(r := m)\<rparr>) x = (if x = Some r then MkMap m else amounts_at h x)"
  by (simp add: amounts_at_def split: option.splits)

text \<open>Assigning to the map of one account changes the balances of that account only.\<close>

lemma put_inner:
  fixes m :: "(string, u64) fmap"
  assumes "separated h p" and "inner_at p a h = Some r"
  defines "h' \<equiv> h\<lparr>h_amounts := (h_amounts h)(r := m)\<rparr>"
  shows "evolves p h h'" and
    "state_at h' p = (state_at h p)\<lparr>st_Balances := MkMap (fmupd a (MkMap m) (gm_fmap (st_Balances (state_at h p))))\<rparr>"
proof -
  have r: "r \<in> inner_refs h p" by (rule inner_at_refs [OF assms(2)])
  have same: "inner_refs h' p = inner_refs h p" "foot h' p = foot h p" by (simp_all add: h'_def inner_refs_def foot_def)
  have "frame (foot h p) h h'" using footI(4) [OF r] by (simp add: frame_def h'_def agree_def)
  moreover have "separated h' p" using assms(1) same by (simp add: separated_def h'_def)
  ultimately show "evolves p h h'" using same(2) by (simp add: evolves_def)
  obtain b where b: "hs_Balances (h_states h p) = Some b" "fmlookup (h_balances h b) a = Some (Some r)"
    using assms(2) by (auto simp: inner_at_def split: option.splits)
  have "hs_Prices (h_states h p) \<noteq> Some r" using assms(1) r by (auto simp: separated_def)
  then have pr: "amounts_at h' (hs_Prices (h_states h p)) = amounts_at h (hs_Prices (h_states h p))"
    by (simp add: h'_def amounts_at_upd)
  have "x \<noteq> a \<Longrightarrow> fmlookup (h_balances h b) x \<noteq> Some (Some r)" for x
    using assms(1) b unfolding separated_def by blast
  then have "fmlookup (fmmap (amounts_at h') (h_balances h b)) x =
      fmlookup (fmupd a (MkMap m) (fmmap (amounts_at h) (h_balances h b))) x" for x
    using b(2) by (cases "fmlookup (h_balances h b) x") (auto simp: h'_def amounts_at_upd)
  then have "fmmap (amounts_at h') (h_balances h b) = fmupd a (MkMap m) (fmmap (amounts_at h) (h_balances h b))"
    by (rule fmap_ext)
  then show "state_at h' p = (state_at h p)\<lparr>st_Balances := MkMap (fmupd a (MkMap m) (gm_fmap (st_Balances (state_at h p))))\<rparr>"
    using b(1) pr by (simp add: state_at_def Let_def balances_at_def orders_at_def) (simp add: h'_def)
qed

lemma put_price_map:
  fixes m :: "(string, u64) fmap"
  assumes "separated h p" and "hs_Prices (h_states h p) = Some r"
  defines "h' \<equiv> h\<lparr>h_amounts := (h_amounts h)(r := m)\<rparr>"
  shows "evolves p h h'" and "state_at h' p = (state_at h p)\<lparr>st_Prices := MkMap m\<rparr>"
proof -
  have same: "inner_refs h' p = inner_refs h p" "foot h' p = foot h p" by (simp_all add: h'_def inner_refs_def foot_def)
  have "frame (foot h p) h h'" using footI(5) [OF assms(2)] by (simp add: frame_def h'_def agree_def)
  moreover have "separated h' p" using assms(1) same by (simp add: separated_def h'_def)
  ultimately show "evolves p h h'" using same(2) by (simp add: evolves_def)
  have "r \<notin> inner_refs h p" using assms(1,2) by (auto simp: separated_def)
  then have "fmlookup (fmmap (amounts_at h') (h_balances h b)) x = fmlookup (fmmap (amounts_at h) (h_balances h b)) x"
    if "hs_Balances (h_states h p) = Some b" for b x
    using that by (cases "fmlookup (h_balances h b) x") (auto simp: inner_refs_def h'_def amounts_at_upd)
  then have "fmmap (amounts_at h') (h_balances h b) = fmmap (amounts_at h) (h_balances h b)"
    if "hs_Balances (h_states h p) = Some b" for b
    using that by (auto intro: fmap_ext)
  then show "state_at h' p = (state_at h p)\<lparr>st_Prices := MkMap m\<rparr>"
    using assms(2) by (auto simp: state_at_def Let_def balances_at_def orders_at_def amounts_at_def h'_def split: option.splits)
qed

lemma make_inner_map:
  fixes a :: string
  assumes "separated h p" and "hs_Balances (h_states h p) = Some b"
  defines "h' \<equiv> h\<lparr>h_amounts := (h_amounts h)(h_lim h := fmempty), h_lim := Suc (h_lim h),
    h_balances := (h_balances h)(b := fmupd a (Some (h_lim h)) (h_balances h b))\<rparr>"
  shows "make_inner p a h = Ret ((), h')" and "evolves p h h'" and "inner_at p a h' = Some (h_lim h)" and "h_amounts h' (h_lim h) = fmempty"
    and "state_at h' p = (state_at h p)\<lparr>st_Balances := MkMap (fmupd a gm_make (gm_fmap (st_Balances (state_at h p))))\<rparr>"
proof -
  show "make_inner p a h = Ret ((), h')" using assms(2) by (simp add: make_inner_def new_amounts_def h'_def)
  show "inner_at p a h' = Some (h_lim h)" "h_amounts h' (h_lim h) = fmempty" using assms(2) by (simp_all add: inner_at_def h'_def)
  have lim: "x < h_lim h" if "x \<in> foot h p" for x using that assms(1) by (auto simp: separated_def)
  have inner: "inner_refs h' p \<subseteq> insert (h_lim h) (inner_refs h p)"
    using assms(2) by (auto simp: inner_refs_def h'_def split: if_splits)
  have "foot h' p \<subseteq> insert (h_lim h) (foot h p)" using inner assms(2) by (auto simp: foot_def h'_def)
  moreover have "frame (foot h p) h h'" using footI(2) [OF assms(2)] by (auto simp: frame_def h'_def agree_def)
  moreover have "separated h' p"
    unfolding separated_def
  proof (intro conjI allI impI)
    show "foot h' p \<subseteq> {..<h_lim h'}" using calculation(1) lim by (force simp: h'_def)
    show "r \<notin> inner_refs h' p" if "hs_Prices (h_states h' p) = Some r" for r
      using that inner assms(1) lim footI(5) [of h p r] by (auto simp: separated_def h'_def)
    show "n \<le> length (h_arrays h' x)" if "hs_Orders (h_states h' p) = Some (x, n)" for x n
      using that assms(1) by (auto simp: separated_def h'_def)
    show "x = y" if "hs_Balances (h_states h' p) = Some b'" "fmlookup (h_balances h' b') x = Some (Some r)"
      "fmlookup (h_balances h' b') y = Some (Some r)" for b' x y r
      using that assms(1,2) lim footI(4) [of r h p] unfolding separated_def h'_def
      by (auto simp: inner_refs_def split: if_splits)
  qed
  ultimately show "evolves p h h'" by (auto simp: evolves_def)
  have am: "amounts_at h' x = amounts_at h x" if "x \<noteq> Some (h_lim h)" for x
    using that by (auto simp: amounts_at_def h'_def split: option.splits)
  have "fmlookup (fmmap (amounts_at h') (h_balances h' b)) x =
      fmlookup (fmupd a gm_make (fmmap (amounts_at h) (h_balances h b))) x" for x
  proof (cases "x = a")
    case True
    then show ?thesis by (simp add: h'_def amounts_at_def gm_make_def)
  next
    case False
    have "h_lim h \<notin> inner_refs h p" using lim footI(4) by blast
    then have "fmlookup (h_balances h b) x \<noteq> Some (Some (h_lim h))" using assms(2) by (auto simp: inner_refs_def)
    moreover have "fmlookup (h_balances h' b) x = fmlookup (h_balances h b) x" using False by (simp add: h'_def)
    ultimately show ?thesis using False am by (cases "fmlookup (h_balances h b) x") auto
  qed
  then have "fmmap (amounts_at h') (h_balances h' b) = fmupd a gm_make (fmmap (amounts_at h) (h_balances h b))" by (rule fmap_ext)
  moreover have "hs_Prices (h_states h p) \<noteq> Some (h_lim h)" using lim footI(5) by blast
  ultimately show "state_at h' p = (state_at h p)\<lparr>st_Balances := MkMap (fmupd a gm_make (gm_fmap (st_Balances (state_at h p))))\<rparr>"
    using assms(2) am by (simp add: state_at_def Let_def balances_at_def orders_at_def) (simp add: h'_def)
qed

lemma drop_account_map:
  assumes "separated h p" and "hs_Balances (h_states h p) = Some b"
  shows "evolves p h (drop_account p a h)" and
    "state_at (drop_account p a h) p = (state_at h p)\<lparr>st_Balances := MkMap (fmdrop a (gm_fmap (st_Balances (state_at h p))))\<rparr>"
proof -
  let ?h = "h\<lparr>h_balances := (h_balances h)(b := fmdrop a (h_balances h b))\<rparr>"
  have eq: "drop_account p a h = ?h" using assms(2) by (simp add: drop_account_def)
  have inner: "inner_refs ?h p \<subseteq> inner_refs h p" using assms(2) by (auto simp: inner_refs_def split: if_splits)
  then have "foot ?h p \<subseteq> foot h p" by (auto simp: foot_def)
  moreover have "frame (foot h p) h ?h" using footI(2) [OF assms(2)] by (auto simp: frame_def agree_def)
  moreover have "separated ?h p" using assms inner calculation(1) by (auto simp: separated_def split: if_splits)
  ultimately show "evolves p h (drop_account p a h)" by (auto simp: evolves_def eq)
  have "amounts_at ?h = amounts_at h" by (auto simp: amounts_at_def fun_eq_iff split: option.splits)
  moreover have "fmlookup (fmmap (amounts_at h) (fmdrop a (h_balances h b))) x =
      fmlookup (fmdrop a (fmmap (amounts_at h) (h_balances h b))) x" for x by simp
  then have "fmmap (amounts_at h) (fmdrop a (h_balances h b)) = fmdrop a (fmmap (amounts_at h) (h_balances h b))" by (rule fmap_ext)
  ultimately show "state_at (drop_account p a h) p = (state_at h p)\<lparr>st_Balances := MkMap (fmdrop a (gm_fmap (st_Balances (state_at h p))))\<rparr>"
    using assms(2) by (simp add: eq state_at_def Let_def balances_at_def orders_at_def)
qed

text \<open>A new struct value for the object, with maps and array as before or fresh.\<close>

lemma put_struct:
  assumes "separated h p"
  shows "evolves p h (put_height p v h)" and "state_at (put_height p v h) p = (state_at h p)\<lparr>st_Height := v\<rparr>"
proof -
  let ?h = "put_height p v h"
  have same: "inner_refs ?h p = inner_refs h p" "foot ?h p = foot h p" by (simp_all add: put_height_def inner_refs_def foot_def)
  have "frame (foot h p) h ?h" using footI(1) by (auto simp: frame_def put_height_def agree_def)
  moreover have "separated ?h p" using assms same by (simp add: separated_def) (simp add: put_height_def)
  ultimately show "evolves p h ?h" using same(2) by (simp add: evolves_def)
  have "amounts_at ?h = amounts_at h" by (auto simp: put_height_def amounts_at_def fun_eq_iff split: option.splits)
  then show "state_at ?h p = (state_at h p)\<lparr>st_Height := v\<rparr>"
    by (simp add: state_at_def Let_def balances_at_def orders_at_def) (simp add: put_height_def split: option.splits)
qed

lemma append_order_spec:
  assumes "separated h p"
  shows "evolves p h (append_order grow p r h)" and
    "state_at (append_order grow p r h) p = (state_at h p)\<lparr>st_Orders := Some (elems (st_Orders (state_at h p)) @ [r])\<rparr>"
proof -
  obtain xs n where xs: "(case hs_Orders (h_states h p) of None \<Rightarrow> ([], 0) | Some (a, n) \<Rightarrow> (h_arrays h a, n)) = (xs, n)" by fastforce
  have old: "elems (st_Orders (state_at h p)) = take n xs" "n \<le> length xs"
    using xs assms by (auto simp: state_at_def Let_def orders_at_def elems_def separated_def split: option.splits)
  have lim: "x < h_lim h" if "x \<in> foot h p" for x using that assms by (auto simp: separated_def)
  have "evolves p h (append_order grow p r h) \<and>
    state_at (append_order grow p r h) p = (state_at h p)\<lparr>st_Orders := Some (elems (st_Orders (state_at h p)) @ [r])\<rparr>"
  proof (cases "n < length xs")
    case True
    then obtain a where a: "hs_Orders (h_states h p) = Some (a, n)" "xs = h_arrays h a" using xs by (auto split: option.splits)
    let ?h = "h\<lparr>h_arrays := (h_arrays h)(a := xs[n := r]), h_states := (h_states h)(p := (h_states h p)\<lparr>hs_Orders := Some (a, Suc n)\<rparr>)\<rparr>"
    have eq: "append_order grow p r h = ?h" using True a by (simp add: append_order_def Let_def)
    have same: "inner_refs ?h p = inner_refs h p" "foot ?h p = foot h p" using a by (simp_all add: inner_refs_def foot_def)
    have "frame (foot h p) h ?h" using footI(1) footI(3) [OF a(1)] by (auto simp: frame_def agree_def)
    moreover have "separated ?h p" using assms same True a(2) by (simp add: separated_def)
    moreover have "amounts_at ?h = amounts_at h" by (auto simp: amounts_at_def fun_eq_iff split: option.splits)
    moreover have "take (Suc n) (xs[n := r]) = take n xs @ [r]" using True by (simp add: take_Suc_conv_app_nth)
    ultimately show "evolves p h (append_order grow p r h) \<and>
        state_at (append_order grow p r h) p = (state_at h p)\<lparr>st_Orders := Some (elems (st_Orders (state_at h p)) @ [r])\<rparr>"
      using same(2) by (simp add: eq evolves_def old) (simp add: state_at_def Let_def balances_at_def orders_at_def split: option.splits)
  next
    case False
    let ?a = "h_lim h" and ?ys = "take n xs @ r # replicate (grow n) zero_Order"
    let ?h = "h\<lparr>h_arrays := (h_arrays h)(?a := ?ys), h_lim := Suc ?a,
      h_states := (h_states h)(p := (h_states h p)\<lparr>hs_Orders := Some (?a, Suc n)\<rparr>)\<rparr>"
    have eq: "append_order grow p r h = ?h" using False xs by (simp add: append_order_def Let_def new_array_def)
    have same: "inner_refs ?h p = inner_refs h p" by (simp add: inner_refs_def)
    then have ft: "foot ?h p \<subseteq> insert ?a (foot h p)" by (auto simp: foot_def)
    have "frame (foot h p) h ?h" using footI(1) by (auto simp: frame_def agree_def)
    moreover have "foot ?h p \<subseteq> {..<Suc ?a}" using ft lim by force
    then have "separated ?h p" using assms same old by (simp add: separated_def)
    moreover have "amounts_at ?h = amounts_at h" by (auto simp: amounts_at_def fun_eq_iff split: option.splits)
    moreover have "take (Suc n) ?ys = take n xs @ [r]" using old(2) False by simp
    ultimately show "evolves p h (append_order grow p r h) \<and>
        state_at (append_order grow p r h) p = (state_at h p)\<lparr>st_Orders := Some (elems (st_Orders (state_at h p)) @ [r])\<rparr>"
      using ft old(2) by (auto simp: eq evolves_def old(1))
        (simp add: state_at_def Let_def balances_at_def orders_at_def min_absorb2 split: option.splits)
  qed
  then show "evolves p h (append_order grow p r h)"
    "state_at (append_order grow p r h) p = (state_at h p)\<lparr>st_Orders := Some (elems (st_Orders (state_at h p)) @ [r])\<rparr>" by blast+
qed

section \<open>Transactions\<close>

text \<open>
  Code over the store follows code over values: both return or both panic; the store evolves
  through the object \<open>p\<close>, and results and new states are related by \<open>Q\<close>.
\<close>

definition mirrors :: "ref \<Rightarrow> heap \<Rightarrow> ('x \<Rightarrow> heap \<Rightarrow> 'y \<Rightarrow> bool) \<Rightarrow> ('x \<times> heap) go \<Rightarrow> 'y go \<Rightarrow> bool" where
  "mirrors p h Q m v \<longleftrightarrow> (case v of
     Ret y \<Rightarrow> \<exists>x h'. m = Ret (x, h') \<and> evolves p h h' \<and> Q x h' y
   | Panic e \<Rightarrow> m = Panic e
   | Blocked \<Rightarrow> m = Blocked)"

lemma mirrors_Ret: "evolves p h h' \<Longrightarrow> Q x h' y \<Longrightarrow> mirrors p h Q (Ret (x, h')) (Ret y)"
  by (simp add: mirrors_def)

lemma mirrors_bind:
  assumes "mirrors p h Q m v" and "\<And>x h' y. v = Ret y \<Longrightarrow> evolves p h h' \<Longrightarrow> Q x h' y \<Longrightarrow> mirrors p h' Q' (f (x, h')) (g y)"
  shows "mirrors p h Q' (go_bind m f) (go_bind v g)"
proof (cases v)
  case (Ret y)
  then obtain x h' where m: "m = Ret (x, h')" "evolves p h h'" "Q x h' y" using assms(1) by (auto simp: mirrors_def)
  have "mirrors p h' Q' (f (x, h')) (g y)" by (rule assms(2) [OF Ret m(2,3)])
  then show ?thesis using m Ret by (auto simp: mirrors_def intro: evolves_trans split: go.splits)
qed (use assms(1) in \<open>simp_all add: mirrors_def\<close>)

lemma mirrors_pure: "(\<And>a. mirrors p h Q (f a) (g a)) \<Longrightarrow> mirrors p h Q (go_bind r f) (go_bind r g)"
  by (cases r) (simp_all add: mirrors_def)

lemma mirrors_if:
  "c \<longleftrightarrow> c' \<Longrightarrow> (c' \<Longrightarrow> mirrors p h Q m v) \<Longrightarrow> (\<not> c' \<Longrightarrow> mirrors p h Q n w) \<Longrightarrow>
     mirrors p h Q (if c then m else n) (if c' then v else w)"
  by simp

abbreviation balances_now :: "state \<Rightarrow> ref \<Rightarrow> unit \<Rightarrow> heap \<Rightarrow> balances \<Rightarrow> bool" where
  "balances_now s p x h b \<equiv> state_at h p = s\<lparr>st_Balances := b\<rparr>"

abbreviation done_now :: "ref \<Rightarrow> TxOutcome \<times> Event list \<Rightarrow> heap \<Rightarrow> TxOutcome \<times> Event list \<times> state \<Rightarrow> bool" where
  "done_now p x h y \<equiv> y = (fst x, snd x, state_at h p)"

lemma mirrors_put_balance:
  assumes "separated h p" and "state_at h p = s\<lparr>st_Balances := b\<rparr>"
  shows "mirrors p h (balances_now s p) (put_balance p a d v h) (set_balance b a d v)"
proof (cases "inner_at p a h")
  case None
  then have "inner b a = NilMap" using inner_at_value [of h p a] assms(2) by simp
  then show ?thesis using None by (simp add: put_balance_def set_balance_def nil_map_def mirrors_def)
next
  case (Some r)
  have i: "inner b a = MkMap (h_amounts h r)" using inner_at_value [of h p a] assms(2) Some by (simp add: amounts_at_def)
  obtain fb where fb: "b = MkMap fb" using i by (cases b) (auto simp: inner_def)
  note put = put_inner [OF assms(1) Some, of "fmupd d v (h_amounts h r)"]
  show ?thesis using put Some i fb assms(2) by (simp add: put_balance_def set_balance_def mirrors_def)
qed

lemma mirrors_put_then:
  assumes "separated h p" and "state_at h p = s\<lparr>st_Balances := b\<rparr>" and "v = v'"
    and "\<And>h' b'. set_balance b a d v' = Ret b' \<Longrightarrow> separated h' p \<Longrightarrow> state_at h' p = s\<lparr>st_Balances := b'\<rparr> \<Longrightarrow>
      mirrors p h' Q (f ((), h')) (g b')"
  shows "mirrors p h Q (go_bind (put_balance p a d v h) f) (go_bind (set_balance b a d v') g)"
  unfolding assms(3)
  by (rule mirrors_bind [OF mirrors_put_balance [OF assms(1,2)]]) (use assms(4) in \<open>auto simp: evolves_def\<close>)

lemma mirrors_make_inner:
  assumes "separated h p" and "state_at h p = s\<lparr>st_Balances := b\<rparr>"
  shows "mirrors p h (balances_now s p) (make_inner p a h) (gm_set b a gm_make)"
proof (cases "hs_Balances (h_states h p)")
  case None
  then have "b = NilMap" using assms(2) by (cases s) (auto simp: state_at_def Let_def balances_at_def)
  then show ?thesis using None by (simp add: make_inner_def nil_map_def mirrors_def)
next
  case (Some r)
  then obtain fb where fb: "b = MkMap fb" using assms(2) by (cases s) (auto simp: state_at_def Let_def balances_at_def)
  show ?thesis using make_inner_map(1,2,5) [OF assms(1) Some, of a] assms(2) fb by (simp add: mirrors_def)
qed

lemma deposit_mirrors:
  assumes "separated h p" and "state_at h p = s"
  shows "mirrors p h (done_now p) (deposit_at p i tx h) (executeDeposit s i tx)"
proof -
  have s: "state_at h p = s\<lparr>st_Balances := st_Balances s\<rparr>" using assms(2) by simp
  have nil: "inner_at p a h = None \<longleftrightarrow> inner (st_Balances s) a = NilMap" for a
    using inner_at_value [of h p a] assms(2) by simp
  show ?thesis
    unfolding deposit_at_def executeDeposit_def Let_def
    by (intro mirrors_if mirrors_pure refl mirrors_bind [where Q = "balances_now s p"])
      (auto simp: assms evolves_refl nil balance_at_value evolves_def
        intro!: mirrors_Ret mirrors_make_inner s mirrors_put_then [where s = s])
qed

lemma limit_order_mirrors:
  assumes "separated h p" and "state_at h p = s"
  shows "mirrors p h (done_now p) (limit_order_at grow p i tx h) (executeLimitOrder s i tx)"
proof -
  have s: "state_at h p = s\<lparr>st_Balances := st_Balances s\<rparr>" using assms(2) by simp
  have q: "append_slice q [r] = Some (elems q @ [r])" for q :: "Order slice" and r by (simp add: append_slice_def)
  have len: "length (elems (orders_at h' (hs_Orders (h_states h' p)))) = length (elems (st_Orders (state_at h' p)))" for h'
    by (simp add: state_at_def Let_def)
  show ?thesis
    unfolding limit_order_at_def executeLimitOrder_def Let_def
    by (intro mirrors_if mirrors_pure refl)
      (auto simp: assms evolves_refl balance_at_value q len append_order_spec
        intro!: mirrors_Ret s mirrors_put_then [where s = s] append_order_spec)
qed

text \<open>The end of a withdrawal, which removes an empty entry, and an account without entries.\<close>

definition tidy_at :: "ref \<Rightarrow> string \<Rightarrow> string \<Rightarrow> heap \<Rightarrow> heap" where
  "tidy_at p a d h = (if balance_at p a d h = 0 then
     (let h = drop_denom p a d h in if gm_len (amounts_at h (inner_at p a h)) = 0 then drop_account p a h else h) else h)"

definition tidy :: "balances \<Rightarrow> string \<Rightarrow> string \<Rightarrow> balances go" where
  "tidy b a d = (if balance b a d = 0 then
     go_bind (gm_set b a (gm_delete (inner b a) d)) (\<lambda>b. Ret (if gm_len (inner b a) = 0 then gm_delete b a else b)) else Ret b)"

lemma tidy_spec:
  assumes "separated h p" and "state_at h p = s\<lparr>st_Balances := b\<rparr>" and "inner b a \<noteq> NilMap"
  obtains b' where "tidy b a d = Ret b'" and "evolves p h (tidy_at p a d h)" and "state_at (tidy_at p a d h) p = s\<lparr>st_Balances := b'\<rparr>"
proof (cases "balance b a d = 0")
  case False
  then show ?thesis using that [of b] assms by (simp add: tidy_def tidy_at_def balance_at_value evolves_refl)
next
  case True
  obtain r where r: "inner_at p a h = Some r" "inner b a = MkMap (h_amounts h r)"
    using inner_at_value [of h p a] assms(2,3) by (cases "inner_at p a h") (auto simp: amounts_at_def)
  obtain fb where fb: "b = MkMap fb" using assms(3) by (cases b) (auto simp: inner_def)
  let ?h = "drop_denom p a d h" and ?m = "fmdrop d (h_amounts h r)"
  let ?b = "MkMap (fmupd a (MkMap ?m) fb)"
  have 1: "evolves p h ?h" "state_at ?h p = s\<lparr>st_Balances := ?b\<rparr>"
    using put_inner [OF assms(1) r(1), of ?m] assms(2) fb r(1) by (simp_all add: drop_denom_def)
  have sep: "separated ?h p" using 1(1) by (simp add: evolves_def)
  obtain o' where o': "hs_Balances (h_states ?h p) = Some o'"
    using arg_cong [OF 1(2), of st_Balances] by (cases "hs_Balances (h_states ?h p)") (auto simp: state_at_def Let_def balances_at_def)
  have 2: "evolves p h (drop_account p a ?h)" "state_at (drop_account p a ?h) p = s\<lparr>st_Balances := gm_delete ?b a\<rparr>"
    using drop_account_map [OF sep o', of a] 1 by (auto intro: evolves_trans)
  have at: "amounts_at ?h (inner_at p a ?h) = MkMap ?m" using inner_at_value [of ?h p a] 1(2) by (simp add: inner_def)
  have "tidy b a d = Ret (if gm_len (MkMap ?m) = 0 then gm_delete ?b a else ?b)"
    using True r(2) fb by (simp add: tidy_def inner_def)
  moreover have "tidy_at p a d h = (if gm_len (MkMap ?m) = 0 then drop_account p a ?h else ?h)"
    using True assms(2) at by (simp add: tidy_at_def balance_at_value Let_def)
  ultimately show ?thesis using that 1 2 by (cases "gm_len (MkMap ?m) = 0") auto
qed

lemma mirrors_tidy:
  assumes "separated h p" and "state_at h p = s\<lparr>st_Balances := b\<rparr>" and "inner b a \<noteq> NilMap"
    and "\<And>b'. evolves p h (tidy_at p a d h) \<Longrightarrow> state_at (tidy_at p a d h) p = s\<lparr>st_Balances := b'\<rparr> \<Longrightarrow>
      mirrors p h Q (Ret (x, tidy_at p a d h)) (g b')"
  shows "mirrors p h Q (Ret (x, tidy_at p a d h)) (go_bind (tidy b a d) g)"
  by (rule tidy_spec [OF assms(1-3), of d]) (use assms(4) in simp)

lemma set_balance_inner: "set_balance b a d v = Ret b' \<Longrightarrow> inner b' a \<noteq> NilMap"
  by (cases "inner b a"; cases b) (auto simp: set_balance_def inner_def)

lemma withdraw_mirrors:
  assumes "separated h p" and "state_at h p = s"
  shows "mirrors p h (done_now p) (withdraw_at p i tx h) (executeWithdraw s i tx)"
proof -
  have s: "state_at h p = s\<lparr>st_Balances := st_Balances s\<rparr>" using assms(2) by simp
  show ?thesis
    unfolding withdraw_at_def executeWithdraw_def Let_def
    unfolding tidy_at_def [symmetric, unfolded Let_def] tidy_def [symmetric]
    by (intro mirrors_if mirrors_pure refl)
      (auto simp: assms evolves_refl balance_at_value
        intro!: mirrors_Ret s mirrors_put_then [where s = s] mirrors_tidy [where s = s] dest!: set_balance_inner)
qed

lemma mirrors_put_price:
  assumes "separated h p" and "state_at h p = s\<lparr>st_Prices := m\<rparr>"
  shows "mirrors p h (\<lambda>_ h m. state_at h p = s\<lparr>st_Prices := m\<rparr>) (put_price p k v h) (gm_set m k v)"
proof (cases "hs_Prices (h_states h p)")
  case None
  then have "m = NilMap" using arg_cong [OF assms(2), of st_Prices] by (simp add: state_at_def Let_def amounts_at_def)
  then show ?thesis using None by (simp add: put_price_def nil_map_def mirrors_def)
next
  case (Some r)
  then have m: "m = MkMap (h_amounts h r)" using arg_cong [OF assms(2), of st_Prices] by (simp add: state_at_def Let_def amounts_at_def)
  show ?thesis using put_price_map [OF assms(1) Some] Some m assms(2) by (simp add: put_price_def mirrors_def)
qed

lemma put_prices_mirrors:
  assumes "separated h p" and "state_at h p = s\<lparr>st_Prices := m\<rparr>"
  shows "mirrors p h (\<lambda>evs h y. fst y = evs \<and> state_at h p = s\<lparr>st_Prices := snd y\<rparr>) (put_prices p qs h) (apply_prices m qs)"
  using assms
proof (induction qs arbitrary: h m)
  case (Cons q qs)
  show ?case
  proof (cases "op_Pair q = [] \<or> op_Price q = 0")
    case False
    have "mirrors p h (\<lambda>evs h y. fst y = evs \<and> state_at h p = s\<lparr>st_Prices := snd y\<rparr>)
      (go_bind (put_price p (op_Pair q) (op_Price q) h) (\<lambda>(_, h).
         go_bind (put_prices p qs h) (\<lambda>(events, h). Ret (oracle_event q # events, h))))
      (go_bind (gm_set m (op_Pair q) (op_Price q)) (\<lambda>m.
         go_bind (apply_prices m qs) (\<lambda>(events, m). Ret (oracle_event q # events, m))))"
      by (rule mirrors_bind [OF mirrors_put_price [OF Cons.prems]], simp, rule mirrors_bind [OF Cons.IH])
        (auto simp: evolves_def intro!: mirrors_Ret evolves_refl)
    then show ?thesis using False by simp
  qed (use Cons in auto)
qed (auto intro!: mirrors_Ret evolves_refl)

lemma oracle_mirrors:
  assumes "separated h p" and "state_at h p = s"
  shows "mirrors p h (done_now p) (oracle_update_at p i tx h) (executeOracleUpdate s i tx)"
proof -
  have s: "state_at h p = s\<lparr>st_Prices := st_Prices s\<rparr>" using assms(2) by simp
  have "mirrors p h (done_now p)
      (go_bind (put_prices p qs h) (\<lambda>(events, h). Ret ((zero_TxOutcome\<lparr>txo_Index := i, txo_Code := 0, txo_Events := events\<rparr>, events), h)))
      (go_bind (apply_prices (st_Prices s) qs) (\<lambda>(events, m).
         Ret (zero_TxOutcome\<lparr>txo_Index := i, txo_Code := 0, txo_Events := events\<rparr>, events, s\<lparr>st_Prices := m\<rparr>)))" for qs
    by (rule mirrors_bind [OF put_prices_mirrors [OF assms(1) s]]) (auto simp: evolves_def intro!: mirrors_Ret evolves_refl)
  then show ?thesis
    unfolding oracle_update_at_def executeOracleUpdate_def
    by (intro mirrors_if mirrors_pure refl) (auto simp: assms evolves_refl intro!: mirrors_Ret split: sum.splits)
qed

lemma execute_mirrors:
  assumes "separated h p" and "state_at h p = s"
  shows "mirrors p h (done_now p) (execute_at grow p i tx h) (executeTx s i tx)"
  unfolding execute_at_def executeTx_def
  by (intro mirrors_if mirrors_pure refl deposit_mirrors withdraw_mirrors limit_order_mirrors oracle_mirrors assms)
    (auto simp: assms evolves_refl intro!: mirrors_Ret)

lemma execute_all_mirrors:
  assumes "separated h p" and "state_at h p = s"
  shows "mirrors p h (\<lambda>x h y. y = (fst x, snd x, state_at h p)) (execute_all_at grow p i txs h) (execute_txs s i txs)"
  using assms
proof (induction txs arbitrary: s h i)
  case (Cons tx txs)
  show ?case
    unfolding execute_all_at.simps execute_txs.simps
    by (rule mirrors_bind [OF execute_mirrors [OF Cons.prems]], clarsimp, rule mirrors_bind [OF Cons.IH])
      (auto simp: evolves_def intro!: mirrors_Ret evolves_refl)
qed (auto intro!: mirrors_Ret evolves_refl)

end
