(* ===== verification/Dex_Heap_App.thy ===== *)
theory Dex_Heap_App
  imports Dex_Heap_Refines
begin

text \<open>
  The application over the store: \<open>clone\<close> makes a copy that shares nothing, and so the handlers
  refine those over values.
\<close>

section \<open>Copies\<close>

text \<open>A second object \<open>c\<close> that shares nothing with \<open>p\<close> is changed; what is behind \<open>p\<close> stays.\<close>

definition apart :: "ref \<Rightarrow> ref \<Rightarrow> heap \<Rightarrow> bool" where
  "apart p c h \<longleftrightarrow> separated h p \<and> separated h c \<and> foot h p \<inter> foot h c = {}"

lemma apart_evolves:
  assumes "apart p c h" and "evolves c h h'"
  shows "apart p c h'" and "state_at h' p = state_at h p" and "foot h' p = foot h p"
proof -
  have fr: "frame (foot h c) h h'" "separated h p" "foot h p \<inter> foot h c = {}" using assms by (auto simp: apart_def evolves_def)
  note same = framed [OF fr]
  show "state_at h' p = state_at h p" "foot h' p = foot h p" by (rule same(1), rule same(2))
  have "foot h p \<subseteq> {..<h_lim h}" using fr(2) by (simp add: separated_def)
  then show "apart p c h'" using assms same fr(3) by (fastforce simp: apart_def evolves_def)
qed

lemma fold_fmupd: "fmlookup (fold (\<lambda>k m. fmupd k (g k) m) ks m) x = (if x \<in> set ks then Some (g x) else fmlookup m x)"
  by (induction ks arbitrary: m) auto

lemma fmupd_same: "fmlookup m k = Some v \<Longrightarrow> fmupd k v m = m"
  by (rule fmap_ext) auto

lemma put_balance_states: "put_balance p a d v h = Ret (x, h') \<Longrightarrow> h_states h' = h_states h"
  by (auto simp: put_balance_def nil_map_def split: option.splits)

lemma copy_denoms_spec:
  assumes "apart p c h" and "state_at h c = s\<lparr>st_Balances := MkMap fb\<rparr>" and "fmlookup fb a = Some (MkMap m)"
  shows "\<exists>h'. copy_denoms p c a ds h = Ret ((), h') \<and> evolves c h h' \<and> h_states h' = h_states h \<and>
    state_at h' c = s\<lparr>st_Balances := MkMap (fmupd a (MkMap (fold (\<lambda>d m. fmupd d (balance (st_Balances (state_at h p)) a d) m) ds m)) fb)\<rparr>"
  using assms
proof (induction ds arbitrary: h fb m)
  case Nil
  then show ?case by (simp add: apart_def evolves_refl fmupd_same)
next
  case (Cons d ds)
  let ?v = "balance (st_Balances (state_at h p)) a d"
  have sep: "separated h c" using Cons.prems(1) by (simp add: apart_def)
  have set: "set_balance (MkMap fb) a d ?v = Ret (MkMap (fmupd a (MkMap (fmupd d ?v m)) fb))"
    using Cons.prems(3) by (simp add: set_balance_def inner_def)
  obtain h1 where h1: "put_balance c a d ?v h = Ret ((), h1)" "evolves c h h1"
    "state_at h1 c = s\<lparr>st_Balances := MkMap (fmupd a (MkMap (fmupd d ?v m)) fb)\<rparr>"
    using mirrors_put_balance [OF sep Cons.prems(2), of a d ?v] unfolding set by (auto simp: mirrors_def)
  note ap = apart_evolves [OF Cons.prems(1) h1(2)]
  obtain h' where "copy_denoms p c a ds h1 = Ret ((), h')" "evolves c h1 h'" "h_states h' = h_states h1"
    "state_at h' c = s\<lparr>st_Balances := MkMap (fmupd a (MkMap (fold (\<lambda>d m. fmupd d (balance (st_Balances (state_at h p)) a d) m) ds (fmupd d ?v m))) fb)\<rparr>"
    using Cons.IH [OF ap(1) h1(3), of "fmupd d ?v m"] ap(2) by (auto simp: fmupd_twice)
  then show ?case using h1(1,2) put_balance_states [OF h1(1)] by (auto simp: balance_at_value intro: evolves_trans)
qed

lemma copied_amounts:
  assumes "valid_order ord"
  shows "MkMap (fold (\<lambda>d m. fmupd d (balance b a d) m) (ord l (gm_keys (inner b a))) fmempty) = present (inner b a)"
proof -
  have "fmlookup (fold (\<lambda>d m. fmupd d (balance b a d) m) (ord l (gm_keys (inner b a))) fmempty) x = fmlookup (gm_fmap (inner b a)) x" for x
    using in_gm_keys [of x "inner b a"] valid_order_set [OF assms]
    by (auto simp: fold_fmupd balance_def amount_of_def gm_get_def split: option.splits simp del: set_gm_keys)
  then show ?thesis unfolding present_def by (intro arg_cong [where f = MkMap] fmap_ext)
qed

lemma copy_accounts_spec:
  assumes "valid_order ord" and "apart p c h" and "state_at h c = s\<lparr>st_Balances := MkMap fb\<rparr>"
  shows "\<exists>h'. copy_accounts ord p c as h = Ret ((), h') \<and> evolves c h h' \<and> h_states h' = h_states h \<and>
    state_at h' c = s\<lparr>st_Balances := MkMap (fold (\<lambda>a f. fmupd a (present (inner (st_Balances (state_at h p)) a)) f) as fb)\<rparr>"
  using assms(2,3)
proof (induction as arbitrary: h fb)
  case Nil
  then show ?case by (simp add: apart_def evolves_refl)
next
  case (Cons a as)
  let ?b = "st_Balances (state_at h p)"
  have sep: "separated h c" using Cons.prems(1) by (simp add: apart_def)
  obtain r where r: "hs_Balances (h_states h c) = Some r"
    using arg_cong [OF Cons.prems(2), of st_Balances] by (cases "hs_Balances (h_states h c)") (auto simp: state_at_def Let_def balances_at_def)
  obtain h1 where h1: "make_inner c a h = Ret ((), h1)" "evolves c h h1" "h_states h1 = h_states h"
    "state_at h1 c = s\<lparr>st_Balances := MkMap (fmupd a gm_make fb)\<rparr>"
    using make_inner_map(1,2,5) [OF sep r, of a] Cons.prems(2) by auto
  note ap1 = apart_evolves [OF Cons.prems(1) h1(2)]
  have in1: "amounts_at h1 (inner_at p a h1) = inner ?b a" using inner_at_value [of h1 p a] ap1(2) by simp
  obtain h2 where h2: "copy_denoms p c a (ord ''denoms'' (gm_keys (inner ?b a))) h1 = Ret ((), h2)" "evolves c h1 h2"
    "h_states h2 = h_states h1" "state_at h2 c = s\<lparr>st_Balances := MkMap (fmupd a (present (inner ?b a)) fb)\<rparr>"
    using copy_denoms_spec [OF ap1(1) h1(4), of a fmempty "ord ''denoms'' (gm_keys (inner ?b a))"] ap1(2)
      copied_amounts [OF assms(1)] by (auto simp: gm_make_def fmupd_twice)
  note ap2 = apart_evolves [OF ap1(1) h2(2)]
  obtain h' where "copy_accounts ord p c as h2 = Ret ((), h')" "evolves c h2 h'" "h_states h' = h_states h2"
    "state_at h' c = s\<lparr>st_Balances := MkMap (fold (\<lambda>a f. fmupd a (present (inner ?b a)) f) as (fmupd a (present (inner ?b a)) fb))\<rparr>"
    using Cons.IH [OF ap2(1) h2(4)] ap1(2) ap2(2) by auto
  then show ?case using h1 h2 in1 by (auto intro: evolves_trans)
qed

lemma copy_prices_spec:
  assumes "apart p c h" and "state_at h c = s\<lparr>st_Prices := MkMap m\<rparr>" and "hs_Prices (h_states h c) = Some r" 
  shows "\<exists>h'. copy_prices p c ks h = Ret ((), h') \<and> evolves c h h' \<and>
    state_at h' c = s\<lparr>st_Prices := MkMap (fold (\<lambda>k m. fmupd k (amount_of (st_Prices (state_at h p)) k) m) ks m)\<rparr>"
  using assms
proof (induction ks arbitrary: h m)
  case Nil
  then show ?case by (simp add: apart_def evolves_refl)
next
  case (Cons k ks)
  let ?v = "amount_of (st_Prices (state_at h p)) k"
  have sep: "separated h c" using Cons.prems(1) by (simp add: apart_def)
  have v: "amount_of (amounts_at h (hs_Prices (h_states h p))) k = ?v" by (simp add: state_at_def Let_def)
  obtain h1 where h1: "put_price c k ?v h = Ret ((), h1)" "evolves c h h1" "hs_Prices (h_states h1 c) = Some r"
    "state_at h1 c = s\<lparr>st_Prices := MkMap (fmupd k ?v m)\<rparr>"
    using mirrors_put_price [OF sep Cons.prems(2), of k ?v] Cons.prems(3) by (auto simp: mirrors_def put_price_def)
  note ap = apart_evolves [OF Cons.prems(1) h1(2)]
  obtain h' where "copy_prices p c ks h1 = Ret ((), h')" "evolves c h1 h'"
    "state_at h' c = s\<lparr>st_Prices := MkMap (fold (\<lambda>k m. fmupd k (amount_of (st_Prices (state_at h p)) k) m) ks (fmupd k ?v m))\<rparr>"
    using Cons.IH [OF ap(1) h1(4,3)] ap(2) by auto
  then show ?case using h1(1,2) v by (auto intro: evolves_trans)
qed

text \<open>The four objects that \<open>clone\<close> starts with.\<close>

definition blank :: "u64 \<Rightarrow> nat \<Rightarrow> heap \<Rightarrow> heap" where
  "blank ht n h = h\<lparr>h_balances := (h_balances h)(h_lim h := fmempty), h_arrays := (h_arrays h)(h_lim h + 1 := replicate n zero_Order),
     h_amounts := (h_amounts h)(h_lim h + 2 := fmempty),
     h_states := (h_states h)(h_lim h + 3 := \<lparr>hs_Height = ht, hs_Balances = Some (h_lim h), hs_Orders = Some (h_lim h + 1, n),
       hs_Prices = Some (h_lim h + 2)\<rparr>), h_lim := h_lim h + 4\<rparr>"

lemma blank_spec:
  assumes "separated h p"
  shows "frame {} h (blank ht n h)" and "apart p (h_lim h + 3) (blank ht n h)" and "foot (blank ht n h) (h_lim h + 3) \<subseteq> {h_lim h..}"
    and "state_at (blank ht n h) (h_lim h + 3) = \<lparr>st_Height = ht, st_Balances = gm_make, st_Orders = Some (replicate n zero_Order), st_Prices = gm_make\<rparr>"
    and "state_at (blank ht n h) p = state_at h p" and "h_states (blank ht n h) p = h_states h p"
proof -
  show fr: "frame {} h (blank ht n h)" by (auto simp: frame_def agree_def blank_def)
  note same = framed [OF fr assms]
  have ft: "foot (blank ht n h) (h_lim h + 3) = {h_lim h ..< h_lim h + 4}"
    by (auto simp: foot_def inner_refs_def blank_def)
  then show "foot (blank ht n h) (h_lim h + 3) \<subseteq> {h_lim h..}" by auto
  have "foot h p \<subseteq> {..<h_lim h}" using assms by (simp add: separated_def)
  moreover have "separated (blank ht n h) (h_lim h + 3)" using ft by (auto simp: separated_def inner_refs_def) (auto simp: blank_def)
  ultimately show "apart p (h_lim h + 3) (blank ht n h)" using same ft by (auto simp: apart_def)
  show "state_at (blank ht n h) (h_lim h + 3) = \<lparr>st_Height = ht, st_Balances = gm_make, st_Orders = Some (replicate n zero_Order), st_Prices = gm_make\<rparr>"
    by (simp add: state_at_def Let_def blank_def balances_at_def orders_at_def amounts_at_def gm_make_def)
  show "state_at (blank ht n h) p = state_at h p" using same(1) by simp
  have "p < h_lim h" using assms footI(1) by (auto simp: separated_def)
  then show "h_states (blank ht n h) p = h_states h p" by (simp add: blank_def)
qed

lemma put_array:
  assumes "separated h c" and "hs_Orders (h_states h c) = Some (a, n)" and "length xs = n"
  defines "h' \<equiv> h\<lparr>h_arrays := (h_arrays h)(a := xs @ drop n (h_arrays h a))\<rparr>"
  shows "evolves c h h'" and "state_at h' c = (state_at h c)\<lparr>st_Orders := Some xs\<rparr>"
proof -
  have same: "inner_refs h' c = inner_refs h c" "foot h' c = foot h c" by (simp_all add: h'_def inner_refs_def foot_def)
  have "frame (foot h c) h h'" using footI(3) [OF assms(2)] by (simp add: frame_def h'_def agree_def)
  moreover have "separated h' c" using assms same by (simp add: separated_def h'_def)
  ultimately show "evolves c h h'" using same(2) by (simp add: evolves_def)
  have "amounts_at h' = amounts_at h" by (auto simp: h'_def amounts_at_def fun_eq_iff split: option.splits)
  then show "state_at h' c = (state_at h c)\<lparr>st_Orders := Some xs\<rparr>"
    using assms(2,3) by (simp add: state_at_def Let_def balances_at_def orders_at_def) (simp add: h'_def split: option.splits)
qed

lemma copied_balances:
  assumes "valid_order ord"
  shows "MkMap (fold (\<lambda>a f. fmupd a (present (inner b a)) f) (ord l (gm_keys b)) fmempty) = MkMap (fmmap present (gm_fmap b))"
proof -
  have "fmlookup (fold (\<lambda>a f. fmupd a (present (inner b a)) f) (ord l (gm_keys b)) fmempty) x = fmlookup (fmmap present (gm_fmap b)) x" for x
    using in_gm_keys [of x b] valid_order_set [OF assms]
    by (auto simp: fold_fmupd inner_def gm_get_def simp del: set_gm_keys)
  then show ?thesis by (intro arg_cong [where f = MkMap] fmap_ext)
qed

lemma copied_prices:
  assumes "valid_order ord"
  shows "MkMap (fold (\<lambda>k m. fmupd k (amount_of q k) m) (ord l (gm_keys q)) fmempty) = present q"
proof -
  have "fmlookup (fold (\<lambda>k m. fmupd k (amount_of q k) m) (ord l (gm_keys q)) fmempty) x = fmlookup (gm_fmap q) x" for x
    using in_gm_keys [of x q] valid_order_set [OF assms]
    by (auto simp: fold_fmupd amount_of_def gm_get_def split: option.splits simp del: set_gm_keys)
  then show ?thesis unfolding present_def by (intro arg_cong [where f = MkMap] fmap_ext)
qed

lemma clone_spec:
  assumes "valid_order ord" and "separated h p"
  obtains c h' where "clone_at ord p h = Ret (c, h')" and "frame {} h h'" and "apart p c h'" and "foot h' c \<subseteq> {h_lim h..}"
    and "state_at h' c = cloned (state_at h p)"
proof -
  let ?s = "state_at h p" and ?c = "h_lim h + 3" and ?a = "h_lim h + 1"
  let ?n = "length (elems (st_Orders ?s))"
  let ?h1 = "blank (st_Height ?s) ?n h"
  note b = blank_spec [OF assms(2), of "st_Height ?s" ?n]
  have "state_at ?h1 ?c = (state_at ?h1 ?c)\<lparr>st_Balances := MkMap fmempty\<rparr>" using b(4) by (simp add: gm_make_def)
  from copy_accounts_spec [OF assms(1) b(2) this, of "ord ''balances'' (gm_keys (st_Balances ?s))"]
  obtain h2 where h2: "copy_accounts ord p ?c (ord ''balances'' (gm_keys (st_Balances ?s))) ?h1 = Ret ((), h2)" "evolves ?c ?h1 h2"
    "h_states h2 = h_states ?h1" "state_at h2 ?c = (state_at ?h1 ?c)\<lparr>st_Balances := MkMap (fmmap present (gm_fmap (st_Balances ?s)))\<rparr>"
    using copied_balances [OF assms(1)] b(5) by auto
  note ap2 = apart_evolves [OF b(2) h2(2)]
  have o2: "hs_Orders (h_states h2 ?c) = Some (?a, ?n)" "hs_Prices (h_states h2 ?c) = Some (h_lim h + 2)"
    using h2(3) by (simp_all add: blank_def)
  let ?h3 = "h2\<lparr>h_arrays := (h_arrays h2)(?a := elems (st_Orders ?s) @ drop ?n (h_arrays h2 ?a))\<rparr>"
  have sep2: "separated h2 ?c" using ap2(1) by (simp add: apart_def)
  note h3 = put_array [OF sep2 o2(1) refl]
  note ap3 = apart_evolves [OF ap2(1) h3(1)]
  have st3: "state_at ?h3 ?c = (cloned ?s)\<lparr>st_Prices := MkMap fmempty\<rparr>"
    unfolding h3(2) h2(4) b(4) by (simp add: cloned_def gm_make_def)
  have "hs_Prices (h_states ?h3 ?c) = Some (h_lim h + 2)" using o2 by simp
  from copy_prices_spec [OF ap3(1) st3 this, of "ord ''prices'' (gm_keys (st_Prices ?s))"]
  obtain h4 where h4: "copy_prices p ?c (ord ''prices'' (gm_keys (st_Prices ?s))) ?h3 = Ret ((), h4)" "evolves ?c ?h3 h4"
    "state_at h4 ?c = (cloned ?s)\<lparr>st_Prices := present (st_Prices ?s)\<rparr>"
    using copied_prices [OF assms(1)] b(5) ap2(2) ap3(2) by auto
  have evol: "evolves ?c ?h1 h4" by (rule evolves_trans [OF evolves_trans [OF h2(2) h3(1)] h4(2)])
  have p: "st_Height ?s = hs_Height (h_states h p)" "balances_at ?h1 (hs_Balances (h_states h p)) = st_Balances ?s"
    "orders_at h (hs_Orders (h_states h p)) = st_Orders ?s"
    using b(5,6) by (auto simp: state_at_def Let_def)
  have p2: "orders_at h2 (hs_Orders (h_states h p)) = st_Orders ?s"
    using ap2(2) b(5,6) h2(3) by (auto simp: state_at_def Let_def)
  have p3: "amounts_at ?h3 (hs_Prices (h_states h p)) = st_Prices ?s"
    using ap3(2) ap2(2) b(5,6) h2(3) by (auto simp: state_at_def Let_def)
  have "clone_at ord p h = Ret (?c, h4)"
    using h2(1) h4(1) p p2 p3 unfolding clone_at_def
    by (simp add: Let_def new_balances_def new_array_def new_amounts_def new_struct_def blank_def numeral_eq_Suc)
  moreover have "frame {} h h4"
    by (rule frame_trans [OF b(1), of "foot ?h1 ?c"]) (use evol b(3) in \<open>auto simp: evolves_def\<close>)
  moreover have "apart p ?c h4" by (rule apart_evolves(1) [OF b(2) evol])
  moreover have "foot h4 ?c \<subseteq> {h_lim h..}" using evol b(3) by (fastforce simp: evolves_def blank_def)
  ultimately show ?thesis using that h4(3) by (simp add: cloned_def)
qed

section \<open>Fresh objects\<close>

lemma new_amounts_frame: "new_amounts m h = (r, h') \<Longrightarrow> frame {} h h' \<and> r = h_lim h \<and> h_lim h' = Suc r \<and> h_amounts h' r = m"
  by (auto simp: new_amounts_def frame_def agree_def)

lemma fresh_amounts_spec:
  assumes "fresh_amounts m h = (r, h')"
  shows "frame {} h h'" and "amounts_at h' r = m" and "\<And>a. r = Some a \<Longrightarrow> h_lim h \<le> a \<and> a < h_lim h'"
  using assms by (auto simp: fresh_amounts_def amounts_at_def apfst_def map_prod_def split: gomap.splits prod.splits
      dest!: new_amounts_frame)

lemma amounts_at_frame:
  assumes "frame {} h h'" and "\<And>a. r = Some a \<Longrightarrow> a < h_lim h"
  shows "amounts_at h' r = amounts_at h r"
  using assms by (auto simp: amounts_at_def frame_def agree_def split: option.splits)

lemma fresh_accounts_spec:
  assumes "fresh_accounts b as h = (m, h')" and "distinct as"
  shows "frame {} h h'" and "fmlookup (fmmap (amounts_at h') m) a = (if a \<in> set as then Some (inner b a) else None)"
    and "\<And>a r. fmlookup m a = Some (Some r) \<Longrightarrow> h_lim h \<le> r \<and> r < h_lim h'"
    and "\<And>a a' r. fmlookup m a = Some (Some r) \<Longrightarrow> fmlookup m a' = Some (Some r) \<Longrightarrow> a = a'"
proof -
  have "frame {} h h' \<and> (\<forall>a. fmlookup (fmmap (amounts_at h') m) a = (if a \<in> set as then Some (inner b a) else None)) \<and>
    (\<forall>a r. fmlookup m a = Some (Some r) \<longrightarrow> h_lim h \<le> r \<and> r < h_lim h') \<and>
    (\<forall>a a' r. fmlookup m a = Some (Some r) \<longrightarrow> fmlookup m a' = Some (Some r) \<longrightarrow> a = a')"
    using assms
  proof (induction as arbitrary: h m h')
    case (Cons x xs)
    obtain r1 h1 where 1: "fresh_amounts (inner b x) h = (r1, h1)" by fastforce
    obtain m2 where 2: "fresh_accounts b xs h1 = (m2, h')" "m = fmupd x r1 m2"
      using Cons.prems(1) 1 by (auto split: prod.splits)
    note f1 = fresh_amounts_spec [OF 1]
    have ih: "frame {} h1 h'" "\<And>a. fmlookup (fmmap (amounts_at h') m2) a = (if a \<in> set xs then Some (inner b a) else None)"
      "\<And>a r. fmlookup m2 a = Some (Some r) \<Longrightarrow> h_lim h1 \<le> r \<and> r < h_lim h'"
      "\<And>a a' r. fmlookup m2 a = Some (Some r) \<Longrightarrow> fmlookup m2 a' = Some (Some r) \<Longrightarrow> a = a'"
      using Cons.IH [OF 2(1)] Cons.prems(2) by auto
    have lims: "h_lim h \<le> h_lim h1" "h_lim h1 \<le> h_lim h'" using f1(1) ih(1) by (auto simp: frame_def)
    have "amounts_at h' r1 = inner b x" using amounts_at_frame [OF ih(1), of r1] f1(2,3) by auto
    then have "fmlookup (fmmap (amounts_at h') m) a = (if a \<in> set (x # xs) then Some (inner b a) else None)" for a
      using ih(2) [of a] 2(2) by (cases "a = x") simp_all
    moreover have "frame {} h h'" by (rule frame_trans [OF f1(1) ih(1)]) simp
    moreover have "a = a'" if "fmlookup m a = Some (Some r)" "fmlookup m a' = Some (Some r)" for a a' r
      using that 2(2) ih(3,4) f1(3) by (auto split: if_splits) (meson not_less)+
    moreover have "h_lim h \<le> r \<and> r < h_lim h'" if "fmlookup m a = Some (Some r)" for a r
      using that 2(2) ih(3) f1(3) lims by (auto split: if_splits) (meson le_trans less_le_trans)+
    ultimately show ?case by blast
  qed simp
  then show "frame {} h h'" and "fmlookup (fmmap (amounts_at h') m) a = (if a \<in> set as then Some (inner b a) else None)"
    and "\<And>a r. fmlookup m a = Some (Some r) \<Longrightarrow> h_lim h \<le> r \<and> r < h_lim h'"
    and "\<And>a a' r. fmlookup m a = Some (Some r) \<Longrightarrow> fmlookup m a' = Some (Some r) \<Longrightarrow> a = a'" by blast+
qed

lemma fresh_balances_spec:
  assumes "(case b of NilMap \<Rightarrow> (None, h)
    | MkMap _ \<Rightarrow> (case fresh_accounts b (gm_keys b) h of (m, h) \<Rightarrow> apfst Some (new_balances m h))) = (r, h')"
  shows "frame {} h h'" and "balances_at h' r = b" and "\<And>a. r = Some a \<Longrightarrow> h_lim h \<le> a \<and> a < h_lim h'"
    and "\<And>a x t. r = Some a \<Longrightarrow> fmlookup (h_balances h' a) x = Some (Some t) \<Longrightarrow> h_lim h \<le> t \<and> t < h_lim h'"
    and "\<And>a x y t. r = Some a \<Longrightarrow> fmlookup (h_balances h' a) x = Some (Some t) \<Longrightarrow> fmlookup (h_balances h' a) y = Some (Some t) \<Longrightarrow> x = y"
proof -
  have "frame {} h h' \<and> balances_at h' r = b \<and> (\<forall>a. r = Some a \<longrightarrow> h_lim h \<le> a \<and> a < h_lim h' \<and>
    (\<forall>x t. fmlookup (h_balances h' a) x = Some (Some t) \<longrightarrow> h_lim h \<le> t \<and> t < h_lim h') \<and>
    (\<forall>x y t. fmlookup (h_balances h' a) x = Some (Some t) \<longrightarrow> fmlookup (h_balances h' a) y = Some (Some t) \<longrightarrow> x = y))"
  proof (cases b)
    case NilMap
    then show ?thesis using assms by (auto simp: balances_at_def)
  next
    case (MkMap f)
    obtain m h1 where 1: "fresh_accounts b (gm_keys b) h = (m, h1)" by fastforce
    then have r: "r = Some (h_lim h1)" "h' = h1\<lparr>h_balances := (h_balances h1)(h_lim h1 := m), h_lim := Suc (h_lim h1)\<rparr>"
      using assms MkMap by (auto simp: new_balances_def)
    note f = fresh_accounts_spec [OF 1 distinct_gm_keys]
    have lim: "h_lim h \<le> h_lim h1" using f(1) by (simp add: frame_def)
    have "amounts_at h' = amounts_at h1" by (auto simp: r amounts_at_def fun_eq_iff split: option.splits)
    then have "fmlookup (fmmap (amounts_at h') m) x = fmlookup f x" for x
      using f(2) [of x] in_gm_keys [of x b] MkMap by (auto simp: inner_def split: if_splits simp del: set_gm_keys)
    then have "balances_at h' r = b" unfolding r(1) balances_at_def using MkMap by (simp add: r(2)) (rule fmap_ext, simp)
    moreover have "frame {} h h'" using f(1) lim by (auto simp: r frame_def agree_def)
    ultimately show ?thesis using f(3,4) lim by (auto simp: r) (meson less_SucI)+
  qed
  then show "frame {} h h'" and "balances_at h' r = b" and "\<And>a. r = Some a \<Longrightarrow> h_lim h \<le> a \<and> a < h_lim h'"
    and "\<And>a x t. r = Some a \<Longrightarrow> fmlookup (h_balances h' a) x = Some (Some t) \<Longrightarrow> h_lim h \<le> t \<and> t < h_lim h'"
    and "\<And>a x y t. r = Some a \<Longrightarrow> fmlookup (h_balances h' a) x = Some (Some t) \<Longrightarrow> fmlookup (h_balances h' a) y = Some (Some t) \<Longrightarrow> x = y"
    by blast+
qed

lemma fresh_orders_spec:
  assumes "(case q of None \<Rightarrow> (None, h) | Some xs \<Rightarrow> apfst (\<lambda>a. Some (a, length xs)) (new_array xs h)) = (r, h')"
  shows "frame {} h h'" and "orders_at h' r = q" and "\<And>a n. r = Some (a, n) \<Longrightarrow> h_lim h \<le> a \<and> a < h_lim h' \<and> n \<le> length (h_arrays h' a)"
  using assms by (auto simp: new_array_def orders_at_def frame_def agree_def split: option.splits)

lemma fresh_state_spec:
  assumes "fresh_state s h = (p, h')"
  shows "frame {} h h'" and "separated h' p" and "state_at h' p = s"
proof -
  obtain b h1 where 1: "(case st_Balances s of NilMap \<Rightarrow> (None, h)
      | MkMap _ \<Rightarrow> (case fresh_accounts (st_Balances s) (gm_keys (st_Balances s)) h of (m, h) \<Rightarrow> apfst Some (new_balances m h))) = (b, h1)"
    by (rule prod.exhaust)
  obtain q h2 where 2: "(case st_Orders s of None \<Rightarrow> (None, h1) | Some xs \<Rightarrow> apfst (\<lambda>a. Some (a, length xs)) (new_array xs h1)) = (q, h2)"
    by (rule prod.exhaust)
  obtain r h3 where 3: "fresh_amounts (st_Prices s) h2 = (r, h3)" by (rule prod.exhaust)
  have p: "p = h_lim h3" "h' = h3\<lparr>h_states := (h_states h3)(h_lim h3 := \<lparr>hs_Height = st_Height s, hs_Balances = b, hs_Orders = q, hs_Prices = r\<rparr>),
      h_lim := Suc (h_lim h3)\<rparr>"
    using assms unfolding fresh_state_def 1 by (auto simp: 2 3 new_struct_def)
  note f1 = fresh_balances_spec [OF 1] and f2 = fresh_orders_spec [OF 2] and f3 = fresh_amounts_spec [OF 3]
  have fr3: "frame {} h3 h'" by (auto simp: p frame_def agree_def)
  have fr1: "frame {} h1 h'" by (rule frame_trans [OF f2(1) frame_trans [OF f3(1) fr3]]) simp_all
  have fr2: "frame {} h2 h'" by (rule frame_trans [OF f3(1) fr3]) simp
  show "frame {} h h'" by (rule frame_trans [OF f1(1) fr1]) simp
  have lims: "h_lim h \<le> h_lim h1" "h_lim h1 \<le> h_lim h2" "h_lim h2 \<le> h_lim h3" "h_lim h' = Suc (h_lim h3)"
    using f1(1) f2(1) f3(1) by (auto simp: frame_def p)
  have same1: "h_balances h' a = h_balances h1 a" if "b = Some a" for a using fr1 f1(3) [OF that] by (auto simp: frame_def agree_def)
  have same2: "h_arrays h' a = h_arrays h2 a" if "q = Some (a, n)" for a n using fr2 f2(3) [OF that] by (auto simp: frame_def agree_def)
  have inner: "h_lim h \<le> t \<and> t < h_lim h1" if "t \<in> inner_refs h' p" for t
  proof -
    obtain a x where "b = Some a" "fmlookup (h_balances h' a) x = Some (Some t)" using \<open>t \<in> inner_refs h' p\<close> by (auto simp: inner_refs_def p)
    then show ?thesis using f1(4) same1 by metis
  qed
  have am: "amounts_at h' x = amounts_at h1 x" if "\<And>t. x = Some t \<Longrightarrow> t < h_lim h1" for x
    using amounts_at_frame [OF fr1] that by blast
  have "fmlookup (fmmap (amounts_at h') (h_balances h1 a)) x = fmlookup (fmmap (amounts_at h1) (h_balances h1 a)) x" if "b = Some a" for a x
    using am f1(4) [OF that, of x] by (cases "fmlookup (h_balances h1 a) x") auto
  then have "balances_at h' b = balances_at h1 b"
    using same1 by (auto simp: balances_at_def split: option.splits intro: fmap_ext)
  moreover have "orders_at h' q = orders_at h2 q" using same2 by (cases q) (auto simp: orders_at_def)
  moreover have "amounts_at h' r = amounts_at h3 r" using f3(3) by (intro amounts_at_frame [OF fr3]) auto
  ultimately show "state_at h' p = s" using f1(2) f2(2) f3(2) by (simp add: state_at_def Let_def) (simp add: p)
  show "separated h' p"
    unfolding separated_def
  proof (intro conjI allI impI)
    show "foot h' p \<subseteq> {..<h_lim h'}" using inner f1(3) f2(3) f3(3) lims by (fastforce simp: foot_def p(1) p(2) [THEN arg_cong, of h_states])
    show "x \<notin> inner_refs h' p" if "hs_Prices (h_states h' p) = Some x" for x
      using that inner [of x] f3(3) lims by (auto simp: p)
    show "n \<le> length (h_arrays h' a)" if "hs_Orders (h_states h' p) = Some (a, n)" for a n
      using that f2(3) same2 by (auto simp: p)
    show "x = y" if "hs_Balances (h_states h' p) = Some a" "fmlookup (h_balances h' a) x = Some (Some t)"
      "fmlookup (h_balances h' a) y = Some (Some t)" for a x y t
      using that f1(5) same1 by (auto simp: p)
  qed
qed

section \<open>The application\<close>

definition world_ok :: "world \<Rightarrow> bool" where
  "world_ok w \<longleftrightarrow> (\<forall>p. ha_current (fst w) = Some p \<or> ha_staged (fst w) = Some p \<longrightarrow> separated (snd w) p)"

definition represents :: "world \<Rightarrow> App \<Rightarrow> bool" where
  "represents w app \<longleftrightarrow> world_ok w \<and> observe w = app"

text \<open>Whatever happens at fresh addresses leaves all objects as they are.\<close>

lemma frame_world:
  assumes "world_ok (app, h)" and "frame {} h h'"
  shows "world_ok (app, h')" and "observe (app, h') = observe (app, h)"
  using assms framed(1,3) [OF assms(2)] by (auto simp: world_ok_def observe_def option.map_comp intro!: option.map_cong)

text \<open>
  A block on the store: up to any of its transactions it has touched fresh addresses only.
\<close>

lemma block_prefix:
  assumes "valid_order ord" and "separated h p"
  obtains c h1 outs evs s h2 where "clone_at ord p h = Ret (c, h1)" and "frame {} h h2" and "separated h2 c" and "state_at h2 c = s"
    and "execute_txs ((cloned (state_at h p))\<lparr>st_Height := ht\<rparr>) 0 txs = Ret (outs, evs, s)"
    and "execute_all_at grow c 0 txs (put_height c ht h1) = Ret ((outs, evs), h2)"
proof -
  obtain c h1 where c: "clone_at ord p h = Ret (c, h1)" "frame {} h h1" "apart p c h1" "foot h1 c \<subseteq> {h_lim h..}"
    "state_at h1 c = cloned (state_at h p)" by (rule clone_spec [OF assms])
  have sep: "separated h1 c" using c(3) by (simp add: apart_def)
  note ht = put_struct [OF sep, of ht]
  have sep2: "separated (put_height c ht h1) c" using ht(1) by (simp add: evolves_def)
  obtain outs evs s where run: "execute_txs ((cloned (state_at h p))\<lparr>st_Height := ht\<rparr>) 0 txs = Ret (outs, evs, s)"
    using execute_txs_run [OF state_ok_start] by metis
  have "mirrors c (put_height c ht h1) (\<lambda>x h y. y = (fst x, snd x, state_at h c)) (execute_all_at grow c 0 txs (put_height c ht h1))
      (execute_txs ((cloned (state_at h p))\<lparr>st_Height := ht\<rparr>) 0 txs)"
    by (rule execute_all_mirrors [OF sep2]) (simp add: ht c(5))
  then obtain h2 where h2: "execute_all_at grow c 0 txs (put_height c ht h1) = Ret ((outs, evs), h2)"
    "evolves c (put_height c ht h1) h2" "state_at h2 c = s"
    unfolding run by (auto simp: mirrors_def)
  have evol: "evolves c h1 h2" by (rule evolves_trans [OF ht(1) h2(2)])
  have "frame {} h h2" by (rule frame_trans [OF c(2), of "foot h1 c"]) (use evol c(4) in \<open>auto simp: evolves_def\<close>)
  then show ?thesis using that c(1) evol h2 run by (auto simp: evolves_def)
qed

lemma heap_Execute:
  assumes "valid_order ord"
  shows "alike represents (heap_ExecuteBlock ord grow b) (Dex_ExecuteBlock ord b)"
proof (rule alikeI)
  fix w a assume r: "represents w a"
  obtain app h where w: "w = (app, h)" by (cases w)
  show "paired represents (heap_ExecuteBlock ord grow b w) (Dex_ExecuteBlock ord b a)"
  proof (cases "ha_current app")
    case None
    then show ?thesis using r w by (auto simp: heap_ExecuteBlock_def Dex_ExecuteBlock_def represents_def observe_def)
  next
    case (Some p)
    have ok: "world_ok (app, h)" and cur: "app_current a = Some (state_at h p)"
      using r w Some by (auto simp: represents_def observe_def)
    then have sep: "separated h p" using Some by (simp add: world_ok_def)
    obtain c h1 outs evs s h2 where c: "clone_at ord p h = Ret (c, h1)" "frame {} h h2" "separated h2 c" "state_at h2 c = s"
      "execute_txs ((cloned (state_at h p))\<lparr>st_Height := fb_Height b\<rparr>) 0 (fb_Txs b) = Ret (outs, evs, s)"
      "execute_all_at grow c 0 (fb_Txs b) (put_height c (fb_Height b) h1) = Ret ((outs, evs), h2)"
      by (rule block_prefix [OF assms sep])
    note fr = frame_world [OF ok c(2)]
    have "world_ok (app\<lparr>ha_staged := Some c\<rparr>, h2)" using fr(1) c(3) by (auto simp: world_ok_def)
    moreover have "observe (app\<lparr>ha_staged := Some c\<rparr>, h2) = a\<lparr>app_staged := Some s\<rparr>"
      using fr(2) r w c(4) by (auto simp: observe_def represents_def)
    ultimately show ?thesis
      using Some c w cur clone_eq [OF assms]
      by (simp add: heap_ExecuteBlock_def Dex_ExecuteBlock_def represents_def paired_def)
  qed
qed

lemma heap_Simulation:
  assumes "valid_order ord"
  shows "alike represents (heap_Simulate ord grow tx) (Dex_Simulate ord tx)"
proof (rule alikeI)
  fix w a assume r: "represents w a"
  obtain app h where w: "w = (app, h)" by (cases w)
  show "paired represents (heap_Simulate ord grow tx w) (Dex_Simulate ord tx a)"
  proof (cases "ha_current app")
    case None
    then show ?thesis using r w by (auto simp: heap_Simulate_def Dex_Simulate_def reading_def represents_def observe_def)
  next
    case (Some p)
    have ok: "world_ok (app, h)" and cur: "app_current a = Some (state_at h p)"
      using r w Some by (auto simp: represents_def observe_def)
    then have sep: "separated h p" using Some by (simp add: world_ok_def)
    obtain c h1 where c: "clone_at ord p h = Ret (c, h1)" "frame {} h h1" "apart p c h1" "foot h1 c \<subseteq> {h_lim h..}"
      "state_at h1 c = cloned (state_at h p)" by (rule clone_spec [OF assms sep])
    have sep1: "separated h1 c" using c(3) by (simp add: apart_def)
    obtain out evs s where run: "executeTx (cloned (state_at h p)) 0 tx = Ret (out, evs, s)"
      using executeTx_run [OF state_ok_cloned] by metis
    obtain h2 where h2: "execute_at grow c 0 tx h1 = Ret ((out, evs), h2)" "evolves c h1 h2"
      using execute_mirrors [OF sep1 c(5), of grow 0 tx] unfolding run by (auto simp: mirrors_def)
    have "frame {} h h2" by (rule frame_trans [OF c(2), of "foot h1 c"]) (use h2(2) c(4) in \<open>auto simp: evolves_def\<close>)
    note fr = frame_world [OF ok this]
    show ?thesis
      using Some c(1) h2(1) w cur run clone_eq [OF assms] fr r
      by (simp add: heap_Simulate_def Dex_Simulate_def reading_def represents_def paired_def)
  qed
qed

lemma heap_Committing: "alike represents heap_Commit Dex_Commit"
  by (rule alikeI) (auto simp: heap_Commit_def Dex_Commit_def represents_def observe_def world_ok_def paired_def Let_def state_at_def
      split: option.splits prod.splits)

lemma heap_Importing: "alike represents (heap_ImportSnapshot d ch) (Dex_ImportSnapshot d ch)"
proof (rule alikeI)
  fix w a assume r: "represents w a"
  obtain app h where w: "w = (app, h)" by (cases w)
  obtain res st where i: "import_snapshot d ch = (res, st)" by fastforce
  show "paired represents (heap_ImportSnapshot d ch w) (Dex_ImportSnapshot d ch a)"
  proof (cases st)
    case None
    then show ?thesis using r i by (simp add: heap_ImportSnapshot_def Dex_ImportSnapshot_def)
  next
    case (Some s)
    obtain p h' where p: "fresh_state s h = (p, h')" by fastforce
    note f = fresh_state_spec [OF p]
    have ok: "world_ok (app, h)" using r w by (simp add: represents_def)
    note fr = frame_world [OF ok f(1)]
    have "world_ok (app\<lparr>ha_current := Some p\<rparr>, h')" using fr(1) f(2) by (auto simp: world_ok_def)
    moreover have "observe (app\<lparr>ha_current := Some p\<rparr>, h') = a\<lparr>app_current := Some s\<rparr>"
      using fr(2) r w f(3) by (auto simp: observe_def represents_def)
    ultimately show ?thesis using i Some p w by (simp add: heap_ImportSnapshot_def Dex_ImportSnapshot_def represents_def)
  qed
qed

text \<open>Handlers that change nothing over values change nothing on the store.\<close>

lemma heap_Reading:
  assumes "\<And>a. snd (m a) = a"
  shows "alike represents (just_reading m) m"
  using assms by (intro alikeI) (auto simp: just_reading_def represents_def paired_def)

lemma readers_change_nothing:
  "snd (Dex_Handshake req a) = a" "snd (Dex_CheckTx tx mctx a) = a" "snd (Dex_Query q a) = a" "snd (Dex_BuildProposal ord x a) = a"
  "snd (Dex_VerifyProposal y a) = a" "snd (Dex_ExtendVote ord v a) = a" "snd (Dex_VerifyExtension e a) = a"
  "snd (Dex_AvailableSnapshots a) = a" "snd (Dex_ExportSnapshot ht f a) = a"
  by (simp_all add: Dex_Handshake_def Dex_CheckTx_def Dex_Query_def Dex_BuildProposal_def Dex_VerifyProposal_def Dex_ExtendVote_def
      Dex_VerifyExtension_def Dex_AvailableSnapshots_def Dex_ExportSnapshot_def reading_def split: option.splits)

sublocale dex_app < store: app_refinement "dex_heap ord grow" "dex_lifecycle ord" represents for grow
  by unfold_locales
    (simp_all add: dex_heap_def dex_lifecycle_def tables_alike heap_Reading readers_change_nothing heap_Committing heap_Importing
      heap_Execute [OF valid] heap_Simulation [OF valid])

lemma represents_New: "represents heap_New Dex_New"
proof -
  obtain p h where p: "fresh_state newState empty_heap = (p, h)" by fastforce
  show ?thesis using fresh_state_spec [OF p]
    by (simp add: heap_New_def p represents_def world_ok_def observe_def Dex_New_def)
qed

context dex_app
begin

lemma store_session:
  "fst (serve_all xs (New (dex_heap ord grow) heap_New)) = fst (serve_all xs (New (dex_lifecycle ord) Dex_New))"
  "represents (s_state (snd (serve_all xs (New (dex_heap ord grow) heap_New)))) (s_state (snd (serve_all xs (New (dex_lifecycle ord) Dex_New))))"
  by (rule store.same_replies [OF represents_New])+

end

section \<open>Properties\<close>

text \<open>
  C8. The order book with its pointers, maps and arrays on a store behaves like the one over
  values: through a server, any sequence of calls gets the same replies, and what is behind
  the pointers to the committed and the staged state are the states of the values. It does
  not matter how much room \<open>append\<close> reserves or in which order maps are visited.
\<close>

theorem heap_refines_values:
  assumes "valid_order ord"
  shows "fst (serve_all xs (New (dex_heap ord grow) heap_New)) = fst (serve_all xs (New (dex_lifecycle ord) Dex_New)) \<and>
     observe (s_state (snd (serve_all xs (New (dex_heap ord grow) heap_New)))) = s_state (snd (serve_all xs (New (dex_lifecycle ord) Dex_New)))"
  using dex_app.store_session [OF dex_app.intro [OF assms], of xs grow] by (simp add: represents_def)

theorem heap_refines_values_witness:
  "let xs = [ECHandshake \<lparr>hq_LastCommitted = None, hq_Genesis = None\<rparr>, ECExecuteBlock (MakeBlock 1 [DepositTx (TestAddress 1) 7 ''ETH'']),
       ECQuery \<lparr>sq_Path = ''/orders'', sq_Data = [], sq_Height = None, sq_Prove = False\<rparr>, ECCommit] in
   fst (serve_all xs (New (dex_heap (\<lambda>l ks. rev ks) (\<lambda>n. n)) heap_New)) = fst (serve_all xs (New (dex_lifecycle (\<lambda>l ks. rev ks)) Dex_New))"
  unfolding Let_def by (rule conjunct1 [OF heap_refines_values]) (simp add: valid_order_def)

text \<open>
  C24. Blocks are executed beside the committed state: after any sequence of calls, when a block
  has been executed up to any of its transactions, a reader of \<open>app.current\<close> finds the
  committed state as it was, also right after the copy was made, and the copy is another object.
\<close>

theorem committed_state_untouched:
  assumes "valid_order ord" and "w = s_state (snd (serve_all xs (New (dex_heap ord grow) heap_New)))" and "ha_current (fst w) = Some p"
  shows "\<exists>c h1 r h2. clone_at ord p (snd w) = Ret (c, h1) \<and>
     execute_all_at grow c 0 (take k (fb_Txs b)) (put_height c (fb_Height b) h1) = Ret (r, h2) \<and>
     c \<noteq> p \<and> state_at h1 p = state_at (snd w) p \<and> state_at h2 p = state_at (snd w) p"
proof -
  have "world_ok w" using dex_app.store_session(2) [OF dex_app.intro [OF assms(1)], of xs grow] assms(2) by (simp add: represents_def)
  then have sep: "separated (snd w) p" using assms(3) by (simp add: world_ok_def)
  obtain c h1 where c: "clone_at ord p (snd w) = Ret (c, h1)" "frame {} (snd w) h1" "foot h1 c \<subseteq> {h_lim (snd w)..}"
    by (rule clone_spec [OF assms(1) sep])
  obtain r h2 where "execute_all_at grow c 0 (take k (fb_Txs b)) (put_height c (fb_Height b) h1) = Ret (r, h2)" "frame {} (snd w) h2"
    by (rule block_prefix [OF assms(1) sep, of "fb_Height b" "take k (fb_Txs b)" grow]) (use c(1) in auto)
  moreover have "c \<noteq> p" using c(3) footI(1) [of c h1] footI(1) [of p "snd w"] sep by (force simp: separated_def)
  ultimately show ?thesis using c(1) framed(1) [OF c(2) sep] framed(1) [OF _ sep] by auto
qed

theorem committed_state_untouched_witness:
  "\<exists>c h1 r h2. clone_at (\<lambda>l ks. rev ks) 2 (snd heap_New) = Ret (c, h1) \<and>
     execute_all_at (\<lambda>n. n) c 0 [DepositTx (TestAddress 1) 7 ''ETH''] (put_height c 1 h1) = Ret (r, h2) \<and>
     c \<noteq> 2 \<and> state_at h2 2 = state_at (snd heap_New) 2"
proof -
  have New: "ha_current (fst heap_New) = Some 2" by code_simp
  have "valid_order (\<lambda>l ks. rev ks)" by (simp add: valid_order_def)
  from committed_state_untouched [OF this, of heap_New "[]" "\<lambda>n. n" 2 1 "MakeBlock 1 [DepositTx (TestAddress 1) 7 ''ETH'']"] New
  show ?thesis by (simp add: New_def MakeBlock_def Let_def) blast
qed

end
