(* ===== verification/App_Locks.thy ===== *)
theory App_Locks
  imports Prelude
begin

text \<open>
  Handlers of an application that guards its fields with a \<^verbatim>\<open>sync.RWMutex\<close>, as programs whose
  steps interleave. A program is a tree of instructions: lock operations, and reads and
  writes of the two halves of the object, the published fields, which the lock protects, and
  the staging area, which belongs to the sequential calls. The mutex prefers writers: once a
  goroutine has called \<open>Lock\<close>, further readers wait. The locale \<open>locked_app\<close> asks that
  programs keep a discipline, and shows that interleaved programs then take effect one
  after the other, each as a whole when it gets the lock; \<open>live_app\<close> adds what makes all of
  them return.
\<close>

section \<open>Definitions\<close>

record RWMutex =
  rw_readers :: nat
  rw_writer :: bool

record ('p, 'q) locked =
  lk_mu :: RWMutex
  lk_fields :: 'p
  lk_staged :: 'q

text \<open>\<open>Acquire\<close> is the second half of \<open>Lock\<close>: wait for the readers that are still there.\<close>

datatype ('p, 'q, 'r) prog =
    Return 'r
  | RLock "('p, 'q, 'r) prog"
  | RUnlock "('p, 'q, 'r) prog"
  | Lock "('p, 'q, 'r) prog"
  | Acquire "('p, 'q, 'r) prog"
  | Unlock "('p, 'q, 'r) prog"
  | Load "'p \<Rightarrow> ('p, 'q, 'r) prog"
  | Store "'p \<Rightarrow> 'p" "('p, 'q, 'r) prog"
  | LoadStaged "'q \<Rightarrow> ('p, 'q, 'r) prog"
  | StoreStaged "'q \<Rightarrow> 'q" "('p, 'q, 'r) prog"

definition free_mutex :: RWMutex where
  "free_mutex = \<lparr>rw_readers = 0, rw_writer = False\<rparr>"

definition set_readers :: "nat \<Rightarrow> ('p, 'q) locked \<Rightarrow> ('p, 'q) locked" where
  "set_readers n ob = ob\<lparr>lk_mu := (lk_mu ob)\<lparr>rw_readers := n\<rparr>\<rparr>"

definition set_writer :: "bool \<Rightarrow> ('p, 'q) locked \<Rightarrow> ('p, 'q) locked" where
  "set_writer b ob = ob\<lparr>lk_mu := (lk_mu ob)\<lparr>rw_writer := b\<rparr>\<rparr>"

text \<open>One instruction; \<open>None\<close> if the program has returned or has to wait.\<close>

fun instr :: "('p, 'q, 'r) prog \<Rightarrow> ('p, 'q) locked \<Rightarrow> (('p, 'q, 'r) prog \<times> ('p, 'q) locked) option" where
  "instr (Return r) ob = None"
| "instr (RLock P) ob = (if rw_writer (lk_mu ob) then None else Some (P, set_readers (rw_readers (lk_mu ob) + 1) ob))"
| "instr (RUnlock P) ob = (if rw_readers (lk_mu ob) = 0 then None else Some (P, set_readers (rw_readers (lk_mu ob) - 1) ob))"
| "instr (Lock P) ob = (if rw_writer (lk_mu ob) then None else Some (Acquire P, set_writer True ob))"
| "instr (Acquire P) ob = (if rw_readers (lk_mu ob) = 0 then Some (P, ob) else None)"
| "instr (Unlock P) ob = Some (P, set_writer False ob)"
| "instr (Load k) ob = Some (k (lk_fields ob), ob)"
| "instr (Store f P) ob = Some (P, ob\<lparr>lk_fields := f (lk_fields ob)\<rparr>)"
| "instr (LoadStaged k) ob = Some (k (lk_staged ob), ob)"
| "instr (StoreStaged f P) ob = Some (P, ob\<lparr>lk_staged := f (lk_staged ob)\<rparr>)"

fun returned :: "('p, 'q, 'r) prog \<Rightarrow> bool" where
  "returned (Return r) = True"
| "returned P = False"

text \<open>
  A pool of goroutines and the object. A call starts at any time; the sequential ones
  (\<open>sq\<close>), which a server keeps apart by its own mutex, only when no other is under way, and
  when the staging area allows it (\<open>may\<close>).
\<close>

type_synonym ('c, 'p, 'q, 'r) pool = "('c \<times> ('p, 'q, 'r) prog) multiset \<times> ('p, 'q) locked"

inductive go_on :: "('c, 'p, 'q, 'r) pool \<Rightarrow> ('c, 'p, 'q, 'r) pool \<Rightarrow> bool" where
  "instr P ob = Some (P', ob') \<Longrightarrow> go_on (add_mset (x, P) M, ob) (add_mset (x, P') M, ob')"

inductive_cases go_onE: "go_on (M, ob) (M', ob')"

inductive happens :: "('c \<Rightarrow> ('p, 'q, 'r) prog) \<Rightarrow> ('c \<Rightarrow> bool) \<Rightarrow> ('c \<Rightarrow> 'q \<Rightarrow> bool) \<Rightarrow>
    ('c, 'p, 'q, 'r) pool \<Rightarrow> ('c, 'p, 'q, 'r) pool \<Rightarrow> bool" for handler sq may where
  none: "happens handler sq may c c"
| move: "happens handler sq may c d \<Longrightarrow> go_on d e \<Longrightarrow> happens handler sq may c e"
| start: "happens handler sq may c (M, ob) \<Longrightarrow>
    (sq x \<Longrightarrow> may x (lk_staged ob) \<and> (\<forall>(y, P)\<in>#M. sq y \<longrightarrow> returned P)) \<Longrightarrow>
    happens handler sq may c (add_mset (x, handler x) M, ob)"

text \<open>
  A program run from beginning to end: its reply, whether it returned with a lock in its
  hands, and what it leaves behind.
\<close>

primrec run :: "('p, 'q, 'r) prog \<Rightarrow> bool \<Rightarrow> 'p \<times> 'q \<Rightarrow> ('r \<times> bool) \<times> 'p \<times> 'q" where
  "run (Return r) held s = ((r, held), s)"
| "run (RLock P) held s = run P True s"
| "run (RUnlock P) held s = run P False s"
| "run (Lock P) held s = run P True s"
| "run (Acquire P) held s = run P True s"
| "run (Unlock P) held s = run P False s"
| "run (Load k) held s = run (k (fst s)) held s"
| "run (Store f P) held s = run P held (f (fst s), snd s)"
| "run (LoadStaged k) held s = run (k (snd s)) held s"
| "run (StoreStaged f P) held s = run P held (fst s, f (snd s))"

fun run_all :: "('c \<Rightarrow> ('p, 'q, 'r) prog) \<Rightarrow> 'c list \<Rightarrow> 'p \<times> 'q \<Rightarrow> ('r \<times> bool) list \<times> 'p \<times> 'q" where
  "run_all handler [] s = ([], s)"
| "run_all handler (x # xs) s =
     (case run (handler x) False s of (r, s) \<Rightarrow> apfst (Cons r) (run_all handler xs s))"

text \<open>The calls of a pool, and the replies of those that have returned.\<close>

fun reply_of :: "('p, 'q, 'r) prog \<Rightarrow> 'r option" where
  "reply_of (Return r) = Some r"
| "reply_of P = None"

definition answers :: "('c \<times> ('p, 'q, 'r) prog) multiset \<Rightarrow> ('c \<times> 'r) multiset" where
  "answers M = image_mset (\<lambda>(x, P). (x, the (reply_of P))) {#t \<in># M. returned (snd t)#}"

definition all_returned :: "('c \<times> ('p, 'q, 'r) prog) multiset \<Rightarrow> bool" where
  "all_returned M \<longleftrightarrow> (\<forall>(x, P)\<in>#M. returned P)"

section \<open>The discipline\<close>

text \<open>
  Where a program stands: before its critical section, waiting for readers, inside as reader
  or writer, or after it. Published fields are read inside only and written by writers only;
  the staging area is touched by sequential calls only.
\<close>

datatype mode = Before | Waiting | Reading | Writing | After

fun inside :: "mode \<Rightarrow> bool" where
  "inside Reading = True" | "inside Writing = True" | "inside m = False"

fun in_effect :: "mode \<Rightarrow> bool" where
  "in_effect Before = False" | "in_effect Waiting = False" | "in_effect m = True"

primrec keeps :: "('p, 'q, 'r) prog \<Rightarrow> bool \<Rightarrow> mode \<Rightarrow> bool" where
  "keeps (Return r) q m = in_effect m"
| "keeps (RLock P) q m = (m = Before \<and> keeps P q Reading)"
| "keeps (RUnlock P) q m = (m = Reading \<and> keeps P q After)"
| "keeps (Lock P) q m = (m = Before \<and> keeps P q Writing)"
| "keeps (Acquire P) q m = (m = Waiting \<and> keeps P q Writing)"
| "keeps (Unlock P) q m = (m = Writing \<and> keeps P q After)"
| "keeps (Load k) q m = (inside m \<and> (\<forall>v. keeps (k v) q m))"
| "keeps (Store f P) q m = (m = Writing \<and> keeps P q m)"
| "keeps (LoadStaged k) q m = (q \<and> in_effect m \<and> (\<forall>v. keeps (k v) q m))"
| "keeps (StoreStaged f P) q m = (q \<and> in_effect m \<and> keeps P q m)"

fun mode_after :: "('p, 'q, 'r) prog \<Rightarrow> mode \<Rightarrow> mode" where
  "mode_after (RLock P) m = Reading" | "mode_after (RUnlock P) m = After" | "mode_after (Lock P) m = Waiting"
| "mode_after (Acquire P) m = Writing" | "mode_after (Unlock P) m = After" | "mode_after P m = m"

text \<open>A bound on the instructions of a program, whatever it reads.\<close>

primrec within :: "('p, 'q, 'r) prog \<Rightarrow> nat \<Rightarrow> bool" where
  "within (Return r) n = True"
| "within (RLock P) n = (1 \<le> n \<and> within P (n - 1))"
| "within (RUnlock P) n = (1 \<le> n \<and> within P (n - 1))"
| "within (Lock P) n = (2 \<le> n \<and> within P (n - 2))"
| "within (Acquire P) n = (1 \<le> n \<and> within P (n - 1))"
| "within (Unlock P) n = (1 \<le> n \<and> within P (n - 1))"
| "within (Load k) n = (1 \<le> n \<and> (\<forall>v. within (k v) (n - 1)))"
| "within (Store f P) n = (1 \<le> n \<and> within P (n - 1))"
| "within (LoadStaged k) n = (1 \<le> n \<and> (\<forall>v. within (k v) (n - 1)))"
| "within (StoreStaged f P) n = (1 \<le> n \<and> within P (n - 1))"

definition disciplined :: "('p, 'q, 'r) prog \<Rightarrow> bool \<Rightarrow> bool" where
  "disciplined P q \<longleftrightarrow> returned P \<or> keeps P q Before"

lemma prog_induct [case_names Return RLock RUnlock Lock Acquire Unlock Load Store LoadStaged StoreStaged]:
  assumes "\<And>r. Q (Return r)" and "\<And>P. Q P \<Longrightarrow> Q (RLock P)" and "\<And>P. Q P \<Longrightarrow> Q (RUnlock P)"
    and "\<And>P. Q P \<Longrightarrow> Q (Lock P)" and "\<And>P. Q P \<Longrightarrow> Q (Acquire P)" and "\<And>P. Q P \<Longrightarrow> Q (Unlock P)"
    and "\<And>k. (\<And>v. Q (k v)) \<Longrightarrow> Q (Load k)" and "\<And>f P. Q P \<Longrightarrow> Q (Store f P)"
    and "\<And>k. (\<And>v. Q (k v)) \<Longrightarrow> Q (LoadStaged k)" and "\<And>f P. Q P \<Longrightarrow> Q (StoreStaged f P)"
  shows "Q P"
  by (rule prog.induct) (auto intro: assms)

lemma returned_iff: "returned P \<longleftrightarrow> (\<exists>r. P = Return r)"
  by (cases P) auto

lemma keeps_returned: "keeps P q m \<Longrightarrow> returned P \<Longrightarrow> in_effect m"
  by (auto simp: returned_iff)

lemma size_filter_0: "{#x \<in># M. Q x#} = {#} \<longleftrightarrow> (\<forall>x\<in>#M. \<not> Q x)"
  by (induction M) auto

lemma size_filter_none: "\<forall>x\<in>#M. \<not> Q x \<Longrightarrow> size {#x \<in># M. Q x#} = 0"
  using size_filter_0 [of Q M] by simp

lemma size_filter_some: "x \<in># M \<Longrightarrow> Q x \<Longrightarrow> size {#x \<in># M. Q x#} \<noteq> 0"
  by (induction M) auto

text \<open>What a program does depends on what it may read, and changes what it may write.\<close>

lemma keeps_fields: "keeps P q m \<Longrightarrow> m = Reading \<or> m = After \<Longrightarrow> fst (snd (run P b s)) = fst s"
  by (induction P arbitrary: m b s rule: prog_induct) (auto, blast+)

lemma keeps_After: "keeps P q After \<Longrightarrow> run P b (p', t) = (fst (run P b (p, t)), p', snd (snd (run P b (p, t))))"
  by (induction P arbitrary: b t rule: prog_induct) auto

lemma keeps_staged: "keeps P False m \<Longrightarrow> run P b (p, t') = (fst (run P b (p, t)), fst (snd (run P b (p, t))), t')"
  by (induction P arbitrary: m b p rule: prog_induct) (auto, blast)

section \<open>One lock, one order\<close>

text \<open>
  A goroutine with what is known of it: its mode, and its reply once that is decided, namely
  when it gets the lock.
\<close>

type_synonym ('c, 'p, 'q, 'r) ghost = "'c \<times> ('p, 'q, 'r) prog \<times> mode \<times> 'r \<times> bool"

definition now :: "('p, 'q) locked \<Rightarrow> 'p \<times> 'q" where
  "now ob = (lk_fields ob, lk_staged ob)"

abbreviation rest :: "('p, 'q) locked \<Rightarrow> ('p, 'q, 'r) prog \<Rightarrow> mode \<Rightarrow> ('r \<times> bool) \<times> 'p \<times> 'q" where
  "rest ob P m \<equiv> run P (inside m) (now ob)"

locale locked_app =
  fixes handler :: "'c \<Rightarrow> ('p, 'q, 'r) prog" and sq :: "'c \<Rightarrow> bool" and may :: "'c \<Rightarrow> 'q \<Rightarrow> bool"
  assumes discipline: "disciplined (handler x) (sq x)"
begin

definition known :: "('p, 'q) locked \<Rightarrow> ('c, 'p, 'q, 'r) ghost \<Rightarrow> bool" where
  "known ob g = (case g of (x, P, m, r) \<Rightarrow>
     keeps P (sq x) m \<and> (in_effect m \<longrightarrow> fst (rest ob P m) = r) \<and>
     (m = Before \<longrightarrow> P = handler x) \<and> (m = Waiting \<longrightarrow> (\<exists>P'. P = Acquire P' \<and> handler x = Lock P')) \<and>
     (sq x \<and> \<not> in_effect m \<longrightarrow> may x (lk_staged ob)))"

definition active :: "('c, 'p, 'q, 'r) ghost \<Rightarrow> bool" where
  "active g = (case g of (x, P, m, r) \<Rightarrow> sq x \<and> \<not> returned P)"

definition mode_of :: "('c, 'p, 'q, 'r) ghost \<Rightarrow> mode" where
  "mode_of g = (case g of (x, P, m, r) \<Rightarrow> m)"

definition wanting :: "('c, 'p, 'q, 'r) ghost \<Rightarrow> bool" where
  "wanting g \<longleftrightarrow> mode_of g = Waiting \<or> mode_of g = Writing"

text \<open>What the published fields and the staging area will be once the goroutine under way is done.\<close>

definition fields_due :: "('p, 'q) locked \<Rightarrow> 'p \<Rightarrow> ('c, 'p, 'q, 'r) ghost \<Rightarrow> bool" where
  "fields_due ob p g = (case g of (x, P, m, r) \<Rightarrow> m = Writing \<longrightarrow> fst (snd (rest ob P m)) = p)"

definition staged_due :: "('p, 'q) locked \<Rightarrow> 'q \<Rightarrow> ('c, 'p, 'q, 'r) ghost \<Rightarrow> bool" where
  "staged_due ob t g = (case g of (x, P, m, r) \<Rightarrow> active g \<and> in_effect m \<longrightarrow> snd (snd (rest ob P m)) = t)"

definition accords :: "('p, 'q) locked \<Rightarrow> ('c, 'p, 'q, 'r) ghost multiset \<Rightarrow> 'p \<times> 'q \<Rightarrow> bool" where
  "accords ob G s \<longleftrightarrow>
     (\<forall>g\<in>#G. known ob g \<and> fields_due ob (fst s) g \<and> staged_due ob (snd s) g) \<and>
     ((\<forall>g\<in>#G. mode_of g \<noteq> Writing) \<longrightarrow> fst s = lk_fields ob) \<and>
     ((\<forall>g\<in>#G. active g \<longrightarrow> \<not> in_effect (mode_of g)) \<longrightarrow> snd s = lk_staged ob)"

definition excludes :: "('p, 'q) locked \<Rightarrow> ('c, 'p, 'q, 'r) ghost multiset \<Rightarrow> bool" where
  "excludes ob G \<longleftrightarrow>
     rw_readers (lk_mu ob) = size {#g \<in># G. mode_of g = Reading#} \<and>
     size {#g \<in># G. wanting g#} = of_bool (rw_writer (lk_mu ob)) \<and>
     (\<forall>g\<in>#G. mode_of g = Writing \<longrightarrow> rw_readers (lk_mu ob) = 0) \<and>
     size {#g \<in># G. active g#} \<le> 1"

lemma excludesD:
  assumes "excludes ob G"
  shows "rw_readers (lk_mu ob) = size {#g \<in># G. mode_of g = Reading#}"
    and "size {#g \<in># G. wanting g#} = of_bool (rw_writer (lk_mu ob))"
  using assms unfolding excludes_def by blast+

lemmas ghost_defs = mode_of_def active_def wanting_def

text \<open>A goroutine is not affected by changes of what the discipline keeps from it.\<close>

lemma unaffected:
  assumes "known ob g" and "lk_fields ob' = lk_fields ob \<or> \<not> inside (mode_of g)"
    and "lk_staged ob' = lk_staged ob \<or> \<not> active g"
  shows "known ob' g" and "fields_due ob p g \<Longrightarrow> fields_due ob' p g" and "staged_due ob t g \<Longrightarrow> staged_due ob' t g"
proof -
  obtain x P m r where g: "g = (x, P, m, r)" by (cases g)
  have k: "keeps P (sq x) m" and r: "in_effect m \<longrightarrow> fst (rest ob P m) = r" using assms(1) by (auto simp: known_def g)
  have same: "fst (rest ob' P m) = fst (rest ob P m) \<and>
      (m = Writing \<longrightarrow> fst (snd (rest ob' P m)) = fst (snd (rest ob P m))) \<and>
      (active g \<longrightarrow> snd (snd (rest ob' P m)) = snd (snd (rest ob P m)))" if d: "in_effect m"
  proof (cases "returned P")
    case True
    then show ?thesis using assms(2) by (cases P) (auto simp: now_def active_def g mode_of_def)
  next
    case False
    have f: "lk_fields ob' = lk_fields ob \<or> m = After" using assms(2) d by (cases m) (auto simp: g mode_of_def)
    have t: "lk_staged ob' = lk_staged ob \<or> \<not> sq x" using assms(3) False by (auto simp: g active_def)
    let ?mid = "run P (inside m) (lk_fields ob, lk_staged ob')"
    have "fst (rest ob' P m) = fst ?mid \<and> snd (snd (rest ob' P m)) = snd (snd ?mid) \<and>
        (m = Writing \<longrightarrow> fst (snd (rest ob' P m)) = fst (snd ?mid))"
      using f k keeps_After [of P "sq x" "inside m" "lk_fields ob'" "lk_staged ob'" "lk_fields ob"] by (auto simp: now_def)
    moreover have "fst ?mid = fst (rest ob P m) \<and> fst (snd ?mid) = fst (snd (rest ob P m)) \<and>
        (sq x \<longrightarrow> snd (snd ?mid) = snd (snd (rest ob P m)))"
      using t k keeps_staged [of P m "inside m" "lk_fields ob" "lk_staged ob'" "lk_staged ob"] by (auto simp: now_def)
    ultimately show ?thesis by (auto simp: active_def g)
  qed
  show "known ob' g" using assms(1,3) same r keeps_returned [OF k] by (auto simp: known_def g active_def mode_of_def)
  show "fields_due ob p g \<Longrightarrow> fields_due ob' p g" using same by (auto simp: fields_due_def g)
  show "staged_due ob t g \<Longrightarrow> staged_due ob' t g" using same by (auto simp: staged_due_def g)
qed

lemma excludes_others:
  assumes "excludes ob (add_mset g G)"
  shows "mode_of g = Writing \<Longrightarrow> \<forall>h\<in>#G. \<not> inside (mode_of h)"
    and "active g \<Longrightarrow> \<forall>h\<in>#G. \<not> active h"
    and "wanting g \<or> \<not> rw_writer (lk_mu ob) \<Longrightarrow> \<forall>h\<in>#G. mode_of h \<noteq> Writing"
proof -
  show w: "\<forall>h\<in>#G. mode_of h \<noteq> Writing" if "wanting g \<or> \<not> rw_writer (lk_mu ob)"
    using assms that by (auto simp: excludes_def wanting_def size_filter_0 of_bool_def split: if_splits)
  show "\<forall>h\<in>#G. \<not> inside (mode_of h)" if "mode_of g = Writing"
  proof
    fix h assume h: "h \<in># G"
    have "{#h \<in># G. mode_of h = Reading#} = {#}" using assms that by (auto simp: excludes_def)
    then have "mode_of h \<noteq> Reading" using h by (simp only: size_filter_0) blast
    then show "\<not> inside (mode_of h)" using w that h by (cases "mode_of h") (auto simp: wanting_def)
  qed
  show "\<forall>h\<in>#G. \<not> active h" if "active g"
    using assms that by (auto simp: excludes_def size_filter_0)
qed

lemma accords_others:
  assumes "accords ob (add_mset g G) s" and "h \<in># G" and "lk_fields ob' = lk_fields ob \<or> \<not> inside (mode_of h)"
    and "lk_staged ob' = lk_staged ob \<or> \<not> active h"
  shows "known ob' h" and "fields_due ob' (fst s) h" and "staged_due ob' (snd s) h"
  using unaffected [of ob h ob'] assms by (simp_all add: accords_def)

text \<open>A goroutine past its lock goes on: what it will reply and leave behind stays the same.\<close>

lemma goes_on:
  assumes "accords ob (add_mset (x, P, m, r) G) s" and "excludes ob (add_mset (x, P, m, r) G)" and "in_effect m"
    and "rest ob' P' m' = rest ob P m" and "keeps P' (sq x) m'" and "in_effect m'"
    and "m = Writing \<or> lk_fields ob' = lk_fields ob" and "active (x, P, m, r) \<or> lk_staged ob' = lk_staged ob"
    and "\<not> returned P" and "m' = m \<or> m' = After"
  shows "accords ob' (add_mset (x, P', m', r) G) s"
proof -
  note out = excludes_others [OF assms(2)]
  have g: "known ob (x, P, m, r)" "fields_due ob (fst s) (x, P, m, r)" "staged_due ob (snd s) (x, P, m, r)"
    using assms(1) by (auto simp: accords_def)
  have "known ob' h \<and> fields_due ob' (fst s) h \<and> staged_due ob' (snd s) h" if "h \<in># G" for h
    using accords_others [OF assms(1) that, of ob'] assms(7,8) out(1,2) that by (auto simp: mode_of_def)
  moreover have "known ob' (x, P', m', r)" using g(1) assms(3-6) by (auto simp: known_def)
  moreover have "fields_due ob' (fst s) (x, P', m', r)" using g(2) assms(4,10) by (auto simp: fields_due_def)
  moreover have "staged_due ob' (snd s) (x, P', m', r)"
    using g(3) assms(3,4,9) by (auto simp: staged_due_def active_def)
  moreover have "fst s = lk_fields ob'" if "\<forall>h\<in>#add_mset (x, P', m', r) G. mode_of h \<noteq> Writing"
  proof (cases "m = Writing")
    case True
    then have "m' = After" using that assms(10) by (auto simp: mode_of_def)
    then show ?thesis using g(2) assms(4,5) True keeps_fields [of P' "sq x" m' "inside m'" "now ob'"]
      by (simp add: fields_due_def now_def)
  next
    case False
    then show ?thesis using that assms(1,7) by (auto simp: accords_def mode_of_def)
  qed
  moreover have "snd s = lk_staged ob'" if idle: "\<forall>h\<in>#add_mset (x, P', m', r) G. active h \<longrightarrow> \<not> in_effect (mode_of h)"
  proof (cases "sq x")
    case True
    then obtain v where "P' = Return v"
      using bspec [OF idle, of "(x, P', m', r)"] assms(6) by (auto simp: ghost_defs returned_iff)
    then show ?thesis using g(3) True assms(3,4,9) by (cases "rest ob P m") (auto simp: staged_due_def active_def now_def)
  next
    case False
    then show ?thesis using idle assms(1,8) by (auto simp: accords_def ghost_defs)
  qed
  ultimately show ?thesis by (auto simp: accords_def)
qed

text \<open>A goroutine gets the lock: it takes effect as a whole, then and there.\<close>

lemma effect_rest:
  assumes "fst s = lk_fields ob" and "sq x \<Longrightarrow> snd s = lk_staged ob" and "keeps P (sq x) m" and "inside m"
  shows "fst (run P True s) = fst (rest ob P m)" and "fst (snd (run P True s)) = fst (snd (rest ob P m))"
    and "snd (snd (run P True s)) = (if sq x then snd (snd (rest ob P m)) else snd s)"
proof -
  have s: "s = (lk_fields ob, snd s)" using assms(1) by (cases s) simp
  have "run P True s = (if sq x then rest ob P m else (fst (rest ob P m), fst (snd (rest ob P m)), snd s))"
  proof (cases "sq x")
    case True
    then have "s = now ob" using s assms(2) by (simp add: now_def)
    then show ?thesis using True assms(4) by simp
  next
    case False
    then have "keeps P False m" using assms(3) by simp
    from keeps_staged [OF this, of True "lk_fields ob" "snd s" "lk_staged ob"] s
    show ?thesis using False assms(4) by (simp add: now_def)
  qed
  then show "fst (run P True s) = fst (rest ob P m)" "fst (snd (run P True s)) = fst (snd (rest ob P m))"
    "snd (snd (run P True s)) = (if sq x then snd (snd (rest ob P m)) else snd s)" by simp_all
qed

lemma takes_effect:
  assumes "accords ob (add_mset (x, P, m, r) G) s" and "excludes ob (add_mset (x, P, m, r) G)" and "\<not> in_effect m"
    and "now ob' = now ob" and "keeps P' (sq x) m'" and "inside m'" and "\<forall>h\<in>#G. mode_of h \<noteq> Writing"
    and "run P' True s = (r', s')"
  shows "accords ob' (add_mset (x, P', m', r') G) s'"
proof -
  have g: "known ob (x, P, m, r)" using assms(1) by (auto simp: accords_def)
  have live: "\<not> returned P" using g assms(3) keeps_returned [of P "sq x" m] by (auto simp: known_def)
  have same: "lk_fields ob' = lk_fields ob" "lk_staged ob' = lk_staged ob" using assms(4) by (auto simp: now_def)
  have m: "m \<noteq> Writing" "in_effect m'" using assms(3,6) by (auto elim: inside.elims)
  have f: "fst s = lk_fields ob" using assms(1,7) m(1) by (auto simp: accords_def mode_of_def)
  have alone: "\<forall>h\<in>#G. \<not> active h" if "sq x"
    using excludes_others(2) [OF assms(2)] that live by (auto simp: active_def)
  have t: "snd s = lk_staged ob" if "sq x" using assms(1,3) alone [OF that] by (auto simp: accords_def mode_of_def)
  have rest: "r' = fst (rest ob' P' m')" "fst s' = fst (snd (rest ob' P' m'))"
    "snd s' = (if sq x then snd (snd (rest ob' P' m')) else snd s)"
    using effect_rest [of s ob' x P' m'] f t same assms(5,6,8) by auto
  have "known ob' h \<and> fields_due ob' (fst s') h \<and> staged_due ob' (snd s') h" if h: "h \<in># G" for h
  proof -
    have "staged_due ob' (snd s') h"
      using accords_others(3) [OF assms(1) h, of ob'] alone h same rest(3) by (cases "sq x") (auto simp: staged_due_def)
    moreover have "fields_due ob' (fst s') h" using assms(7) h by (auto simp: fields_due_def mode_of_def)
    ultimately show ?thesis using accords_others(1) [OF assms(1) h, of ob'] same by simp
  qed
  moreover have "known ob' (x, P', m', r')" using assms(5,6) m(2) rest(1) by (auto simp: known_def)
  moreover have "fields_due ob' (fst s') (x, P', m', r')" "staged_due ob' (snd s') (x, P', m', r')"
    using rest(2,3) by (auto simp: fields_due_def staged_due_def active_def)
  moreover have "fst s' = lk_fields ob'" if "\<forall>h\<in>#add_mset (x, P', m', r') G. mode_of h \<noteq> Writing"
  proof -
    have "m' = Reading" using that assms(6) by (cases m') (auto simp: mode_of_def)
    then show ?thesis using rest(2) assms(5) keeps_fields [of P' "sq x" m' True "now ob'"] by (simp add: now_def)
  qed
  moreover have "snd s' = lk_staged ob'" if idle: "\<forall>h\<in>#add_mset (x, P', m', r') G. active h \<longrightarrow> \<not> in_effect (mode_of h)"
  proof (cases "sq x")
    case True
    then obtain v where "P' = Return v"
      using bspec [OF idle, of "(x, P', m', r')"] m(2) by (auto simp: ghost_defs returned_iff)
    then show ?thesis using rest(3) True by (simp add: now_def)
  next
    case False
    then show ?thesis using idle assms(1) rest(3) same by (auto simp: accords_def ghost_defs)
  qed
  ultimately show ?thesis by (auto simp: accords_def)
qed

lemma size_filter_add: "size {#h \<in># add_mset g G. Q h#} = of_bool (Q g) + size {#h \<in># G. Q h#}"
  by simp

lemma excludes_add:
  "excludes ob (add_mset (x, P, m, r) G) \<longleftrightarrow>
     rw_readers (lk_mu ob) = of_bool (m = Reading) + size {#g \<in># G. mode_of g = Reading#} \<and>
     of_bool (m = Waiting \<or> m = Writing) + size {#g \<in># G. wanting g#} = of_bool (rw_writer (lk_mu ob)) \<and>
     (m = Writing \<or> (\<exists>g\<in>#G. mode_of g = Writing) \<longrightarrow> rw_readers (lk_mu ob) = 0) \<and>
     of_bool (sq x \<and> \<not> returned P) + size {#g \<in># G. active g#} \<le> 1"
proof -
  have "mode_of (x, P, m, r) = m" "wanting (x, P, m, r) \<longleftrightarrow> m = Waiting \<or> m = Writing" "active (x, P, m, r) \<longleftrightarrow> sq x \<and> \<not> returned P"
    by (simp_all add: ghost_defs)
  then show ?thesis unfolding excludes_def size_filter_add by auto
qed

lemma instr_live: "instr P ob = Some (P', ob') \<Longrightarrow> \<not> returned P"
  by (cases P) simp_all

lemma excludes_step:
  assumes "excludes ob (add_mset (x, P, m, r) G)" and "keeps P (sq x) m" and "instr P ob = Some (P', ob')"
  shows "excludes ob' (add_mset (x, P', mode_after P m, r') G)"
proof -
  define nr where "nr = size {#g \<in># G. mode_of g = Reading#}"
  define nw where "nw = size {#g \<in># G. wanting g#}"
  define w where "w \<longleftrightarrow> (\<exists>g\<in>#G. mode_of g = Writing)"
  have "\<not> rw_writer (lk_mu ob) \<Longrightarrow> \<not> w" using excludes_others(3) [OF assms(1)] by (auto simp: w_def)
  moreover have "of_bool (sq x \<and> \<not> returned P') + size {#g \<in># G. active g#} \<le> 1"
    using assms(1) instr_live [OF assms(3)] by (auto simp: excludes_add split: if_splits)
  ultimately show ?thesis
    using assms(2,3) assms(1) [unfolded excludes_add] unfolding excludes_add nr_def [symmetric] nw_def [symmetric] w_def [symmetric]
    by (cases P) (auto simp: set_readers_def set_writer_def of_bool_def split: if_splits)
qed

lemma sequential_view:
  assumes "accords ob (add_mset (x, P, m, r) G) s" and "excludes ob (add_mset (x, P, m, r) G)"
    and "sq x" and "\<not> returned P" and "\<not> in_effect m"
  shows "snd s = lk_staged ob"
proof -
  have "\<forall>h\<in>#G. \<not> active h" using excludes_others(2) [OF assms(2)] assms(3,4) by (simp add: active_def)
  then show ?thesis using assms(1,5) by (auto simp: accords_def mode_of_def)
qed

lemma move_explained:
  assumes "accords ob (add_mset (x, P, m, r) G) s" and "excludes ob (add_mset (x, P, m, r) G)"
    and "instr P ob = Some (P', ob')"
  obtains r' s' where "accords ob' (add_mset (x, P', mode_after P m, r') G) s'"
    and "excludes ob' (add_mset (x, P', mode_after P m, r') G)"
    and "in_effect (mode_after P m) = in_effect m \<longrightarrow> r' = r \<and> s' = s"
    and "in_effect (mode_after P m) \<noteq> in_effect m \<longrightarrow>
      \<not> in_effect m \<and> run (handler x) False s = (r', s') \<and> (sq x \<longrightarrow> may x (snd s))"
proof -
  have g: "known ob (x, P, m, r)" using assms(1) by (auto simp: accords_def)
  then have k: "keeps P (sq x) m" by (simp add: known_def)
  note ex = excludes_step [OF assms(2) k assms(3)]
  note live = instr_live [OF assms(3)]
  consider (past) "in_effect m" | (gets) "\<not> in_effect m" "in_effect (mode_after P m)" | (waits) "\<not> in_effect m" "\<not> in_effect (mode_after P m)" by blast
  then show ?thesis
  proof cases
    case past
    have "accords ob' (add_mset (x, P', mode_after P m, r) G) s"
      by (rule goes_on [OF assms(1,2) past])
        (use k past live assms(3) in \<open>cases P; auto simp: now_def active_def set_readers_def set_writer_def split: if_splits\<close>)+
    moreover have "in_effect (mode_after P m)" using k past by (cases P) auto
    ultimately show ?thesis using that ex past by blast
  next
    case gets
    obtain r' s' where rs: "run P' True s = (r', s')" by (rule prod.exhaust)
    have "accords ob' (add_mset (x, P', mode_after P m, r') G) s'"
      by (rule takes_effect [OF assms(1,2) gets(1) _ _ _ _ rs])
        (use k gets assms(3) excludes_others(3) [OF assms(2)] in \<open>cases P; auto simp: now_def set_readers_def ghost_defs split: if_splits\<close>)+
    moreover have "run P False s = run P' True s" using k gets assms(3) by (cases P) (auto split: if_splits)
    moreover have "run (handler x) False s = run P False s" using g gets(1) by (cases m) (auto simp: known_def)
    moreover have "sq x \<longrightarrow> may x (snd s)"
      using g gets(1) sequential_view [OF assms(1,2)] live by (auto simp: known_def)
    ultimately show ?thesis using that ex gets rs by metis
  next
    case waits
    then have "\<not> inside m" by (cases m) auto
    then obtain P0 where P0: "P = Lock P0" "m = Before" "P' = Acquire P0" "ob' = set_writer True ob"
      using k live waits assms(3) by (cases P) (auto split: if_splits)
    have same: "lk_fields ob' = lk_fields ob" "lk_staged ob' = lk_staged ob" by (simp_all add: P0 set_writer_def)
    have "known ob' h \<and> fields_due ob' (fst s) h \<and> staged_due ob' (snd s) h" if "h \<in># G" for h
      using accords_others [OF assms(1) that, of ob'] same by simp
    moreover have "known ob' (x, P', Waiting, r)" using g k same(2) by (auto simp: known_def P0)
    ultimately have "accords ob' (add_mset (x, P', mode_after P m, r) G) s"
      using assms(1) same by (auto simp: accords_def P0(1-3) fields_due_def staged_due_def ghost_defs)
    then show ?thesis using that ex waits by blast
  qed
qed

text \<open>A goroutine starts; one that needs no lock takes effect at once.\<close>

lemma start_explained:
  assumes "accords ob G s" and "excludes ob G" and "sq x \<Longrightarrow> may x (lk_staged ob) \<and> (\<forall>g\<in>#G. \<not> active g)"
    and "m = (if returned (handler x) then After else Before)" and "r = fst (run (handler x) False s)"
  shows "accords ob (add_mset (x, handler x, m, r) G) s" and "excludes ob (add_mset (x, handler x, m, r) G)"
    and "in_effect m \<Longrightarrow> run (handler x) False s = (r, s)"
proof -
  have m: "in_effect m \<longleftrightarrow> returned (handler x)" "\<not> inside m" "m \<noteq> Waiting" using assms(4) by auto
  have k: "keeps (handler x) (sq x) m" using discipline [of x] assms(4) by (auto simp: disciplined_def returned_iff)
  have ret: "run (handler x) False s' = (r, s')" if "returned (handler x)" for s'
    using that assms(5) by (auto simp: returned_iff)
  then show "in_effect m \<Longrightarrow> run (handler x) False s = (r, s)" using m(1) by blast
  have "known ob (x, handler x, m, r)" using k m ret assms(3) by (auto simp: known_def)
  moreover have "fields_due ob (fst s) (x, handler x, m, r)" "staged_due ob (snd s) (x, handler x, m, r)"
    using m by (auto simp: fields_due_def staged_due_def active_def)
  ultimately show "accords ob (add_mset (x, handler x, m, r) G) s" using assms(1) by (auto simp: accords_def)
  have "m \<noteq> Reading" "m \<noteq> Writing" using m(2) by auto
  moreover have "{#g \<in># G. active g#} = {#}" if "sq x" using assms(3) [OF that] unfolding size_filter_0 by blast
  ultimately show "excludes ob (add_mset (x, handler x, m, r) G)"
    using assms(2) m(3) unfolding excludes_add by (auto simp: excludes_def)
qed

text \<open>The calls that took effect, in that order and with their replies.\<close>

definition decisions :: "('c, 'p, 'q, 'r) ghost multiset \<Rightarrow> ('c \<times> 'r \<times> bool) multiset" where
  "decisions G = image_mset (\<lambda>(x, P, m, r). (x, r)) {#g \<in># G. in_effect (mode_of g)#}"

definition explained :: "'p \<times> 'q \<Rightarrow> ('c, 'p, 'q, 'r) pool \<Rightarrow> ('c \<times> 'r \<times> bool) list \<Rightarrow> 'p \<times> 'q \<Rightarrow> bool" where
  "explained s0 c h s \<longleftrightarrow> (\<exists>G. fst c = image_mset (\<lambda>(x, P, m, r). (x, P)) G \<and> accords (snd c) G s \<and> excludes (snd c) G \<and>
     run_all handler (map fst h) s0 = (map snd h, s) \<and> mset h = decisions G)"

definition extends :: "'p \<times> 'q \<Rightarrow> ('c \<times> 'r \<times> bool) list \<Rightarrow> 'p \<times> 'q \<Rightarrow> bool" where
  "extends s h s' \<longleftrightarrow> h = [] \<and> s' = s \<or>
     (\<exists>x r. h = [(x, r)] \<and> run (handler x) False s = (r, s') \<and> (sq x \<longrightarrow> may x (snd s)))"

lemma run_all_append: "run_all handler (xs @ ys) s = (case run_all handler xs s of (rs, s) \<Rightarrow> apfst ((@) rs) (run_all handler ys s))"
  by (induction xs arbitrary: s) (auto simp: apfst_def map_prod_def split: prod.splits)

lemma run_all_snoc:
  "run_all handler xs s0 = (rs, s) \<Longrightarrow> run (handler x) False s = (r, s') \<Longrightarrow> run_all handler (xs @ [x]) s0 = (rs @ [r], s')"
  by (simp add: run_all_append)

lemma explained_go:
  assumes "explained s0 c h s" and "go_on c d"
  shows "\<exists>h' s'. explained s0 d (h @ h') s' \<and> extends s h' s'"
  using assms(2)
proof cases
  case (1 P ob P' ob' x M)
  obtain G where G: "add_mset (x, P) M = image_mset (\<lambda>(x, P, m, r). (x, P)) G" "accords ob G s" "excludes ob G"
    "run_all handler (map fst h) s0 = (map snd h, s)" "mset h = decisions G"
    using assms(1) 1 by (auto simp: explained_def)
  from msed_map_invR [OF G(1) [symmetric]] obtain g G' where g: "G = add_mset g G'" "(case g of (x, P, m, r) \<Rightarrow> (x, P)) = (x, P)"
    "image_mset (\<lambda>(x, P, m, r). (x, P)) G' = M" by blast
  obtain m r where mr: "g = (x, P, m, r)" using g(2) by (cases g) auto
  obtain r' s' where s': "accords ob' (add_mset (x, P', mode_after P m, r') G') s'"
    "excludes ob' (add_mset (x, P', mode_after P m, r') G')"
    "in_effect (mode_after P m) = in_effect m \<longrightarrow> r' = r \<and> s' = s"
    "in_effect (mode_after P m) \<noteq> in_effect m \<longrightarrow>
      \<not> in_effect m \<and> run (handler x) False s = (r', s') \<and> (sq x \<longrightarrow> may x (snd s))"
    by (rule move_explained [OF G(2,3) [unfolded g(1) mr] 1(3)])
  let ?G = "add_mset (x, P', mode_after P m, r') G'"
  show ?thesis
  proof (cases "in_effect (mode_after P m) = in_effect m")
    case True
    then have "mset h = decisions ?G" using G(5) s'(3) by (simp add: decisions_def g(1) mr mode_of_def)
    then show ?thesis using True s' G(4) g(3) 1(2)
      by (intro exI [of _ "[]"] exI [of _ s]) (auto simp: explained_def extends_def intro!: exI [of _ ?G])
  next
    case False
    then have "mset (h @ [(x, r')]) = decisions ?G" using G(5) s'(4) by (simp add: decisions_def g(1) mr mode_of_def)
    moreover have "run_all handler (map fst (h @ [(x, r')])) s0 = (map snd (h @ [(x, r')]), s')"
      using run_all_snoc [OF G(4)] s'(4) False by simp
    moreover have "extends s [(x, r')] s'" using s'(4) False by (auto simp: extends_def)
    ultimately show ?thesis using s'(1,2) g(3) 1(2)
      by (intro exI [of _ "[(x, r')]"] exI [of _ s']) (auto simp: explained_def intro!: exI [of _ ?G])
  qed
qed

lemma explained_start:
  assumes "explained s0 (M, ob) h s" and "sq x \<Longrightarrow> may x (lk_staged ob) \<and> (\<forall>(y, P)\<in>#M. sq y \<longrightarrow> returned P)"
  shows "\<exists>h' s'. explained s0 (add_mset (x, handler x) M, ob) (h @ h') s' \<and> extends s h' s'"
proof -
  obtain G where G: "M = image_mset (\<lambda>(x, P, m, r). (x, P)) G" "accords ob G s" "excludes ob G"
    "run_all handler (map fst h) s0 = (map snd h, s)" "mset h = decisions G"
    using assms(1) by (auto simp: explained_def)
  define m where "m = (if returned (handler x) then After else Before)"
  define r where "r = fst (run (handler x) False s)"
  have seq: "may x (lk_staged ob) \<and> (\<forall>g\<in>#G. \<not> active g)" if "sq x"
    using assms(2) [OF that] by (auto simp: G(1) active_def)
  note st = start_explained [OF G(2,3) seq m_def r_def]
  let ?G = "add_mset (x, handler x, m, r) G" and ?h = "if in_effect m then [(x, r)] else []"
  have "mset (h @ ?h) = decisions ?G" using G(5) by (simp add: decisions_def mode_of_def)
  moreover have "run_all handler (map fst (h @ ?h)) s0 = (map snd (h @ ?h), s)" using run_all_snoc [OF G(4) st(3)] G(4) by simp
  moreover have "extends s ?h s" using st(3) seq G(2) by (auto simp: extends_def accords_def)
  ultimately show ?thesis using st(1,2) G(1)
    by (intro exI [of _ ?h] exI [of _ s]) (auto simp: explained_def intro!: exI [of _ ?G])
qed

text \<open>Histories only grow, and what every call keeps of the object holds throughout.\<close>

lemma explained_happens:
  assumes "happens handler sq may c d" and "explained s0 c h s" and "Q h s"
    and "\<And>h s h' s'. Q h s \<Longrightarrow> extends s h' s' \<Longrightarrow> Q (h @ h') s'"
  shows "\<exists>h' s'. explained s0 d (h @ h') s' \<and> Q (h @ h') s'"
  using assms(1-3)
proof (induction rule: happens.induct)
  case (none c)
  then show ?case by (intro exI [of _ "[]"] exI [of _ s]) simp
next
  case (move c d e)
  then obtain h' s' where h': "explained s0 d (h @ h') s'" "Q (h @ h') s'" by blast
  from explained_go [OF this(1) move.hyps(2)] assms(4) [OF this(2)] show ?case by (metis append.assoc)
next
  case (start c M ob x)
  then obtain h' s' where h': "explained s0 (M, ob) (h @ h') s'" "Q (h @ h') s'" by blast
  from explained_start [OF this(1), of x] assms(4) [OF this(2)] start.hyps(2) show ?case by (metis append.assoc)
qed

lemma returned_known:
  assumes "known ob (x, P, m, r)" and "returned P"
  shows "in_effect m" and "reply_of P = Some (fst r)"
proof -
  obtain v where v: "P = Return v" using assms(2) by (auto simp: returned_iff)
  show "in_effect m" "reply_of P = Some (fst r)" using assms(1) unfolding known_def v by auto
qed

lemma accords_done:
  assumes "accords ob G s" and all: "\<And>g. g \<in># G \<Longrightarrow> (case g of (x, P, m, r) \<Rightarrow> returned P)"
  shows "now ob = s"
proof -
  have "fst s = lk_fields ob"
  proof (cases "\<exists>g\<in>#G. mode_of g = Writing")
    case True
    then obtain x P r where g: "(x, P, Writing, r) \<in># G" by (auto simp: mode_of_def)
    then have "fields_due ob (fst s) (x, P, Writing, r)" using assms(1) by (auto simp: accords_def)
    then show ?thesis using all [OF g] by (auto simp: fields_due_def returned_iff now_def)
  qed (use assms(1) in \<open>auto simp: accords_def\<close>)
  moreover have "snd s = lk_staged ob" using assms(1) all by (auto simp: accords_def active_def split: prod.splits)
  ultimately show ?thesis by (simp add: now_def prod_eq_iff)
qed

lemma explained_answers:
  assumes "explained s0 (M, ob) h s"
  shows "answers M \<subseteq># mset (map (\<lambda>(x, r, b). (x, r)) h)" and "mset (map fst h) \<subseteq># image_mset fst M"
    and "all_returned M \<Longrightarrow> answers M = mset (map (\<lambda>(x, r, b). (x, r)) h) \<and> now ob = s"
    and "run_all handler (map fst h) s0 = (map snd h, s)"
proof -
  obtain G where G: "M = image_mset (\<lambda>(x, P, m, r). (x, P)) G" "accords ob G s"
    "run_all handler (map fst h) s0 = (map snd h, s)" "mset h = decisions G"
    using assms by (auto simp: explained_def)
  let ?done = "\<lambda>(x, P, m, r). returned P" and ?ans = "\<lambda>(x, P, m, r). (x, fst r)"
  have known: "known ob g" if "g \<in># G" for g using G(2) that by (auto simp: accords_def)
  have in_effect: "in_effect (mode_of g)" if "g \<in># G" "?done g" for g
    using known [OF that(1)] that(2) returned_known by (auto simp: mode_of_def split: prod.splits)
  have ans: "answers M = image_mset ?ans {#g \<in># G. ?done g#}"
  proof -
    have "answers M = image_mset (\<lambda>(x, P, m, r). (x, the (reply_of P))) {#g \<in># G. ?done g#}"
      by (simp add: answers_def G(1) filter_mset_image_mset image_mset.compositionality comp_def case_prod_unfold)
    also have "\<dots> = image_mset ?ans {#g \<in># G. ?done g#}"
      by (intro image_mset_cong) (auto dest!: known returned_known(2))
    finally show ?thesis .
  qed
  have hist: "mset (map (\<lambda>(x, r, b). (x, r)) h) = image_mset ?ans {#g \<in># G. in_effect (mode_of g)#}"
    by (simp add: G(4) decisions_def image_mset.compositionality comp_def case_prod_unfold)
  show "answers M \<subseteq># mset (map (\<lambda>(x, r, b). (x, r)) h)"
    unfolding ans hist by (intro image_mset_subseteq_mono filter_mset_mono_strong) (use in_effect in auto)
  have "mset (map fst h) = image_mset (\<lambda>(x, P, m, r). x) {#g \<in># G. in_effect (mode_of g)#}"
    by (simp add: G(4) decisions_def image_mset.compositionality comp_def case_prod_unfold)
  moreover have "image_mset fst M = image_mset (\<lambda>(x, P, m, r). x) G"
    by (simp add: G(1) image_mset.compositionality comp_def case_prod_unfold)
  ultimately show "mset (map fst h) \<subseteq># image_mset fst M" by (simp add: image_mset_subseteq_mono)
  show "answers M = mset (map (\<lambda>(x, r, b). (x, r)) h) \<and> now ob = s" if "all_returned M"
  proof
    have all: "?done g" if "g \<in># G" for g using \<open>all_returned M\<close> that by (auto simp: all_returned_def G(1))
    then have "{#g \<in># G. ?done g#} = {#g \<in># G. in_effect (mode_of g)#}" using in_effect by (intro filter_mset_cong) auto
    then show "answers M = mset (map (\<lambda>(x, r, b). (x, r)) h)" unfolding ans hist by simp
    show "now ob = s" by (rule accords_done [OF G(2)]) (rule all)
  qed
qed (use assms in \<open>auto simp: explained_def\<close>)

text \<open>The main fact: an order of the calls that gives the same replies and the same object.\<close>

lemma explained_fresh: "lk_mu ob = free_mutex \<Longrightarrow> explained (now ob) ({#}, ob) [] (now ob)"
  by (auto simp: explained_def accords_def excludes_def decisions_def free_mutex_def now_def)

lemma linearise:
  assumes "lk_mu ob0 = free_mutex" and "happens handler sq may ({#}, ob0) (M, ob)" and "happens handler sq may (M, ob) (M', ob')"
  shows "\<exists>h h' s s'. explained (now ob0) (M, ob) h s \<and> explained (now ob0) (M', ob') (h @ h') s'"
proof -
  obtain h s where "explained (now ob0) (M, ob) h s"
    using explained_happens [OF assms(2) explained_fresh [OF assms(1)], of "\<lambda>_ _. True"] by auto
  then show ?thesis using explained_happens [OF assms(3), of _ _ _ "\<lambda>_ _. True"] by blast
qed

text \<open>Unless a call returned with a lock in its hands, some goroutine can go on.\<close>

lemma returned_inside:
  assumes "returned P" and "known ob (x, P, m, r)" and "inside m"
  shows "snd r"
proof -
  obtain v where v: "P = Return v" using assms(1) by (auto simp: returned_iff)
  have "in_effect m" using assms(3) by (cases m) auto
  then show ?thesis using assms(2,3) unfolding known_def v by auto
qed

lemma in_effect_inside: "(x, P, m, r) \<in># G \<Longrightarrow> inside m \<Longrightarrow> (x, r) \<in># decisions G"
  by (force simp: decisions_def mode_of_def elim: inside.elims)

lemma unstuck:
  assumes "accords ob G s" and "excludes ob G" and "\<forall>(x, r, b)\<in>#decisions G. \<not> b"
    and "(x0, P0, m0, r0) \<in># G" and "\<not> returned P0"
  obtains x P m r where "(x, P, m, r) \<in># G" and "instr P ob \<noteq> None"
proof -
  have known: "known ob g" if "g \<in># G" for g using assms(1) that by (auto simp: accords_def)
  have busy: "\<not> returned P" if "(x, P, m, r) \<in># G" "inside m" for x P m r
    using assms(3) returned_inside [OF _ known [OF that(1)] that(2)] in_effect_inside [OF that] by (cases r) auto
  consider (past) x P m r where "(x, P, m, r) \<in># G" "in_effect m" "\<not> returned P"
    | (waits) x P r where "(x, P, Waiting, r) \<in># G" "\<forall>(x, P, m, r)\<in>#G. in_effect m \<longrightarrow> returned P"
    | (none) "\<forall>(x, P, m, r)\<in>#G. m \<noteq> Waiting \<and> (in_effect m \<longrightarrow> returned P)" by blast
  then show ?thesis
  proof cases
    case past
    have "keeps P (sq x) m" using known [OF past(1)] by (simp add: known_def)
    moreover have "rw_readers (lk_mu ob) \<noteq> 0" if "m = Reading"
      using size_filter_some [OF past(1), of "\<lambda>g. mode_of g = Reading"] excludesD(1) [OF assms(2)] that by (simp add: mode_of_def)
    ultimately have "instr P ob \<noteq> None" using past(2,3) by (cases P) auto
    then show ?thesis using that past(1) by blast
  next
    case waits
    then have "\<forall>g\<in>#G. mode_of g \<noteq> Reading" using busy by (fastforce simp: mode_of_def)
    then have "rw_readers (lk_mu ob) = 0" unfolding excludesD(1) [OF assms(2)] by (rule size_filter_none)
    moreover obtain P' where "P = Acquire P'" using known [OF waits(1)] by (auto simp: known_def)
    ultimately show ?thesis using that [OF waits(1)] by simp
  next
    case none
    then have "\<forall>g\<in>#G. \<not> wanting g" using busy by (fastforce simp: ghost_defs)
    from size_filter_none [OF this] have "\<not> rw_writer (lk_mu ob)" unfolding excludesD(2) [OF assms(2)] by simp
    moreover have "m0 = Before" using none assms(4,5) by (cases m0) auto
    moreover have "keeps P0 (sq x0) m0" using known [OF assms(4)] by (simp add: known_def)
    ultimately have "instr P0 ob \<noteq> None" using assms(5) by (cases P0) auto
    then show ?thesis using that assms(4) by blast
  qed
qed

text \<open>When all have returned, and none kept it, the lock is free.\<close>

lemma unlocked:
  assumes "accords ob G s" and "excludes ob G" and "\<forall>(x, r, b)\<in>#decisions G. \<not> b" and "\<forall>(x, P, m, r)\<in>#G. returned P"
  shows "lk_mu ob = free_mutex"
proof -
  have "\<not> inside m \<and> m \<noteq> Waiting" if g: "(x, P, m, r) \<in># G" for x P m r
  proof -
    have P: "returned P" "known ob (x, P, m, r)" using assms(1,4) g by (auto simp: accords_def)
    have "\<not> snd r" if "inside m" using assms(3) in_effect_inside [OF g that] by (cases r) auto
    then show ?thesis using returned_inside [OF P] returned_known(1) [OF P(2,1)] by auto
  qed
  then have "\<forall>g\<in>#G. mode_of g \<noteq> Reading" "\<forall>g\<in>#G. \<not> wanting g" by (fastforce simp: ghost_defs)+
  from this [THEN size_filter_none] have "rw_readers (lk_mu ob) = 0" "\<not> rw_writer (lk_mu ob)"
    unfolding excludesD(1) [OF assms(2)] excludesD(2) [OF assms(2)] by simp_all
  then show ?thesis by (cases "lk_mu ob") (simp add: free_mutex_def)
qed

end

text \<open>Programs that are short and, in good states, give their lock back.\<close>

locale live_app = locked_app handler sq may
  for handler :: "'c \<Rightarrow> ('p, 'q, 'r) prog" and sq :: "'c \<Rightarrow> bool" and may :: "'c \<Rightarrow> 'q \<Rightarrow> bool" +
  fixes good :: "'p \<times> 'q \<Rightarrow> bool" and bound :: nat
  assumes clean: "good s \<Longrightarrow> (sq x \<Longrightarrow> may x (snd s)) \<Longrightarrow>
      \<not> snd (fst (run (handler x) False s)) \<and> good (snd (run (handler x) False s))"
    and short: "within (handler x) bound"
begin

lemma extends_clean:
  assumes "good s" and "extends s h s'"
  shows "(\<forall>(x, r, b)\<in>set h. \<not> b) \<and> good s'"
  using assms(2) unfolding extends_def
proof (elim disjE exE conjE)
  fix x r assume "h = [(x, r)]" "run (handler x) False s = (r, s')" "sq x \<longrightarrow> may x (snd s)"
  then show ?thesis using clean [OF assms(1), of x] by (cases r) simp
qed (use assms(1) in simp)

lemma explained_clean:
  assumes "lk_mu ob0 = free_mutex" and "good (now ob0)" and "happens handler sq may ({#}, ob0) (M, ob)"
  obtains h s where "explained (now ob0) (M, ob) h s" and "\<forall>(x, r, b)\<in>set h. \<not> b"
proof -
  have "\<exists>h' s'. explained (now ob0) (M, ob) ([] @ h') s' \<and> (\<forall>(x, r, b)\<in>set ([] @ h'). \<not> b) \<and> good s'"
  proof (rule explained_happens [OF assms(3) explained_fresh [OF assms(1)]])
    fix h h' :: "('c \<times> 'r \<times> bool) list" and s s' assume "(\<forall>(x, r, b)\<in>set h. \<not> b) \<and> good s" and "extends s h' s'"
    then show "(\<forall>(x, r, b)\<in>set (h @ h'). \<not> b) \<and> good s'" using extends_clean [of s h' s'] by (simp add: ball_Un)
  qed (use assms(2) in simp)
  then show ?thesis using that by auto
qed

lemma someone_goes_on:
  assumes "lk_mu ob0 = free_mutex" and "good (now ob0)" and "happens handler sq may ({#}, ob0) (M, ob)"
  shows "\<not> all_returned M \<Longrightarrow> \<exists>d. go_on (M, ob) d" and "all_returned M \<Longrightarrow> lk_mu ob = free_mutex"
proof -
  obtain h s where h: "explained (now ob0) (M, ob) h s" "\<forall>(x, r, b)\<in>set h. \<not> b" by (rule explained_clean [OF assms])
  obtain G where G: "M = image_mset (\<lambda>(x, P, m, r). (x, P)) G" "accords ob G s" "excludes ob G" "mset h = decisions G"
    using h(1) by (auto simp: explained_def)
  have c: "\<forall>(x, r, b)\<in>#decisions G. \<not> b" using h(2) unfolding G(4) [symmetric] set_mset_mset .
  show "\<exists>d. go_on (M, ob) d" if some: "\<not> all_returned M"
  proof -
    obtain x0 P0 m0 r0 where "(x0, P0, m0, r0) \<in># G" "\<not> returned P0" using some by (auto simp: all_returned_def G(1))
    then obtain x P m r where g: "(x, P, m, r) \<in># G" "instr P ob \<noteq> None" by (rule unstuck [OF G(2,3) c])
    then obtain P' ob' where "instr P ob = Some (P', ob')" by auto
    moreover have "(x, P) \<in># M" using g(1) by (force simp: G(1))
    then obtain N where "M = add_mset (x, P) N" by (rule mset_add)
    ultimately show ?thesis by (auto intro: go_on.intros)
  qed
  show "lk_mu ob = free_mutex" if "all_returned M"
    by (rule unlocked [OF G(2,3) c]) (use that in \<open>auto simp: all_returned_def G(1)\<close>)
qed

end

text \<open>Every schedule ends: the instructions left, over all goroutines, get fewer.\<close>

lemma within_mono: "within P n \<Longrightarrow> n \<le> k \<Longrightarrow> within P k"
  by (induction P arbitrary: n k rule: prog_induct) (auto, (meson diff_le_mono le_trans)+)

lemma within_instr: "within P n \<Longrightarrow> instr P ob = Some (P', ob') \<Longrightarrow> \<exists>k. n = Suc k \<and> within P' k"
  by (cases P; cases n) (auto split: if_splits simp: numeral_2_eq_2)

definition workload :: "('c \<times> ('p, 'q, 'r) prog) multiset \<Rightarrow> nat \<Rightarrow> bool" where
  "workload M n \<longleftrightarrow> (\<exists>N. image_mset fst N = M \<and> (\<forall>u\<in>#N. within (snd (fst u)) (snd u)) \<and> n = sum_mset (image_mset snd N))"

lemma workload_go:
  assumes "workload (fst c) n" and "go_on c d"
  shows "\<exists>k. n = Suc k \<and> workload (fst d) k"
  using assms(2)
proof cases
  case (1 P ob P' ob' x M)
  obtain N where N: "image_mset fst N = add_mset (x, P) M" "\<forall>u\<in>#N. within (snd (fst u)) (snd u)" "n = sum_mset (image_mset snd N)"
    using assms(1) 1 by (auto simp: workload_def)
  from msed_map_invR [OF N(1)] obtain u N' where u: "N = add_mset u N'" "fst u = (x, P)" "image_mset fst N' = M" by blast
  obtain j where j: "u = ((x, P), j)" using u(2) by (cases u) auto
  have "within P j" using N(2) by (simp add: u(1) j)
  from within_instr [OF this 1(3)] obtain k where k: "j = Suc k" "within P' k" by blast
  show ?thesis unfolding workload_def
    by (rule exI [of _ "k + sum_mset (image_mset snd N')"])
      (use N u j k 1(2) in \<open>auto intro!: exI [of _ "add_mset ((x, P'), k) N'"]\<close>)
qed

lemma workload_steps: "(go_on ^^ n) c d \<Longrightarrow> workload (fst c) k \<Longrightarrow> n \<le> k"
proof (induction n arbitrary: c k)
  case (Suc n)
  then obtain e where e: "go_on c e" "(go_on ^^ n) e d" by (meson relpowp_Suc_D2)
  from workload_go [OF Suc.prems(2) e(1)] obtain j where "k = Suc j" "workload (fst e) j" by blast
  then show ?case using Suc.IH [OF e(2)] by simp
qed simp

context live_app
begin

lemma happens_within: "happens handler sq may ({#}, ob0) c \<Longrightarrow> \<forall>(x, P)\<in>#fst c. within P bound"
proof (induction "({#} :: ('c \<times> ('p, 'q, 'r) prog) multiset, ob0)" c rule: happens.induct)
  case (move d e)
  show ?case using move.hyps(3)
  proof cases
    case (1 P ob P' ob' x M)
    then have "within P bound" using move.hyps(2) by simp
    from within_instr [OF this 1(3)] have "within P' bound" using within_mono by fastforce
    then show ?thesis using 1 move.hyps(2) by simp
  qed
qed (simp_all add: short)

lemma answered:
  assumes "lk_mu ob0 = free_mutex" and "good (now ob0)" and "happens handler sq may ({#}, ob0) (M, ob)"
    and "(go_on ^^ n) (M, ob) (M', ob')"
  shows "n \<le> bound * size M" and "all_returned M' \<or> (\<exists>d. go_on (M', ob') d)" and "all_returned M' \<Longrightarrow> lk_mu ob' = free_mutex"
proof -
  have "workload M (sum_mset (image_mset (\<lambda>t. bound) M))" unfolding workload_def
    using happens_within [OF assms(3)]
    by (intro exI [of _ "image_mset (\<lambda>t. (t, bound)) M"]) (auto simp: image_mset.compositionality comp_def)
  then show "n \<le> bound * size M" using workload_steps [OF assms(4), of "sum_mset (image_mset (\<lambda>t. bound) M)"] by (simp add: mult.commute)
  have "happens handler sq may ({#}, ob0) d" if "(go_on ^^ n) (M, ob) d" for n d
    using that by (induction n arbitrary: d) (use assms(3) in \<open>auto intro: happens.move\<close>)
  from someone_goes_on [OF assms(1,2) this, OF assms(4)]
  show "all_returned M' \<or> (\<exists>d. go_on (M', ob') d)" "all_returned M' \<Longrightarrow> lk_mu ob' = free_mutex" by blast+
qed

end

end
