(* ===== verification/Example_Locks.thy ===== *)
theory Example_Locks
  imports App_Locks Connections Dex Counter
begin

text \<open>
  The handlers of \<^verbatim>\<open>example/dex/app.go\<close> and \<^verbatim>\<open>example/counter/app.go\<close> once more, as programs with
  their lock operations and one instruction per access to a field of the application. A
  deferred unlock is the unlock before every return and panic; the handlers that unlock
  without \<^verbatim>\<open>defer\<close> keep the lock if they panic before. The object behind \<open>app.current\<close> is not
  modified after it is published, so reading the pointer is reading the state.
\<close>

section \<open>Calls of an application\<close>

fun handle_all :: "'a Lifecycle \<Rightarrow> engine_call list \<Rightarrow> 'a \<Rightarrow> reply list \<times> 'a" where
  "handle_all app [] a = ([], a)"
| "handle_all app (x # xs) a = (case handle app x a of (r, a) \<Rightarrow> apfst (Cons r) (handle_all app xs a))"

text \<open>The calls that a server makes one at a time, under its own mutex.\<close>

fun sequential :: "engine_call \<Rightarrow> bool" where
  "sequential (ECExecuteBlock b) = True"
| "sequential ECCommit = True"
| "sequential x = False"

text \<open>
  Programs that, run alone, are the methods of an application: what interleaved programs do,
  the methods do in some order.
\<close>

locale method_programs = locked_app handler sequential may
  for handler :: "engine_call \<Rightarrow> ('p, 'q, reply) prog" and may :: "engine_call \<Rightarrow> 'q \<Rightarrow> bool" +
  fixes app :: "'a Lifecycle" and fields :: "'a \<Rightarrow> 'p \<times> 'q"
  assumes alone: "\<exists>held. run (handler x) False (fields a) = ((fst (handle app x a), held), fields (snd (handle app x a)))"
begin

lemma run_all_handle:
  "map fst (fst (run_all handler xs (fields a))) = fst (handle_all app xs a) \<and>
   snd (run_all handler xs (fields a)) = fields (snd (handle_all app xs a))"
proof (induction xs arbitrary: a)
  case (Cons x xs)
  obtain held where "run (handler x) False (fields a) = ((fst (handle app x a), held), fields (snd (handle app x a)))"
    using alone by blast
  then show ?case using Cons.IH [of "snd (handle app x a)"] by (auto simp: case_prod_unfold)
qed simp

lemma methods_linearise:
  assumes "lk_mu ob0 = free_mutex" and "now ob0 = fields a"
    and "happens handler sequential may ({#}, ob0) (M, ob)" and "happens handler sequential may (M, ob) (M', ob')"
  shows "\<exists>h h'. answers M \<subseteq># mset h \<and> mset (map fst h) \<subseteq># image_mset fst M \<and>
     answers M' \<subseteq># mset (h @ h') \<and> mset (map fst (h @ h')) \<subseteq># image_mset fst M' \<and>
     fst (handle_all app (map fst (h @ h')) a) = map snd (h @ h') \<and>
     (all_returned M' \<longrightarrow> answers M' = mset (h @ h') \<and> now ob' = fields (snd (handle_all app (map fst (h @ h')) a)))"
proof -
  obtain h h' s s' where e: "explained (fields a) (M, ob) h s" "explained (fields a) (M', ob') (h @ h') s'"
    using linearise [OF assms(1,3,4)] assms(2) by auto
  let ?strip = "map (\<lambda>(x, r :: reply, b :: bool). (x :: engine_call, r))"
  have strip: "map fst (?strip g) = map fst g" "map snd (?strip g) = map fst (map snd g)" for g by auto
  note 1 = explained_answers [OF e(1)] and 2 = explained_answers [OF e(2)]
  have "fst (handle_all app (map fst (h @ h')) a) = map fst (map snd (h @ h'))" "fields (snd (handle_all app (map fst (h @ h')) a)) = s'"
    using run_all_handle [of "map fst (h @ h')" a] 2(4) by simp_all
  then show ?thesis using 1(1,2) 2(1-3)
    by (intro exI [of _ "?strip h"] exI [of _ "?strip h'"]) (simp add: strip [simplified] comp_def case_prod_unfold)
qed

end

section \<open>The order book\<close>

type_synonym dex_prog = "(state option, state option, reply) prog"

text \<open>A use of \<open>app.current\<close>: the state behind it, or what a nil pointer leads to.\<close>

definition fetch :: "dex_prog \<Rightarrow> (state \<Rightarrow> dex_prog) \<Rightarrow> dex_prog" where
  "fetch fail k = Load (\<lambda>c. case c of None \<Rightarrow> fail | Some s \<Rightarrow> k s)"

definition locked_Handshake :: "HandshakeRequest \<Rightarrow> dex_prog" where
  "locked_Handshake req =
     (let fail = RUnlock (Return (RHandshake nil_deref)) in
      RLock (case hq_LastCommitted req of
        None \<Rightarrow> fetch fail (\<lambda>s. RUnlock (Return (RHandshake
          (Ret (zero_HandshakeResponse\<lparr>hr_AppHash := Some (appHash s), hr_Capabilities := dex_caps\<rparr>, None)))))
      | Some _ \<Rightarrow> fetch fail (\<lambda>s. fetch fail (\<lambda>s'. RUnlock (Return (RHandshake
          (Ret (\<lparr>hr_LastBlock = Some \<lparr>bid_Height = st_Height s', bid_Hash = zero_hash\<rparr>,
                 hr_AppHash = Some (appHash s), hr_Capabilities = dex_caps\<rparr>, None))))))))"

definition locked_ExecuteBlock :: "range_order \<Rightarrow> FinalizedBlock \<Rightarrow> dex_prog" where
  "locked_ExecuteBlock ord block =
     RLock (fetch (Return (RExecuteBlock nil_deref)) (\<lambda>cur. RUnlock
       (case execute_txs ((clone ord cur)\<lparr>st_Height := fb_Height block\<rparr>) 0 (fb_Txs block) of
          Ret (outcomes, blockEvents, s) \<Rightarrow>
            StoreStaged (\<lambda>_. Some s) (Return (RExecuteBlock (Ret (zero_BlockOutcome\<lparr>bo_TxOutcomes := outcomes,
              bo_BlockEvents := blockEvents, bo_AppHash := appHash s\<rparr>, None))))
        | Panic m \<Rightarrow> Return (RExecuteBlock (Panic m))
        | Blocked \<Rightarrow> Return (RExecuteBlock Blocked))))"

definition locked_Commit :: dex_prog where
  "locked_Commit =
     (let fail = Unlock (Return (RCommit nil_deref)) in
      Lock (LoadStaged (\<lambda>staged. Store (\<lambda>_. staged) (StoreStaged (\<lambda>_. None)
        (fetch fail (\<lambda>s.
          if st_Height s > 100
          then fetch fail (\<lambda>s'. Unlock (Return (RCommit (Ret (\<lparr>cr_RetainHeight = st_Height s' - 100\<rparr>, None)))))
          else Unlock (Return (RCommit (Ret (\<lparr>cr_RetainHeight = 0\<rparr>, None))))))))))"

definition locked_Query :: "StateQuery \<Rightarrow> dex_prog" where
  "locked_Query req =
     (let fail = RUnlock (Return (RQuery nil_deref));
          answer = (\<lambda>r. RUnlock (Return (RQuery (Ret (r, None))))) in
      RLock
       (if sq_Path req = ''/balance'' then
          if length (sq_Data req) < 21 then
            answer (zero_StateQueryResult\<lparr>sr_Code := 1, sr_Info := ''data must be [20]address + denom''\<rparr>)
          else
            fetch fail (\<lambda>s. fetch fail (\<lambda>s'.
              answer (zero_StateQueryResult\<lparr>sr_Code := 0, sr_Key := sq_Data req,
                sr_Value := PutUint64 (balance (st_Balances s) (addrHex (take 20 (sq_Data req))) (str (drop 20 (sq_Data req)))),
                sr_Height := st_Height s'\<rparr>)))
        else if sq_Path req = ''/price'' then
          fetch fail (\<lambda>s. case gm_get (st_Prices s) (str (sq_Data req)) of
            None \<Rightarrow> fetch fail (\<lambda>s'.
              answer (zero_StateQueryResult\<lparr>sr_Code := 1, sr_Info := ''unknown pair'', sr_Height := st_Height s'\<rparr>))
          | Some price \<Rightarrow> fetch fail (\<lambda>s'.
              answer (zero_StateQueryResult\<lparr>sr_Code := 0, sr_Key := sq_Data req, sr_Value := PutUint64 price,
                sr_Height := st_Height s'\<rparr>)))
        else if sq_Path req = ''/orders'' then
          fetch fail (\<lambda>s. fetch fail (\<lambda>s'.
            answer (zero_StateQueryResult\<lparr>sr_Code := 0, sr_Value := Marshal (json_slice json_Order (st_Orders s)),
              sr_Height := st_Height s'\<rparr>)))
        else
          fetch fail (\<lambda>s.
            answer (zero_StateQueryResult\<lparr>sr_Code := 1, sr_Info := ''unknown query path'', sr_Height := st_Height s\<rparr>))))"

definition locked_ExtendVote :: "range_order \<Rightarrow> dex_prog" where
  "locked_ExtendVote ord =
     RLock (fetch (RUnlock (Return (RExtendVote nil_deref))) (\<lambda>s. RUnlock (Return (RExtendVote (Ret (extend_vote ord s, None))))))"

text \<open>\<open>json.Marshal(app.current)\<close>, which writes \<^verbatim>\<open>null\<close> for a nil pointer.\<close>

definition marshal_current :: "state option \<Rightarrow> byte_slice" where
  "marshal_current c = (case c of None \<Rightarrow> bytes ''null'' | Some s \<Rightarrow> Marshal (json_state s))"

definition locked_AvailableSnapshots :: dex_prog where
  "locked_AvailableSnapshots =
     (let fail = RUnlock (Return (RAvailableSnapshots nil_deref)) in
      RLock (fetch fail (\<lambda>s.
        if st_Height s = 0 then RUnlock (Return (RAvailableSnapshots (Ret ([], None))))
        else Load (\<lambda>c. fetch fail (\<lambda>s'. RUnlock (Return (RAvailableSnapshots
          (Ret ([descriptor (st_Height s') (marshal_current c)], None)))))))))"

definition locked_ExportSnapshot :: "u64 \<Rightarrow> u32 \<Rightarrow> dex_prog" where
  "locked_ExportSnapshot height format =
     (let fail = RUnlock (Return (RExportSnapshot nil_deref));
          refuse = (\<lambda>e. RUnlock (Return (RExportSnapshot (Ret ((None, None), Some (ErrorString e)))))) in
      RLock
       (if format \<noteq> snapshotFormat then refuse (''unsupported snapshot format '' @ dec_nat (unat format))
        else
          fetch fail (\<lambda>s.
            if st_Height s \<noteq> height then
              fetch fail (\<lambda>s'. refuse (''snapshot at height '' @ dec_nat (unat height) @
                '' not available (current: '' @ dec_nat (unat (st_Height s')) @ '')''))
            else
              Load (\<lambda>c. let data = marshal_current c in
                RUnlock (Return (RExportSnapshot (go_bind (chunks_of data (upto_u32 (nChunks data))) (\<lambda>ch.
                  Ret ((Some ch, Some (descriptor height data)), None)))))))))"

definition locked_ImportSnapshot :: "SnapshotDescriptor \<Rightarrow> chunk_chan \<Rightarrow> dex_prog" where
  "locked_ImportSnapshot desc chunks =
     (case import_snapshot desc chunks of
        (r, None) \<Rightarrow> Return (RImportSnapshot (Ret (r, None)))
      | (r, Some s) \<Rightarrow> Lock (Store (\<lambda>_. Some s) (Unlock (Return (RImportSnapshot (Ret (r, None)))))))"

definition locked_Simulate :: "range_order \<Rightarrow> Tx \<Rightarrow> dex_prog" where
  "locked_Simulate ord tx =
     RLock (fetch (Return (RSimulate nil_deref)) (\<lambda>s. RUnlock (Return (RSimulate
       (go_bind (executeTx (clone ord s) 0 tx) (\<lambda>(outcome, _, _). Ret (outcome, None)))))))"

fun dex_locked :: "range_order \<Rightarrow> engine_call \<Rightarrow> dex_prog" where
  "dex_locked ord (ECHandshake req) = locked_Handshake req"
| "dex_locked ord (ECCheckTx tx mctx) = Return (RCheckTx (go_bind (dex_gate tx) (\<lambda>v. Ret (v, None))))"
| "dex_locked ord (ECExecuteBlock b) = locked_ExecuteBlock ord b"
| "dex_locked ord ECCommit = locked_Commit"
| "dex_locked ord (ECQuery q) = locked_Query q"
| "dex_locked ord (ECBuildProposal x) = Return (RBuildProposal (go_bind (build_proposal ord x) (\<lambda>p. Ret (p, None))))"
| "dex_locked ord (ECVerifyProposal x) = Return (RVerifyProposal (go_bind (verify_proposal x) (\<lambda>v. Ret (v, None))))"
| "dex_locked ord (ECExtendVote x) = locked_ExtendVote ord"
| "dex_locked ord (ECVerifyExtension x) = Return (RVerifyExtension (Ret (verify_extension x, None)))"
| "dex_locked ord ECAvailableSnapshots = locked_AvailableSnapshots"
| "dex_locked ord (ECExportSnapshot h f) = locked_ExportSnapshot h f"
| "dex_locked ord (ECImportSnapshot d ch) = locked_ImportSnapshot d ch"
| "dex_locked ord (ECSimulate tx) = locked_Simulate ord tx"
| "dex_locked ord (ECOnBatchCertified e) = Return RNil"
| "dex_locked ord (ECOnBlockConstructed e) = Return RNil"

text \<open>A commit needs an executed block, as a server makes sure.\<close>

fun dex_may :: "engine_call \<Rightarrow> state option \<Rightarrow> bool" where
  "dex_may ECCommit staged = (staged \<noteq> None)"
| "dex_may x staged = True"

definition dex_object :: "App \<Rightarrow> (state option, state option) locked" where
  "dex_object app = \<lparr>lk_mu = free_mutex, lk_fields = app_current app, lk_staged = app_staged app\<rparr>"

lemmas dex_programs = locked_Handshake_def locked_ExecuteBlock_def locked_Commit_def locked_Query_def locked_ExtendVote_def
  locked_AvailableSnapshots_def locked_ExportSnapshot_def locked_ImportSnapshot_def locked_Simulate_def fetch_def Let_def

lemma dex_disciplined: "disciplined (dex_locked ord x) (sequential x)"
  by (cases x) (auto simp: disciplined_def dex_programs split: option.splits go.splits prod.splits)

lemma dex_within: "within (dex_locked ord x) 8"
  by (cases x) (auto simp: dex_programs split: option.splits go.splits prod.splits)

lemmas dex_handlers = Dex_Handshake_def Dex_CheckTx_def Dex_ExecuteBlock_def Dex_Commit_def Dex_Query_def Dex_BuildProposal_def
  Dex_VerifyProposal_def Dex_ExtendVote_def Dex_VerifyExtension_def Dex_AvailableSnapshots_def Dex_ExportSnapshot_def
  Dex_ImportSnapshot_def Dex_Simulate_def reading_def

text \<open>Run from beginning to end, a program is the method, and only these two can keep the lock.\<close>

fun may_leak :: "engine_call \<Rightarrow> bool" where
  "may_leak (ECExecuteBlock b) = True"
| "may_leak (ECSimulate tx) = True"
| "may_leak x = False"

lemma dex_run:
  "run (dex_locked ord x) False (app_current app, app_staged app) =
     (case handle (dex_lifecycle ord) x app of (r, app') \<Rightarrow>
        ((r, app_current app = None \<and> may_leak x), app_current app', app_staged app'))"
proof (cases "app_current app")
  case None
  then show ?thesis
    by (cases x) (auto simp: dex_programs dex_handlers dex_lifecycle_def optional_def dex_query_def export_snapshot_def
        split: option.splits prod.splits)
next
  case (Some c)
  then show ?thesis
    by (cases x) (auto simp: dex_programs dex_handlers dex_lifecycle_def optional_def dex_query_def export_snapshot_def
        available_snapshots_def marshal_current_def split: option.splits prod.splits go.splits)
qed

definition dex_fields :: "App \<Rightarrow> state option \<times> state option" where
  "dex_fields app = (app_current app, app_staged app)"

interpretation dex_calls: method_programs "dex_locked ord" may "dex_lifecycle ord" dex_fields for ord may
  by unfold_locales (auto simp: dex_disciplined dex_run dex_fields_def case_prod_unfold)

lemma dex_clean:
  assumes "fst s \<noteq> None" and "sequential x \<Longrightarrow> dex_may x (snd s)"
  shows "\<not> snd (fst (run (dex_locked ord x) False s)) \<and> fst (snd (run (dex_locked ord x) False s)) \<noteq> None"
proof -
  obtain c t where s: "s = (Some c, t)" using assms(1) by (cases s) auto
  have "app_current (snd (handle (dex_lifecycle ord) x \<lparr>app_current = Some c, app_staged = t\<rparr>)) \<noteq> None"
    using assms(2) s
    by (cases x) (auto simp: dex_lifecycle_def dex_handlers optional_def Let_def split: option.splits prod.splits go.splits)
  then show ?thesis using dex_run [of ord x "\<lparr>app_current = Some c, app_staged = t\<rparr>"] s by (simp add: case_prod_unfold)
qed

interpretation dex_live: live_app "dex_locked ord" sequential dex_may "\<lambda>s. fst s \<noteq> None" 8 for ord
  by unfold_locales (use dex_clean dex_within in auto)

lemma dex_object_fresh: "lk_mu (dex_object app) = free_mutex" "now (dex_object app) = dex_fields app"
  by (simp_all add: dex_object_def dex_fields_def now_def)

section \<open>The counter\<close>

type_synonym counter_prog = "(counter_state, CounterStaged, reply) prog"

definition counter_locked_Handshake :: "HandshakeRequest \<Rightarrow> counter_prog" where
  "counter_locked_Handshake req =
     (case hq_LastCommitted req of
        None \<Rightarrow> Return (RHandshake (Ret (\<lparr>hr_LastBlock = None, hr_AppHash = Some (computeHash 0), hr_Capabilities = 0\<rparr>, None)))
      | Some _ \<Rightarrow> RLock (Load (\<lambda>(_, _, height). Load (\<lambda>(_, hash, _). RUnlock (Return (RHandshake
          (Ret (\<lparr>hr_LastBlock = Some \<lparr>bid_Height = height, bid_Hash = zero_hash\<rparr>, hr_AppHash = Some hash, hr_Capabilities = 0\<rparr>, None))))))))"

definition counter_locked_ExecuteBlock :: "FinalizedBlock \<Rightarrow> counter_prog" where
  "counter_locked_ExecuteBlock block =
     RLock (Load (\<lambda>(newCount, _, _). RUnlock
       (case Counter_txs 0 newCount (fb_Txs block) of
          Ret (outcomes, newCount) \<Rightarrow>
            (let newHash = computeHash newCount in
             StoreStaged (\<lambda>st. st\<lparr>cs_count := newCount\<rparr>) (StoreStaged (\<lambda>st. st\<lparr>cs_appHash := newHash\<rparr>)
               (StoreStaged (\<lambda>st. st\<lparr>cs_height := fb_Height block\<rparr>) (Return (RExecuteBlock
                 (Ret (zero_BlockOutcome\<lparr>bo_TxOutcomes := outcomes, bo_AppHash := newHash\<rparr>, None)))))))
        | Panic m \<Rightarrow> Return (RExecuteBlock (Panic m))
        | Blocked \<Rightarrow> Return (RExecuteBlock Blocked))))"

definition counter_locked_Commit :: counter_prog where
  "counter_locked_Commit =
     Lock (LoadStaged (\<lambda>st. Store (\<lambda>(_, hash, height). (cs_count st, hash, height))
       (LoadStaged (\<lambda>st. Store (\<lambda>(count, _, height). (count, cs_appHash st, height))
         (LoadStaged (\<lambda>st. Store (\<lambda>(count, hash, _). (count, hash, cs_height st))
           (Unlock (Return (RCommit (Ret (\<lparr>cr_RetainHeight = 0\<rparr>, None)))))))))))"

definition counter_locked_Query :: counter_prog where
  "counter_locked_Query =
     RLock (Load (\<lambda>(count, _, _). Load (\<lambda>(_, _, height). RUnlock (Return (RQuery
       (Ret (zero_StateQueryResult\<lparr>sr_Code := 0, sr_Key := bytes ''count'', sr_Value := PutUint64 count,
          sr_Height := height\<rparr>, None)))))))"

fun counter_locked :: "engine_call \<Rightarrow> counter_prog" where
  "counter_locked (ECHandshake req) = counter_locked_Handshake req"
| "counter_locked (ECCheckTx tx mctx) = Return (RCheckTx
     (case validateTx tx of
        Some err \<Rightarrow> Ret (zero_GateVerdict\<lparr>gv_Code := 1, gv_Info := Error_text err\<rparr>, None)
      | None \<Rightarrow> Ret (zero_GateVerdict\<lparr>gv_Code := 0, gv_Priority := 0\<rparr>, None)))"
| "counter_locked (ECExecuteBlock b) = counter_locked_ExecuteBlock b"
| "counter_locked ECCommit = counter_locked_Commit"
| "counter_locked (ECQuery q) = counter_locked_Query"
| "counter_locked x = Return RNil"

definition counter_fields :: "CounterApp \<Rightarrow> counter_state \<times> CounterStaged" where
  "counter_fields app = (counter_committed app, ca_staged app)"

definition counter_object :: "CounterApp \<Rightarrow> (counter_state, CounterStaged) locked" where
  "counter_object app = \<lparr>lk_mu = free_mutex, lk_fields = counter_committed app, lk_staged = ca_staged app\<rparr>"

lemmas counter_programs = counter_locked_Handshake_def counter_locked_ExecuteBlock_def counter_locked_Commit_def
  counter_locked_Query_def Let_def

lemma counter_disciplined: "disciplined (counter_locked x) (sequential x)"
  by (cases x) (auto simp: disciplined_def counter_programs split: option.splits go.splits prod.splits)

lemma counter_within: "within (counter_locked x) 9"
  by (cases x) (auto simp: counter_programs split: option.splits go.splits prod.splits)

lemma counter_run:
  "run (counter_locked x) False (counter_fields app) =
     ((fst (handle counter_lifecycle x app), False), counter_fields (snd (handle counter_lifecycle x app)))"
  by (cases x) (auto simp: counter_programs counter_fields_def counter_committed_def counter_lifecycle_def optional_def
      Counter_Handshake_def Counter_CheckTx_def Counter_ExecuteBlock_def Counter_Commit_def Counter_Query_def
      split: option.splits go.splits prod.splits)

interpretation counter_calls: method_programs counter_locked may counter_lifecycle counter_fields for may
  by unfold_locales (auto simp: counter_disciplined counter_run)

lemma counter_fields_onto: "\<exists>app. s = counter_fields app"
  by (cases s) (auto simp: counter_fields_def counter_committed_def
      intro!: exI [of _ "\<lparr>ca_count = fst (fst s), ca_appHash = fst (snd (fst s)), ca_height = snd (snd (fst s)), ca_staged = snd s\<rparr>"])

interpretation counter_live: live_app counter_locked sequential "\<lambda>_ _. True" "\<lambda>_. True" 9
  by unfold_locales (use counter_run counter_fields_onto counter_within in \<open>metis fst_conv snd_conv\<close>)+

section \<open>An interleaving\<close>

text \<open>A snapshot query gets the lock, a commit announces itself and waits, and the query returns.\<close>

lemma happens_move:
  "happens H q may c (add_mset (x, P) M, ob) \<Longrightarrow> instr P ob = Some (P', ob') \<Longrightarrow> happens H q may c (add_mset (x, P') M, ob')"
  by (blast intro: happens.move go_on.intros)

definition executed_app :: App where
  "executed_app = \<lparr>app_current = Some newState, app_staged = Some newState\<rparr>"

lemma snapshots_overtaken:
  fixes ord
  defines "H \<equiv> dex_locked ord" and "ob \<equiv> dex_object executed_app"
  obtains P where "happens H sequential dex_may ({#}, ob)
    ({#(ECAvailableSnapshots, Return (RAvailableSnapshots (Ret ([], None)))), (ECCommit, Acquire P)#}, set_writer True ob)"
proof -
  let ?A = "\<lambda>P. (ECAvailableSnapshots, P)"
  obtain P where P: "locked_Commit = Lock P" by (simp add: locked_Commit_def Let_def)
  obtain R where R: "locked_AvailableSnapshots = RLock R" by (simp add: locked_AvailableSnapshots_def Let_def)
  have read: "instr R (set_writer True (set_readers 1 ob)) =
      Some (RUnlock (Return (RAvailableSnapshots (Ret ([], None)))), set_writer True (set_readers 1 ob))"
    using R by (auto simp: locked_AvailableSnapshots_def fetch_def Let_def ob_def dex_object_def set_readers_def set_writer_def
        executed_app_def newState_def)
  have "happens H sequential dex_may ({#}, ob) ({#?A (H ECAvailableSnapshots)#}, ob)"
    by (rule happens.start [OF happens.none]) simp
  then have "happens H sequential dex_may ({#}, ob) ({#?A (RLock R)#}, ob)" by (simp add: H_def R)
  from happens_move [OF this, of R "set_readers 1 ob"]
  have "happens H sequential dex_may ({#}, ob) ({#?A R#}, set_readers 1 ob)" by (simp add: ob_def dex_object_def free_mutex_def)
  from happens.start [OF this, of ECCommit]
  have "happens H sequential dex_may ({#}, ob) ({#(ECCommit, Lock P), ?A R#}, set_readers 1 ob)"
    by (simp add: P H_def ob_def dex_object_def set_readers_def executed_app_def)
  from happens_move [OF this, of "Acquire P" "set_writer True (set_readers 1 ob)"]
  have "happens H sequential dex_may ({#}, ob) ({#?A R, (ECCommit, Acquire P)#}, set_writer True (set_readers 1 ob))"
    by (simp add: ob_def dex_object_def free_mutex_def set_readers_def add_mset_commute)
  from happens_move [OF happens_move [OF this read], of "Return (RAvailableSnapshots (Ret ([], None)))" "set_writer True ob"]
  show ?thesis by (intro that) (simp add: ob_def dex_object_def free_mutex_def set_readers_def set_writer_def)
qed

section \<open>Properties\<close>

text \<open>
  C9. The handlers of the order book are atomic. However many goroutines call them, with their
  lock operations and memory accesses interleaved in any way (\<open>ExecuteBlock\<close> and \<open>Commit\<close> one
  at a time, as the server calls them), there is an order of the calls in which the methods,
  run one after the other, give the same replies, and the same application once all have
  returned. The order is extended at its end only, by calls that have started: a call that
  returned before another one started comes before it.
\<close>

theorem dex_handlers_atomic:
  assumes "happens (dex_locked ord) sequential may ({#}, dex_object app) (M, ob)"
    and "happens (dex_locked ord) sequential may (M, ob) (M', ob')"
  shows "\<exists>h h'. answers M \<subseteq># mset h \<and> mset (map fst h) \<subseteq># image_mset fst M \<and>
     answers M' \<subseteq># mset (h @ h') \<and> mset (map fst (h @ h')) \<subseteq># image_mset fst M' \<and>
     fst (handle_all (dex_lifecycle ord) (map fst (h @ h')) app) = map snd (h @ h') \<and>
     (all_returned M' \<longrightarrow> answers M' = mset (h @ h') \<and>
        now ob' = dex_fields (snd (handle_all (dex_lifecycle ord) (map fst (h @ h')) app)))"
  by (rule dex_calls.methods_linearise [OF dex_object_fresh assms])

theorem dex_handlers_atomic_witness:
  "\<exists>h. {#(ECAvailableSnapshots, RAvailableSnapshots (Ret ([], None)))#} \<subseteq># mset h \<and>
     mset (map fst h) \<subseteq># {#ECAvailableSnapshots, ECCommit#} \<and>
     fst (handle_all (dex_lifecycle (\<lambda>l ks. ks)) (map fst h) executed_app) = map snd h"
proof -
  obtain P where "happens (dex_locked (\<lambda>l ks. ks)) sequential dex_may ({#}, dex_object executed_app)
      ({#(ECAvailableSnapshots, Return (RAvailableSnapshots (Ret ([], None)))), (ECCommit, Acquire P)#},
       set_writer True (dex_object executed_app))"
    by (rule snapshots_overtaken)
  from dex_handlers_atomic [OF happens.none this] show ?thesis by (auto simp: answers_def)
qed

text \<open>
  No call of the order book waits forever: when \<open>Commit\<close> is called with an executed block
  only, every schedule of the calls that have started has at most eight steps per call, some
  goroutine can go on until all have returned, and then no lock is left behind.
\<close>

theorem dex_handlers_return:
  assumes "app_current app \<noteq> None" and "happens (dex_locked ord) sequential dex_may ({#}, dex_object app) (M, ob)"
    and "(go_on ^^ n) (M, ob) (M', ob')"
  shows "n \<le> 8 * size M \<and> (if all_returned M' then lk_mu ob' = free_mutex else \<exists>d. go_on (M', ob') d)"
  using dex_live.answered [OF dex_object_fresh(1) _ assms(2,3)] assms(1) dex_object_fresh(2) [of app]
  by (auto simp: dex_fields_def)

theorem dex_handlers_return_witness:
  "\<exists>P d. happens (dex_locked (\<lambda>l ks. ks)) sequential dex_may ({#}, dex_object executed_app)
       ({#(ECAvailableSnapshots, Return (RAvailableSnapshots (Ret ([], None)))), (ECCommit, Acquire P)#},
        set_writer True (dex_object executed_app)) \<and>
     go_on ({#(ECAvailableSnapshots, Return (RAvailableSnapshots (Ret ([], None)))), (ECCommit, Acquire P)#},
        set_writer True (dex_object executed_app)) d"
proof -
  obtain P where "happens (dex_locked (\<lambda>l ks. ks)) sequential dex_may ({#}, dex_object executed_app)
      ({#(ECAvailableSnapshots, Return (RAvailableSnapshots (Ret ([], None)))), (ECCommit, Acquire P)#},
       set_writer True (dex_object executed_app))" (is "happens _ _ _ _ (?M, ?ob)")
    by (rule snapshots_overtaken)
  moreover from dex_handlers_return [OF _ this, of 0 ?M ?ob]
  have "\<exists>d. go_on (?M, ?ob) d" by (simp add: executed_app_def all_returned_def)
  ultimately show ?thesis by blast
qed

end
