(* ===== verification/Whole_Stack.thy ===== *)
theory Whole_Stack
  imports Linearise Example_Locks
begin

text \<open>
  Server and application together: the goroutines of \<open>Concurrency\<close>, whose calls of the
  application are no longer one step but run the application's programs of \<open>Example_Locks\<close>,
  so that steps of \<^verbatim>\<open>server/server.go\<close>, \<^verbatim>\<open>server/state_machine.go\<close> and the handlers of the example
  applications interleave, all at the granularity of single memory accesses and lock
  operations. The proof is a simulation by \<open>Concurrency\<close>: a goroutine inside the application
  makes the one step there when its program takes effect. That \<open>ExecuteBlock\<close> and \<open>Commit\<close> of the
  application do not overlap, which \<open>App_Locks\<close> asks for, is what the mutex of the server gives.
\<close>

section \<open>Definitions\<close>

text \<open>A goroutine is at a point of the server, or at one with a call of the application under way.\<close>

datatype ('p, 'q) point = At pc | Within pc "('p, 'q, reply) prog"

fun app_point :: "pc \<Rightarrow> bool" where
  "app_point HsApp = True" | "app_point ExApp = True" | "app_point CoApp = True" | "app_point InApp = True"
| "app_point p = False"

text \<open>Where a method of the server goes on with the application's reply.\<close>

fun app_returns_pc :: "pc \<Rightarrow> reply \<Rightarrow> pc" where
  "app_returns_pc ExApp (RExecuteBlock r) =
     (case r of
        Ret (out, Some e) \<Rightarrow> ExFailing out e | Ret (out, None) \<Rightarrow> ExHold out
      | _ \<Rightarrow> leave (RExecuteBlock r))"
| "app_returns_pc CoApp (RCommit r) = (case r of Ret (res, err) \<Rightarrow> CoClear res err | _ \<Rightarrow> leave (RCommit r))"
| "app_returns_pc p r = leave r"

fun app_returns :: "pc \<Rightarrow> reply \<Rightarrow> 'a Server \<Rightarrow> pc \<times> 'a Server" where
  "app_returns HsApp (RHandshake r) s =
     (case r of
        Ret (resp, Some e) \<Rightarrow> (HsFailing resp e, s)
      | Ret (resp, None) \<Rightarrow>
          (case discoverCapabilities (s_app s) (hr_Capabilities resp) of
             (Some e, _) \<Rightarrow> (HsFailing resp e, s)
           | (None, warnings) \<Rightarrow> (HsCaps resp, s\<lparr>s_log := s_log s @ warnings\<rparr>))
      | _ \<Rightarrow> (leave (RHandshake r), s))"
| "app_returns p r s = (app_returns_pc p r, s)"

text \<open>
  One step. The application's state is in the object; the field of the server that stands
  for it in other theories is not used.
\<close>

fun micro :: "(engine_call \<Rightarrow> ('p, 'q, reply) prog) \<Rightarrow> engine_call \<Rightarrow> ('p, 'q) point \<Rightarrow> 'a Server \<Rightarrow> ('p, 'q) locked \<Rightarrow>
    (('p, 'q) point \<times> 'a Server \<times> ('p, 'q) locked) option" where
  "micro handler x (At p) s ob =
     (if app_point p then Some (Within p (handler x), s, ob)
      else map_option (\<lambda>(p, s). (At p, s, ob)) (advance x p s))"
| "micro handler x (Within p (Return r)) s ob = (case app_returns p r s of (p, s) \<Rightarrow> Some (At p, s, ob))"
| "micro handler x (Within p P) s ob = map_option (\<lambda>(P, ob). (Within p P, s, ob)) (instr P ob)"

type_synonym ('p, 'q, 'a) stack = "(engine_call \<times> ('p, 'q) point) multiset \<times> 'a Server \<times> ('p, 'q) locked"

inductive micro_steps :: "(engine_call \<Rightarrow> ('p, 'q, reply) prog) \<Rightarrow> ('p, 'q, 'a) stack \<Rightarrow> ('p, 'q, 'a) stack \<Rightarrow> bool"
  for handler where
  none: "micro_steps handler c c"
| move: "micro_steps handler c (add_mset (x, w) F, s, ob) \<Longrightarrow> micro handler x w s ob = Some (w', s', ob') \<Longrightarrow>
    micro_steps handler c (add_mset (x, w') F, s', ob')"
| spawn: "micro_steps handler c (F, s, ob) \<Longrightarrow> micro_steps handler c (add_mset (x, At Start) F, s, ob)"

fun reply_at :: "('p, 'q) point \<Rightarrow> reply option" where
  "reply_at (At (Finished r)) = Some r"
| "reply_at w = None"

definition replies :: "(engine_call \<times> ('p, 'q) point) multiset \<Rightarrow> (engine_call \<times> reply) multiset" where
  "replies F = image_mset (\<lambda>(x, w). (x, the (reply_at w))) {#t \<in># F. reply_at (snd t) \<noteq> None#}"

definition all_replied :: "(engine_call \<times> ('p, 'q) point) multiset \<Rightarrow> bool" where
  "all_replied F \<longleftrightarrow> (\<forall>t\<in>#F. reply_at (snd t) \<noteq> None)"

section \<open>Steps of the server and of the application\<close>

lemma advance_returns:
  assumes "app_point p" and "reaches x p" and "\<not> is_handshake x" and "p = InApp \<longrightarrow> enters x s" and "own_interfaces s"
  shows "advance x p s =
    Some (app_returns_pc p (fst (handle (s_app s) x (s_state s))), s\<lparr>s_state := snd (handle (s_app s) x (s_state s))\<rparr>)"
  using assms serve_handle [of x s]
  by (cases p) (auto simp: is_execute_iff call_eq apfst_def map_prod_def leave_def split: prod.splits go.splits option.splits)

lemma returns_placed:
  assumes "app_point p" and "reaches x p"
  shows "reaches x (app_returns_pc p v) \<and> app_returns_pc p v \<noteq> InApp \<and> (holds (app_returns_pc p v) \<longrightarrow> holds p)"
proof -
  have [simp]: "leave r \<noteq> InApp" for r by (simp add: leave_def)
  consider "p = HsApp" | "p = InApp" | "p = ExApp" | "p = CoApp" using assms(1) by (cases p) auto
  then show ?thesis
  proof cases
    case 3
    then show ?thesis using assms(2) by (cases v) (auto split: go.splits option.splits)
  next
    case 4
    then show ?thesis using assms(2) by (cases v) (auto split: go.splits)
  qed simp_all
qed

lemma serve_refused: "simple x \<Longrightarrow> \<not> enters x s \<Longrightarrow> fst (serve x (s\<lparr>s_state := a\<rparr>)) = fst (serve x s)"
  by (cases x) (auto simp: CheckTx_def Query_def BuildProposal_def VerifyProposal_def ExtendVote_def VerifyExtension_def
      AvailableSnapshots_def ExportSnapshot_def ImportSnapshot_def Simulate_def OnBatchCertified_def OnBlockConstructed_def
      with_guard_def CheckConcurrent_def split: option.splits)

lemma enters_state [simp]: "enters x (s\<lparr>s_state := a\<rparr>) = enters x s"
  by (cases x) auto

lemma advance_state:
  assumes "\<not> app_point p" and "advance x p s = Some (p', s')"
  shows "advance x p (s\<lparr>s_state := a\<rparr>) = Some (p', s'\<lparr>s_state := a\<rparr>)"
proof (cases p)
  case Start
  show ?thesis
  proof (cases "simple x")
    case True
    then show ?thesis using assms Start serve_refused [OF True, of s a] by (auto simp: begin_simple split: if_splits)
  next
    case False
    then show ?thesis using assms Start by (cases x; cases s; cases "s_guard s") (auto simp: shared split: if_splits)
  qed
qed (use assms in \<open>cases s; cases "s_guard s"; auto simp: shared split: if_splits engine_call.splits\<close>)+

lemma enters_upd [simp]:
  "enters y (store st s) = enters y s" "enters y (set_seqMu b s) = enters y s"
  "enters y (s\<lparr>s_lastOutcome := v\<rparr>) = enters y s" "enters y (s\<lparr>s_lastExecHeight := h\<rparr>) = enters y s"
  by (cases y; simp add: shared)+

lemma own_upd:
  "own_interfaces (store st s) = own_interfaces s" "own_interfaces (set_seqMu b s) = own_interfaces s"
  "own_interfaces (s\<lparr>s_lastOutcome := v\<rparr>) = own_interfaces s" "own_interfaces (s\<lparr>s_lastExecHeight := h\<rparr>) = own_interfaces s"
  "s_app (store st s) = s_app s" "s_app (set_seqMu b s) = s_app s"
  by (simp_all add: own_interfaces_def shared)

text \<open>What no step of a call other than a handshake changes.\<close>

lemma advance_keeps:
  assumes "\<not> app_point p" and "advance x p s = Some (p', s')" and "reaches x p" and "\<not> is_handshake x"
  shows "s_app s' = s_app s" and "own_interfaces s' = own_interfaces s" and "enters y s' = enters y s"
    and "p' = InApp \<Longrightarrow> enters x s'"
proof -
  have "s_app s' = s_app s \<and> own_interfaces s' = own_interfaces s \<and> enters y s' = enters y s \<and> (p' = InApp \<longrightarrow> enters x s')"
  proof (cases p)
    case Start
    then show ?thesis using assms
      by (cases x) (auto simp: own_upd split: if_splits)
  qed (use assms in \<open>auto simp: own_upd split: if_splits engine_call.splits\<close>)+
  then show "s_app s' = s_app s" and "own_interfaces s' = own_interfaces s" and "enters y s' = enters y s"
    and "p' = InApp \<Longrightarrow> enters x s'" by blast+
qed

text \<open>The server's mutex: a goroutine gets it when nobody has it, and keeps it until it gives it back.\<close>

lemma advance_mutex:
  assumes "\<not> app_point p" and "advance x p s = Some (p', s')" and "reaches x p" and "holds p \<Longrightarrow> g_seqMu (s_guard s)"
  shows "if holds p then holds p' \<longrightarrow> g_seqMu (s_guard s')
    else g_seqMu (s_guard s') = (g_seqMu (s_guard s) \<or> holds p') \<and> (holds p' \<longrightarrow> \<not> g_seqMu (s_guard s))"
proof (cases "holds p")
  case True
  then show ?thesis using assms by (cases p) (auto simp: shared split: if_splits engine_call.splits)
next
  case False
  then show ?thesis using free_step(3,4) [OF assms(2) False assms(3)] by auto
qed

section \<open>Simulation\<close>

text \<open>
  A goroutine with its ghost. In \<open>Concurrency\<close> it stands before the call of the application
  until its program is in effect, and right after it from then on.
\<close>

type_synonym ('p, 'q) shadow = "engine_call \<times> ('p, 'q) point \<times> App_Locks.mode \<times> reply \<times> bool"

fun coarse :: "('p, 'q) shadow \<Rightarrow> goroutine" where
  "coarse (x, At p, m, r) = (x, p)"
| "coarse (x, Within p P, m, r) = (x, if in_effect m then app_returns_pc p (fst r) else p)"

fun under_way :: "('p, 'q) shadow \<Rightarrow> (engine_call, 'p, 'q, reply) ghost multiset" where
  "under_way (x, At p, m, r) = {#}"
| "under_way (x, Within p P, m, r) = {#(x, P, m, r)#}"

fun holder :: "('p, 'q) shadow \<Rightarrow> bool" where
  "holder (x, At p, m, r) = holds p"
| "holder (x, Within p P, m, r) = holds p"

fun placed :: "'a Server \<Rightarrow> ('p, 'q) shadow \<Rightarrow> bool" where
  "placed s (x, At p, m, r) = (reaches x p \<and> \<not> is_handshake x \<and> (p = InApp \<longrightarrow> enters x s))"
| "placed s (x, Within p P, m, r) = (app_point p \<and> reaches x p \<and> \<not> is_handshake x \<and> (p = InApp \<longrightarrow> enters x s))"

definition inners :: "('p, 'q) shadow multiset \<Rightarrow> (engine_call, 'p, 'q, reply) ghost multiset" where
  "inners T = sum_mset (image_mset under_way T)"

lemma inners_add [simp]: "inners (add_mset t T) = under_way t + inners T"
  by (simp add: inners_def)

lemma inners_in: "(x, P, m, r) \<in># inners T \<Longrightarrow> \<exists>p. (x, Within p P, m, r) \<in># T"
proof (induction T)
  case (add t T)
  then show ?case by (cases t rule: under_way.cases) auto
qed (simp add: inners_def)

definition all_placed :: "'a Server \<Rightarrow> ('p, 'q) shadow multiset \<Rightarrow> bool" where
  "all_placed s T \<longleftrightarrow> (\<forall>t\<in>#T. placed s t)"

definition holders :: "('p, 'q) shadow multiset \<Rightarrow> nat" where
  "holders T = size {#t \<in># T. holder t#}"

lemma all_placed_add [simp]: "all_placed s (add_mset t T) \<longleftrightarrow> placed s t \<and> all_placed s T"
  by (simp add: all_placed_def)

lemma holders_add [simp]: "holders (add_mset t T) = of_bool (holder t) + holders T"
  by (simp add: holders_def)

lemma holders_0: "holders T = 0 \<Longrightarrow> t \<in># T \<Longrightarrow> \<not> holder t"
  unfolding holders_def using size_filter_some [of t T holder] by blast

definition all_done :: "(engine_call, 'p, 'q, reply) ghost multiset \<Rightarrow> bool" where
  "all_done D \<longleftrightarrow> (\<forall>g\<in>#D. case g of (x, P, m, r) \<Rightarrow> returned P)"

lemma all_done_add [simp]: "all_done (add_mset (x, P, m, r) D) \<longleftrightarrow> returned P \<and> all_done D"
  by (simp add: all_done_def)

lemma sequential_holds: "sequential x \<Longrightarrow> app_point p \<Longrightarrow> reaches x p \<Longrightarrow> \<not> is_handshake x \<Longrightarrow> holds p"
  by (cases p; cases x) auto

text \<open>What has returned, has returned in \<open>Concurrency\<close>.\<close>

abbreviation bare :: "('p, 'q) shadow \<Rightarrow> engine_call \<times> ('p, 'q) point" where
  "bare \<equiv> \<lambda>(x, w, m, r). (x, w)"

lemma reply_at_Some: "reply_at w = Some r \<longleftrightarrow> w = At (Finished r)"
  by (cases w rule: reply_at.cases) auto

lemma replies_add [simp]:
  "replies (add_mset (x, w) F) = (case reply_at w of None \<Rightarrow> replies F | Some r \<Rightarrow> add_mset (x, r) (replies F))"
  by (simp add: replies_def split: option.splits)

lemma replies_verdicts: "replies (image_mset bare T) \<subseteq># verdicts (image_mset coarse T)"
proof (induction T)
  case (add t T)
  obtain x w m r where t: "t = (x, w, m, r)" by (cases t)
  show ?case
  proof (cases "reply_at w")
    case None
    have "verdicts (image_mset coarse T) \<subseteq># verdicts (add_mset (coarse t) (image_mset coarse T))"
      by (cases "coarse t") (simp split: option.splits)
    then show ?thesis using add None by (simp add: t subset_mset.trans)
  next
    case (Some v)
    then show ?thesis using add by (simp add: t reply_at_Some)
  qed
qed (simp add: replies_def)

lemma all_replied_coarse:
  assumes "all_replied (image_mset bare T)"
  shows "replies (image_mset bare T) = verdicts (image_mset coarse T)" and "all_finished (image_mset coarse T)" and "inners T = {#}"
proof -
  have at: "\<exists>x v m r. t = (x, At (Finished v), m, r)" if "t \<in># T" for t
    using assms that by (cases t) (auto simp: all_replied_def reply_at_Some)
  then have "replies (image_mset bare T) = verdicts (image_mset coarse T) \<and> all_finished (image_mset coarse T) \<and> inners T = {#}"
  proof (induction T)
    case (add t T)
    then obtain x v m r where t: "t = (x, At (Finished v), m, r)" by (metis union_single_eq_member)
    then show ?case using add by (simp add: all_finished_def)
  qed (simp add: replies_def verdicts_def all_finished_def inners_def)
  then show "replies (image_mset bare T) = verdicts (image_mset coarse T)" "all_finished (image_mset coarse T)" "inners T = {#}"
    by blast+
qed

lemma verdict_calls: "image_mset fst (verdicts M) \<subseteq># image_mset fst M"
proof (induction M)
  case (add t M)
  then show ?case by (cases t) (auto split: option.splits intro: subset_mset.trans)
qed (simp add: verdicts_def)

lemma coarse_calls: "image_mset fst (image_mset coarse T) = image_mset fst (image_mset bare T)"
proof -
  have "fst (coarse t) = fst (bare t)" for t :: "('a, 'b) shadow" by (cases t rule: under_way.cases) auto
  then show ?thesis by (simp add: image_mset.compositionality comp_def)
qed

lemma steps_trans: "steps d e \<Longrightarrow> steps c d \<Longrightarrow> steps c e"
  by (induction rule: steps.induct) (auto intro: steps.one)

lemma micro_calls: "micro_steps handler c d \<Longrightarrow> image_mset fst (fst c) \<subseteq># image_mset fst (fst d)"
  by (induction rule: micro_steps.induct) (auto intro: subset_mset.trans)

definition engine_calls :: "(engine_call \<times> ('p, 'q) point) multiset \<Rightarrow> bool" where
  "engine_calls F \<longleftrightarrow> (\<forall>t\<in>#F. \<not> is_handshake (fst t))"

lemma engine_calls_iff: "engine_calls F \<longleftrightarrow> (\<forall>x\<in>#image_mset fst F. \<not> is_handshake x)"
  by (auto simp: engine_calls_def)

locale stacked_app = method_programs handler "\<lambda>_ _. True" app fields
  for handler :: "engine_call \<Rightarrow> ('p, 'q, reply) prog" and app :: "'a Lifecycle" and fields :: "'a \<Rightarrow> 'p \<times> 'q"
begin

definition coupled :: "('p, 'q) shadow multiset \<Rightarrow> (engine_call, 'p, 'q, reply) ghost multiset \<Rightarrow> 'a \<Rightarrow> 'a Server \<Rightarrow> ('p, 'q) locked \<Rightarrow> bool" where
  "coupled T D a s ob \<longleftrightarrow> s_app s = app \<and> own_interfaces s \<and> all_placed s T \<and>
     accords ob (inners T + D) (fields a) \<and> excludes ob (inners T + D) \<and> all_done D \<and>
     holders T \<le> of_bool (g_seqMu (s_guard s))"

lemma coupled_alone:
  assumes "coupled (add_mset t T) D a s ob" and "holder t"
  shows "holders T = 0" and "g_seqMu (s_guard s)"
  using assms by (auto simp: coupled_def of_bool_def split: if_splits)

lemma coupled_sequential:
  assumes "coupled (add_mset t T) D a s ob" and "holder t" and "g \<in># inners T + D"
  shows "\<not> active g"
proof
  assume act: "active g"
  obtain x P m r where g: "g = (x, P, m, r)" by (cases g)
  have "g \<in># inners T" using assms(1,3) act by (auto simp: coupled_def all_done_def active_def g)
  then obtain p where p: "(x, Within p P, m, r) \<in># T" using inners_in unfolding g by blast
  then have "placed s (x, Within p P, m, r)" using assms(1) by (auto simp: coupled_def all_placed_def)
  then have "holds p" using sequential_holds [of x p] act by (auto simp: g active_def)
  then show False using holders_0 [OF coupled_alone(1) [OF assms(1,2)] p] by simp
qed

text \<open>A step at a point of the server.\<close>

lemma placed_cong: "(\<And>y. enters y s' = enters y s) \<Longrightarrow> all_placed s' T = all_placed s T"
proof -
  assume "\<And>y. enters y s' = enters y s"
  then have "placed s' t = placed s t" if "t \<in># T" for t by (cases t rule: under_way.cases) auto
  then show ?thesis by (simp add: all_placed_def)
qed

lemma coupled_advance:
  assumes "coupled (add_mset (x, At p, m, r) T) D a s ob" and "\<not> app_point p" and "advance x p s = Some (p', s')"
  shows "coupled (add_mset (x, At p', m, r) T) D a s' ob"
proof -
  have p: "reaches x p" "\<not> is_handshake x" using assms(1) by (auto simp: coupled_def)
  note k = advance_keeps [OF assms(2,3) p]
  have mu: "holds p \<Longrightarrow> holders T = 0 \<and> g_seqMu (s_guard s)" using coupled_alone [OF assms(1)] by simp
  have "of_bool (holds p') + holders T \<le> of_bool (g_seqMu (s_guard s'))"
    using advance_mutex [OF assms(2,3) p(1)] mu assms(1) by (auto simp: coupled_def of_bool_def split: if_splits)
  moreover have "placed s' (x, At p', m, r)" using advance_reaches [OF assms(3) p(1)] p(2) k(4) by simp
  ultimately show ?thesis using assms(1) k(1,2) placed_cong [of s' s T, OF k(3)] by (simp add: coupled_def)
qed

text \<open>A call of the application begins, goes on and returns.\<close>

lemma coupled_enter:
  assumes "coupled (add_mset (x, At p, m, r) T) D a s ob" and "app_point p"
    and "m' = (if returned (handler x) then After else Before)" and "r' = fst (run (handler x) False (fields a))"
  shows "coupled (add_mset (x, Within p (handler x), m', r') T) D a s ob"
    and "in_effect m' \<Longrightarrow> run (handler x) False (fields a) = (r', fields a)"
proof -
  have p: "placed s (x, At p, m, r)" and G: "accords ob (inners T + D) (fields a)" "excludes ob (inners T + D)"
    using assms(1) by (simp_all add: coupled_def)
  have sole: "True \<and> (\<forall>g\<in>#inners T + D. \<not> active g)" if "sequential x"
    using coupled_sequential [OF assms(1)] sequential_holds [OF that assms(2)] p by auto
  note st = start_explained [OF G sole assms(3,4)]
  show "in_effect m' \<Longrightarrow> run (handler x) False (fields a) = (r', fields a)" by (rule st(3))
  show "coupled (add_mset (x, Within p (handler x), m', r') T) D a s ob"
    using assms(1,2) p st(1,2) by (simp add: coupled_def)
qed

lemma run_handle:
  assumes "run (handler x) False (fields a) = (r, f)"
  shows "fst r = fst (handle app x a)" and "f = fields (snd (handle app x a))"
  using alone [of x a] assms by auto

lemma coupled_instr:
  assumes "coupled (add_mset (x, Within p P, m, r) T) D a s ob" and "instr P ob = Some (P', ob')"
  obtains (silent) "coupled (add_mset (x, Within p P', mode_after P m, r) T) D a s ob'" and "in_effect (mode_after P m) = in_effect m"
  | (effect) r' where "coupled (add_mset (x, Within p P', mode_after P m, r') T) D (snd (handle app x a)) s ob'"
    and "in_effect (mode_after P m)" and "\<not> in_effect m"
    and "run (handler x) False (fields a) = (r', fields (snd (handle app x a)))"
proof -
  have G: "accords ob (add_mset (x, P, m, r) (inners T + D)) (fields a)" "excludes ob (add_mset (x, P, m, r) (inners T + D))"
    using assms(1) by (simp_all add: coupled_def)
  obtain r' f where f: "accords ob' (add_mset (x, P', mode_after P m, r') (inners T + D)) f"
    "excludes ob' (add_mset (x, P', mode_after P m, r') (inners T + D))"
    "in_effect (mode_after P m) = in_effect m \<longrightarrow> r' = r \<and> f = fields a"
    "in_effect (mode_after P m) \<noteq> in_effect m \<longrightarrow>
       \<not> in_effect m \<and> run (handler x) False (fields a) = (r', f) \<and> (sequential x \<longrightarrow> True)"
    by (rule move_explained [OF G assms(2)])
  have link: "coupled (add_mset (x, Within p P', mode_after P m, r') T) D b s ob'" if "f = fields b" for b
    using assms(1) f(1,2) that by (simp add: coupled_def)
  show ?thesis
  proof (cases "in_effect (mode_after P m) = in_effect m")
    case True
    then show ?thesis using silent link [of a] f(3) by simp
  next
    case False
    then show ?thesis using effect [of r'] link run_handle [of x a r' f] f(4) by auto
  qed
qed

lemma coupled_return:
  assumes "coupled (add_mset (x, Within p (Return v), m, r) T) D a s ob"
  shows "coupled (add_mset (x, At (app_returns_pc p v), m, r) T) (add_mset (x, Return v, m, r) D) a s ob"
    and "in_effect m" and "fst r = v" and "app_returns p v s = (app_returns_pc p v, s)"
proof -
  have p: "placed s (x, Within p (Return v), m, r)" and "known ob (x, Return v, m, r)"
    using assms by (auto simp: coupled_def accords_def)
  from returned_known [OF this(2)] show "in_effect m" "fst r = v" by simp_all
  show "app_returns p v s = (app_returns_pc p v, s)" using p by (cases p) auto
  have "placed s (x, At (app_returns_pc p v), m, r)" "holds (app_returns_pc p v) \<Longrightarrow> holds p"
    using p returns_placed [of p x v] by auto
  then show "coupled (add_mset (x, At (app_returns_pc p v), m, r) T) (add_mset (x, Return v, m, r) D) a s ob"
    using assms by (auto simp: coupled_def active_def of_bool_def split: if_splits)
qed

lemma coupled_spawn:
  "coupled T D a s ob \<Longrightarrow> \<not> is_handshake x \<Longrightarrow> coupled (add_mset (x, At Start, m, r) T) D a s ob"
  by (simp add: coupled_def)

text \<open>
  One step of the stack changes nothing in \<open>Concurrency\<close>, or is a step of the server there, or
  the program takes effect and is the call of the application there.
\<close>

type_synonym decision = "engine_call \<times> reply \<times> bool"

inductive shift :: "engine_call \<Rightarrow> pc \<times> decision multiset \<times> 'a \<times> 'a Server \<Rightarrow> pc \<times> decision multiset \<times> 'a \<times> 'a Server \<Rightarrow> bool"
  for x where
  still: "shift x c c"
| server: "\<not> app_point p \<Longrightarrow> advance x p s = Some (p', s') \<Longrightarrow> shift x (p, E, a, s) (p', E, a, s')"
| effect: "app_point p \<Longrightarrow> run (handler x) False (fields a) = (r, fields (snd (handle app x a))) \<Longrightarrow>
    shift x (p, E, a, s) (app_returns_pc p (fst r), add_mset (x, r) E, snd (handle app x a), s)"

definition track :: "('p, 'q) shadow \<Rightarrow> ('p, 'q) shadow multiset \<Rightarrow> (engine_call, 'p, 'q, reply) ghost multiset \<Rightarrow> 'a \<Rightarrow> 'a Server \<Rightarrow>
    pc \<times> decision multiset \<times> 'a \<times> 'a Server" where
  "track t T D a s = (snd (coarse t), decisions (under_way t + inners T + D), a, s)"

lemma decisions_add [simp]:
  "decisions (add_mset (x, P, m, r) G) = (if in_effect m then add_mset (x, r) (decisions G) else decisions G)"
  by (simp add: decisions_def mode_of_def)

definition mirrored :: "('p, 'q) shadow \<Rightarrow> ('p, 'q) shadow multiset \<Rightarrow> (engine_call, 'p, 'q, reply) ghost multiset \<Rightarrow> 'a \<Rightarrow>
    'a Server \<Rightarrow> ('p, 'q) point \<Rightarrow> 'a Server \<Rightarrow> ('p, 'q) locked \<Rightarrow> bool" where
  "mirrored t T D a s w' s' ob' \<longleftrightarrow> (\<exists>m' r' D' a'. coupled (add_mset (fst t, w', m', r') T) D' a' s' ob' \<and>
     shift (fst t) (track t T D a s) (track (fst t, w', m', r') T D' a' s'))"

lemma mirroredI:
  "coupled (add_mset (fst t, w', m', r') T) D' a' s' ob' \<Longrightarrow> shift (fst t) (track t T D a s) (track (fst t, w', m', r') T D' a' s') \<Longrightarrow>
   mirrored t T D a s w' s' ob'"
  unfolding mirrored_def by blast

lemma mirrored_At:
  assumes "coupled (add_mset (x, At p, m, r) T) D a s ob" and "micro handler x (At p) s ob = Some (w', s', ob')"
  shows "mirrored (x, At p, m, r) T D a s w' s' ob'"
proof (cases "app_point p")
  case False
  then obtain p' where p': "advance x p s = Some (p', s')" "w' = At p'" "ob' = ob" using assms(2) by auto
  show ?thesis
    by (rule mirroredI [of _ _ m r T D a]) (use coupled_advance [OF assms(1) False p'(1)] p' shift.server [OF False p'(1)] in \<open>simp_all add: track_def\<close>)
next
  case True
  define m' where "m' = (if returned (handler x) then After else Before)"
  define r' where "r' = fst (run (handler x) False (fields a))"
  note e = coupled_enter [OF assms(1) True m'_def r'_def]
  have w': "w' = Within p (handler x)" "s' = s" "ob' = ob" using assms(2) True by auto
  show ?thesis
  proof (cases "in_effect m'")
    case False
    then show ?thesis using e(1) w' by (intro mirroredI [of _ _ m' r' T D a]) (simp_all add: track_def shift.still)
  next
    case in_eff: True
    note run = e(2) [OF in_eff]
    then have f: "fields (snd (handle app x a)) = fields a" using run_handle(2) by simp
    have "coupled (add_mset (x, w', m', r') T) D (snd (handle app x a)) s' ob'" using e(1) w' f by (simp add: coupled_def)
    then show ?thesis using shift.effect [OF True, of x a r'] run f in_eff w'
      by (intro mirroredI [of _ _ m' r' T D "snd (handle app x a)"]) (simp_all add: track_def)
  qed
qed

lemma mirrored_Within:
  assumes "coupled (add_mset (x, Within p P, m, r) T) D a s ob" and "micro handler x (Within p P) s ob = Some (w', s', ob')"
  shows "mirrored (x, Within p P, m, r) T D a s w' s' ob'"
proof (cases "returned P")
  case True
  then obtain v where v: "P = Return v" by (auto simp: returned_iff)
  note ret = coupled_return [OF assms(1) [unfolded v]]
  have "w' = At (app_returns_pc p v)" "s' = s" "ob' = ob" using assms(2) v ret(4) by auto
  then show ?thesis using ret v
    by (intro mirroredI [of _ _ m r T "add_mset (x, Return v, m, r) D" a]) (simp_all add: track_def shift.still)
next
  case False
  then obtain P' where P': "instr P ob = Some (P', ob')" "w' = Within p P'" "s' = s" using assms(2) by (cases P) auto
  from assms(1) P'(1) show ?thesis
  proof (rule coupled_instr)
    assume "coupled (add_mset (x, Within p P', mode_after P m, r) T) D a s ob'" "in_effect (mode_after P m) = in_effect m"
    then show ?thesis using P' by (intro mirroredI [of _ _ "mode_after P m" r T D a]) (simp_all add: track_def shift.still)
  next
    fix r' assume l: "coupled (add_mset (x, Within p P', mode_after P m, r') T) D (snd (handle app x a)) s ob'"
      "in_effect (mode_after P m)" "\<not> in_effect m" "run (handler x) False (fields a) = (r', fields (snd (handle app x a)))"
    have "app_point p" using assms(1) by (simp add: coupled_def)
    then show ?thesis using shift.effect [of p x a r'] l P'
      by (intro mirroredI [of _ _ "mode_after P m" r' T D "snd (handle app x a)"]) (simp_all add: track_def)
  qed
qed

text \<open>Where a goroutine stands in \<open>Concurrency\<close>, it may stand.\<close>

lemma coarse_call: "coarse (x, w, m, r) = (x, snd (coarse (x, w, m, r)))"
  by (cases w) simp_all

lemma placed_coarse:
  assumes "placed s (x, w, m, r)"
  shows "placed s (x, At (snd (coarse (x, w, m, r))), m, r)"
    and "holds (snd (coarse (x, w, m, r))) \<Longrightarrow> holder (x, w, m, r)"
proof -
  have "placed s (x, At (app_returns_pc p v), m, r)" "holds (app_returns_pc p v) \<Longrightarrow> holds p" if "w = Within p P" for p P v
    using assms that returns_placed [of p x v] by auto
  then show "placed s (x, At (snd (coarse (x, w, m, r))), m, r)" "holds (snd (coarse (x, w, m, r))) \<Longrightarrow> holder (x, w, m, r)"
    using assms by (cases w; auto split: if_splits)+
qed

lemma shift_steps:
  assumes "coupled (add_mset (x, w, m, r) T) D a s ob" and "shift x (track (x, w, m, r) T D a s) (p', E', a', s')"
  shows "steps (add_mset (coarse (x, w, m, r)) M, s\<lparr>s_state := a\<rparr>) (add_mset (x, p') M, s'\<lparr>s_state := a'\<rparr>)"
proof -
  have c: "s_app s = app" "own_interfaces s" "placed s (x, w, m, r)" using assms(1) by (simp_all add: coupled_def)
  note pl = placed_coarse [OF c(3)]
  obtain p where p: "coarse (x, w, m, r) = (x, p)" using coarse_call by blast
  have at: "reaches x p" "\<not> is_handshake x" "p = InApp \<longrightarrow> enters x s" using pl(1) p by simp_all
  from assms(2) [unfolded track_def p snd_conv] show ?thesis
  proof cases
    case still
    then show ?thesis by (simp add: p steps.none)
  next
    case server
    then show ?thesis unfolding p using steps.one [OF steps.none step.move, OF advance_state] by simp
  next
    case (effect r)
    have "advance x p (s\<lparr>s_state := a\<rparr>) = Some (app_returns_pc p (fst (handle app x a)), s\<lparr>s_state := snd (handle app x a)\<rparr>)"
      using advance_returns [OF effect(5) at(1,2), of "s\<lparr>s_state := a\<rparr>"] at(3) c by (simp add: own_interfaces_def)
    then show ?thesis unfolding p using steps.one [OF steps.none step.move] effect run_handle(1) [OF effect(6)] by fastforce
  qed
qed

definition stands_for :: "('p, 'q, 'a) stack \<Rightarrow> 'a config \<Rightarrow> bool" where
  "stands_for c d = (case c of (F, s, ob) \<Rightarrow> \<exists>T D a. F = image_mset (\<lambda>(x, w, m, r). (x, w)) T \<and>
     d = (image_mset coarse T, s\<lparr>s_state := a\<rparr>) \<and> coupled T D a s ob)"

lemma coupled_micro:
  assumes "add_mset (x, w) F = image_mset bare T0" and "coupled T0 D a s ob" and "micro handler x w s ob = Some (w', s', ob')"
  obtains T m r m' r' D' a' where "T0 = add_mset (x, w, m, r) T" and "F = image_mset bare T"
    and "coupled (add_mset (x, w', m', r') T) D' a' s' ob'" and "shift x (track (x, w, m, r) T D a s) (track (x, w', m', r') T D' a' s')"
proof -
  from msed_map_invR [OF assms(1) [symmetric]] obtain t T where t: "T0 = add_mset t T" "bare t = (x, w)" "image_mset bare T = F" by blast
  obtain m r where mr: "t = (x, w, m, r)" using t(2) by (cases t) auto
  have "mirrored (x, w, m, r) T D a s w' s' ob'"
    using assms(2,3) unfolding t(1) mr by (cases w) (simp_all add: mirrored_At mirrored_Within del: micro.simps)
  then show ?thesis using that [of m r T] t mr by (auto simp: mirrored_def)
qed

lemma stands_for_move:
  assumes "stands_for (add_mset (x, w) F, s, ob) d" and "micro handler x w s ob = Some (w', s', ob')"
  shows "\<exists>e. steps d e \<and> stands_for (add_mset (x, w') F, s', ob') e"
proof -
  obtain T0 D a where T0: "add_mset (x, w) F = image_mset bare T0" "d = (image_mset coarse T0, s\<lparr>s_state := a\<rparr>)" "coupled T0 D a s ob"
    using assms(1) by (auto simp: stands_for_def)
  obtain T m r m' r' D' a' where T: "T0 = add_mset (x, w, m, r) T" "F = image_mset bare T"
    and l: "coupled (add_mset (x, w', m', r') T) D' a' s' ob'" and sh: "shift x (track (x, w, m, r) T D a s) (track (x, w', m', r') T D' a' s')"
    by (rule coupled_micro [OF T0(1,3) assms(2)])
  have "steps d (image_mset coarse (add_mset (x, w', m', r') T), s'\<lparr>s_state := a'\<rparr>)"
    using shift_steps [OF T0(3) [unfolded T(1)] sh [unfolded track_def [of "(x, w', m', r')"]], of "image_mset coarse T"]
    unfolding coarse_call [of x w' m' r', symmetric] T0(2) T(1) by simp
  moreover have "stands_for (add_mset (x, w') F, s', ob') (image_mset coarse (add_mset (x, w', m', r') T), s'\<lparr>s_state := a'\<rparr>)"
    unfolding stands_for_def using l T(2) by (auto intro!: exI [of _ "add_mset (x, w', m', r') T"])
  ultimately show ?thesis by blast
qed

lemma stands_for_steps:
  assumes "micro_steps handler c d" and "stands_for c e" and "engine_calls (fst d)"
  shows "\<exists>f. steps e f \<and> stands_for d f"
  using assms
proof (induction rule: micro_steps.induct)
  case (none c)
  then show ?case using steps.none by blast
next
  case (move c x w F s ob w' s' ob')
  then obtain f where f: "steps e f" "stands_for (add_mset (x, w) F, s, ob) f" by (auto simp: engine_calls_def)
  then show ?case using stands_for_move [OF f(2) move.hyps(2)] steps_trans by blast
next
  case (spawn c F s ob x)
  then obtain f where f: "steps e f" "stands_for (F, s, ob) f" by (auto simp: engine_calls_def)
  from f(2) obtain T D a where T: "F = image_mset bare T" "f = (image_mset coarse T, s\<lparr>s_state := a\<rparr>)" "coupled T D a s ob"
    by (auto simp: stands_for_def)
  let ?t = "(x, At Start, Before, undefined)"
  have "coupled (add_mset ?t T) D a s ob" using coupled_spawn [OF T(3)] spawn.prems(2) by (simp add: engine_calls_def)
  then have "stands_for (add_mset (x, At Start) F, s, ob) (add_mset (x, Start) (image_mset coarse T), s\<lparr>s_state := a\<rparr>)"
    unfolding stands_for_def using T(1) by (auto intro!: exI [of _ "add_mset ?t T"])
  moreover have "step f (add_mset (x, Start) (image_mset coarse T), s\<lparr>s_state := a\<rparr>)" unfolding T(2) by (rule step.spawn)
  ultimately show ?case using steps.one [OF f(1)] by blast
qed

lemma stands_for_replies:
  assumes "stands_for (F, s, ob) (M, c)"
  shows "replies F \<subseteq># verdicts M" and "image_mset fst M = image_mset fst F"
    and "all_replied F \<Longrightarrow> replies F = verdicts M \<and> all_finished M \<and> (\<exists>a. c = s\<lparr>s_state := a\<rparr> \<and> now ob = fields a)"
proof -
  obtain T D a where T: "F = image_mset bare T" "M = image_mset coarse T" "c = s\<lparr>s_state := a\<rparr>" "coupled T D a s ob"
    using assms by (auto simp: stands_for_def)
  show "replies F \<subseteq># verdicts M" "image_mset fst M = image_mset fst F"
    unfolding T(1,2) by (rule replies_verdicts, rule coarse_calls)
  show "replies F = verdicts M \<and> all_finished M \<and> (\<exists>a. c = s\<lparr>s_state := a\<rparr> \<and> now ob = fields a)" if "all_replied F"
  proof -
    note fin = all_replied_coarse [OF that [unfolded T(1)]]
    have "accords ob D (fields a)" "all_done D" using T(4) fin(3) by (simp_all add: coupled_def)
    then have "now ob = fields a" by (intro accords_done) (auto simp: all_done_def)
    then show ?thesis using fin(1,2) T(1-3) by blast
  qed
qed

lemma stack_linearise:
  assumes "s_app s0 = app" and "own_interfaces s0" and "lk_mu ob0 = free_mutex" and "now ob0 = fields (s_state s0)"
    and "micro_steps handler ({#}, s0, ob0) (F, s, ob)" and "micro_steps handler (F, s, ob) (F', s', ob')" and "engine_calls F'"
  shows "\<exists>h h'. replies F \<subseteq># mset h \<and> mset (map fst h) \<subseteq># image_mset fst F \<and>
     replies F' \<subseteq># mset (h @ h') \<and> mset (map fst (h @ h')) \<subseteq># image_mset fst F' \<and>
     fst (serve_all (map fst (h @ h')) s0) = map snd (h @ h') \<and>
     (all_replied F' \<longrightarrow> replies F' = mset (h @ h') \<and>
       (\<exists>a. snd (serve_all (map fst (h @ h')) s0) = s'\<lparr>s_state := a\<rparr> \<and> now ob' = fields a))"
proof -
  have ok: "engine_calls F" using micro_calls [OF assms(6)] assms(7) unfolding engine_calls_iff fst_conv by (meson mset_subset_eqD)
  have "coupled {#} {#} (s_state s0) s0 ob0"
    using assms(1-4) explained_fresh [of ob0] by (simp add: coupled_def explained_def all_placed_def all_done_def holders_def inners_def)
  then have "stands_for ({#}, s0, ob0) ({#}, s0)"
    unfolding stands_for_def by (auto intro!: exI [of _ "{#}"] exI [of _ "s_state s0"])
  from stands_for_steps [OF assms(5) this] ok obtain M c where M: "steps ({#}, s0) (M, c)" "stands_for (F, s, ob) (M, c)" by auto
  from stands_for_steps [OF assms(6) M(2)] assms(7) obtain M' c' where M': "steps (M, c) (M', c')" "stands_for (F', s', ob') (M', c')" by auto
  note 1 = stands_for_replies [OF M(2)] and 2 = stands_for_replies [OF M'(2)]
  have hs: "no_handshake M" "no_handshake M'" using ok assms(7) 1(2) 2(2) by (simp_all add: no_handshake_iff engine_calls_iff)
  have "tracks ({#}, s0) s0" by (rule tracks.idle) (simp_all add: free_def engine_only_def)
  moreover have "history s0 [] s0" "mset [] = verdicts {#}" by (simp_all add: history_def verdicts_def)
  ultimately obtain h \<sigma> where h: "tracks (M, c) \<sigma>" "history s0 h \<sigma>" "mset h = verdicts M"
    using history_steps [OF M(1), of s0 s0 "[]"] hs(1) by auto
  obtain h' \<sigma>' where h': "tracks (M', c') \<sigma>'" "history s0 (h @ h') \<sigma>'" "mset (h @ h') = verdicts M'"
    using history_steps [OF M'(1) h(1,2)] h(3) hs(2) by auto
  have calls: "mset (map fst h) \<subseteq># image_mset fst F" "mset (map fst (h @ h')) \<subseteq># image_mset fst F'"
    using verdict_calls [of M] verdict_calls [of M'] h(3) h'(3) 1(2) 2(2) unfolding mset_map by simp_all
  show ?thesis using 1(1) 2(1,3) calls h(3) h'(2,3) tracks_finished [OF h'(1)]
    by (intro exI [of _ h] exI [of _ h']) (auto simp: history_def)
qed

end

interpretation dex_stack: stacked_app "dex_locked ord" "dex_lifecycle ord" dex_fields for ord
  by unfold_locales

interpretation counter_stack: stacked_app counter_locked counter_lifecycle counter_fields
  by unfold_locales

section \<open>Properties\<close>

text \<open>
  C10. Server and order book together behave like one call at a time. However many goroutines
  call a server in front of the order book, and however the single memory accesses and lock
  operations of server, guard and handlers interleave (handshakes apart), there is an order of
  the calls in which the methods of the server, run one after the other on the application as
  a whole, give the same replies and, once all calls have returned, the same server and the
  same application. The order is extended at its end only, by calls that have started.
\<close>

theorem dex_stack_linearises:
  assumes "s_app s0 = dex_lifecycle ord" and "own_interfaces s0"
    and "micro_steps (dex_locked ord) ({#}, s0, dex_object (s_state s0)) (F, s, ob)"
    and "micro_steps (dex_locked ord) (F, s, ob) (F', s', ob')" and "engine_calls F'"
  shows "\<exists>h h'. replies F \<subseteq># mset h \<and> mset (map fst h) \<subseteq># image_mset fst F \<and>
     replies F' \<subseteq># mset (h @ h') \<and> mset (map fst (h @ h')) \<subseteq># image_mset fst F' \<and>
     fst (serve_all (map fst (h @ h')) s0) = map snd (h @ h') \<and>
     (all_replied F' \<longrightarrow> replies F' = mset (h @ h') \<and>
       (\<exists>app. snd (serve_all (map fst (h @ h')) s0) = s'\<lparr>s_state := app\<rparr> \<and> now ob' = dex_fields app))"
  by (rule dex_stack.stack_linearise [OF assms(1,2) dex_object_fresh assms(3-5)])

text \<open>A snapshot query through the server, instruction by instruction.\<close>

lemma snapshots_served:
  fixes ord
  defines "s \<equiv> New (dex_lifecycle ord) Dex_New"
  shows "micro_steps (dex_locked ord) ({#}, s, dex_object (s_state s))
    ({#(ECAvailableSnapshots, At (Finished (RAvailableSnapshots (Ret ([], None)))))#}, s, dex_object (s_state s))"
proof -
  let ?H = "dex_locked ord" and ?ob = "dex_object Dex_New"
  obtain R where R: "locked_AvailableSnapshots = RLock R" by (simp add: locked_AvailableSnapshots_def Let_def)
  have read: "instr R (set_readers 1 ?ob) = Some (RUnlock (Return (RAvailableSnapshots (Ret ([], None)))), set_readers 1 ?ob)"
    and live: "\<not> returned R"
    using R by (auto simp: locked_AvailableSnapshots_def fetch_def Let_def dex_object_def set_readers_def Dex_New_def newState_def)
  have inside: "micro ?H x (Within InApp R) s (set_readers 1 ?ob) =
      Some (Within InApp (RUnlock (Return (RAvailableSnapshots (Ret ([], None))))), s, set_readers 1 ?ob)" for x
    using read live by (cases R) auto
  have state: "s_state s = Dex_New" by (simp add: s_def New_def)
  have "micro_steps ?H ({#}, s, ?ob) ({#(ECAvailableSnapshots, At Start)#}, s, ?ob)" by (rule micro_steps.spawn [OF micro_steps.none])
  then have "micro_steps ?H ({#}, s, ?ob) ({#(ECAvailableSnapshots, At InApp)#}, s, ?ob)"
    by (rule micro_steps.move) (simp add: s_def New_def dex_lifecycle_def)
  then have "micro_steps ?H ({#}, s, ?ob) ({#(ECAvailableSnapshots, Within InApp (RLock R))#}, s, ?ob)"
    by (rule micro_steps.move) (simp add: R)
  then have "micro_steps ?H ({#}, s, ?ob) ({#(ECAvailableSnapshots, Within InApp R)#}, s, set_readers 1 ?ob)"
    by (rule micro_steps.move) (simp add: dex_object_def free_mutex_def)
  from micro_steps.move [OF this inside]
  have "micro_steps ?H ({#}, s, ?ob)
      ({#(ECAvailableSnapshots, Within InApp (Return (RAvailableSnapshots (Ret ([], None)))))#}, s, ?ob)"
    by (rule micro_steps.move) (simp add: dex_object_def free_mutex_def set_readers_def)
  then show ?thesis unfolding state by (rule micro_steps.move) (simp add: leave_def)
qed

theorem dex_stack_linearises_witness:
  "\<exists>h. mset h = {#(ECAvailableSnapshots, RAvailableSnapshots (Ret ([], None)))#} \<and>
     fst (serve_all (map fst h) (New (dex_lifecycle (\<lambda>l ks. ks)) Dex_New)) = map snd h"
proof -
  let ?s = "New (dex_lifecycle (\<lambda>l ks. ks)) Dex_New"
  have "s_app ?s = dex_lifecycle (\<lambda>l ks. ks)" "own_interfaces ?s" by (simp_all add: New_def own_interfaces_def)
  from dex_stack_linearises [OF this micro_steps.none snapshots_served]
  show ?thesis by (auto simp: engine_calls_def all_replied_def replies_def)
qed

end
