(* ===== verification/Stack_Live.thy ===== *)
theory Stack_Live
  imports Whole_Stack
begin

text \<open>
  Server and application together return every call: no schedule of the steps of
  \<open>Whole_Stack\<close> goes on forever, and none gets stuck. Neither half can promise this alone. The
  server leaves its mutex locked when the application panics under it, and the order book
  panics in \<open>Commit\<close> when nothing is staged; but a commit that passes the guard comes after an
  executed block, and only a commit takes that block away.
\<close>

section \<open>Definitions\<close>

text \<open>A step of a call that is under way.\<close>

inductive micro_move :: "(engine_call \<Rightarrow> ('p, 'q, reply) prog) \<Rightarrow> ('p, 'q, 'a) stack \<Rightarrow> ('p, 'q, 'a) stack \<Rightarrow> bool"
  for handler where
  "micro handler x w s ob = Some (w', s', ob') \<Longrightarrow> micro_move handler (add_mset (x, w) F, s, ob) (add_mset (x, w') F, s', ob')"

lemma micro_move_steps: "micro_move handler d e \<Longrightarrow> micro_steps handler c d \<Longrightarrow> micro_steps handler c e"
  by (induction rule: micro_move.induct) (rule micro_steps.move)

lemma micro_moves_steps: "(micro_move handler ^^ n) d e \<Longrightarrow> micro_steps handler c d \<Longrightarrow> micro_steps handler c e"
  by (induction n arbitrary: e) (auto intro: micro_move_steps)

lemma micro_move_calls: "micro_move handler d e \<Longrightarrow> image_mset fst (fst e) = image_mset fst (fst d)"
  by (induction rule: micro_move.induct) simp

lemma micro_moves_calls: "(micro_move handler ^^ n) d e \<Longrightarrow> image_mset fst (fst e) = image_mset fst (fst d)"
  by (induction n arbitrary: e) (auto dest: micro_move_calls)

lemma micro_moveI: "(x, w) \<in># F \<Longrightarrow> micro handler x w s ob \<noteq> None \<Longrightarrow> \<exists>d. micro_move handler (F, s, ob) d"
  by (cases "micro handler x w s ob") (auto dest!: multi_member_split intro: micro_move.intros)

section \<open>Every schedule ends\<close>

text \<open>
  What a call has left: the points of the server before it, and the instructions of the
  application if its call of the application is still to come or under way.
\<close>

fun before_app :: "pc \<Rightarrow> bool" where
  "before_app Start = True" | "before_app HsApp = True" | "before_app ExLocked = True" | "before_app ExAcquired = True"
| "before_app ExApp = True" | "before_app CoLocked = True" | "before_app CoAcquired = True" | "before_app CoApp = True"
| "before_app InApp = True" | "before_app p = False"

fun left :: "nat \<Rightarrow> ('p, 'q) point \<Rightarrow> nat \<Rightarrow> bool" where
  "left k (At p) n \<longleftrightarrow> n = rank p + (if before_app p then k + 1 else 0)"
| "left k (Within p P) n \<longleftrightarrow> app_point p \<and> (\<exists>j. within P j \<and> n = rank p + j)"

lemma app_point_before: "app_point p \<Longrightarrow> before_app p"
  by (cases p) auto

lemma advance_before: "\<not> app_point p \<Longrightarrow> advance x p s = Some (p', s') \<Longrightarrow> before_app p' \<Longrightarrow> before_app p"
  by (cases p) (auto split: if_splits engine_call.splits)

lemma returns_rank: "app_point p \<Longrightarrow> rank (fst (app_returns p r s)) < rank p \<and> \<not> before_app (fst (app_returns p r s))"
  by (cases p; cases r) (auto simp: leave_def split: go.splits option.splits prod.splits)

lemma ends_returns: "app_point p \<Longrightarrow> \<not> hung r \<Longrightarrow> ends (app_returns_pc p r)"
  by (cases p; cases r) (auto simp: leave_def split: go.splits option.splits)

lemma left_micro:
  assumes "\<And>x. within (handler x) k" and "left k w n" and "micro handler x w s ob = Some (w', s', ob')"
  shows "\<exists>j<n. left k w' j"
proof (cases w)
  case (At p)
  show ?thesis
  proof (cases "app_point p")
    case True
    then show ?thesis using assms app_point_before [OF True] by (intro exI [of _ "rank p + k"]) (auto simp: At)
  next
    case False
    then obtain p' where p': "advance x p s = Some (p', s')" "w' = At p'" using assms(3) by (auto simp: At)
    then show ?thesis using assms(2) advance_rank [OF p'(1)] advance_before [OF False p'(1)]
      by (intro exI [of _ "rank p' + (if before_app p' then k + 1 else 0)"]) (auto simp: At)
  qed
next
  case (Within p P)
  then obtain j where j: "app_point p" "within P j" "n = rank p + j" using assms(2) by auto
  show ?thesis
  proof (cases "returned P")
    case True
    then obtain v where v: "P = Return v" by (auto simp: returned_iff)
    obtain p' where p': "app_returns p v s = (p', s')" "w' = At p'" using assms(3) by (auto simp: Within v split: prod.splits)
    then show ?thesis using returns_rank [OF j(1), of v s] j(3) by (intro exI [of _ "rank p'"]) auto
  next
    case False
    then obtain P' where P': "instr P ob = Some (P', ob')" "w' = Within p P'" using assms(3) by (cases P) (auto simp: Within)
    from within_instr [OF j(2) P'(1)] obtain i where "j = Suc i" "within P' i" by blast
    then show ?thesis using j P'(2) by auto
  qed
qed

definition load :: "nat \<Rightarrow> (engine_call \<times> ('p, 'q) point) multiset \<Rightarrow> nat \<Rightarrow> bool" where
  "load k F n \<longleftrightarrow> (\<exists>N. image_mset fst N = F \<and> (\<forall>u\<in>#N. left k (snd (fst u)) (snd u)) \<and> n = sum_mset (image_mset snd N))"

lemma load_add: "load k (add_mset (x, w) F) n \<longleftrightarrow> (\<exists>i j. left k w i \<and> load k F j \<and> n = i + j)"
proof
  assume "load k (add_mset (x, w) F) n"
  then obtain N where N: "image_mset fst N = add_mset (x, w) F" "\<forall>u\<in>#N. left k (snd (fst u)) (snd u)" "n = sum_mset (image_mset snd N)"
    by (auto simp: load_def)
  from msed_map_invR [OF N(1)] obtain u N' where u: "N = add_mset u N'" "fst u = (x, w)" "image_mset fst N' = F" by blast
  then show "\<exists>i j. left k w i \<and> load k F j \<and> n = i + j" using N(2,3)
    by (intro exI [of _ "snd u"] exI [of _ "sum_mset (image_mset snd N')"]) (auto simp: load_def)
next
  assume "\<exists>i j. left k w i \<and> load k F j \<and> n = i + j"
  then obtain i N where "left k w i" "image_mset fst N = F" "\<forall>u\<in>#N. left k (snd (fst u)) (snd u)" "n = i + sum_mset (image_mset snd N)"
    by (auto simp: load_def)
  then show "load k (add_mset (x, w) F) n" unfolding load_def by (intro exI [of _ "add_mset ((x, w), i) N"]) auto
qed

lemma load_moves:
  assumes "\<And>x. within (handler x) k" and "(micro_move handler ^^ n) c d" and "load k (fst c) i"
  shows "n \<le> i"
  using assms(2,3)
proof (induction n arbitrary: c i)
  case (Suc n)
  then obtain e where e: "micro_move handler c e" "(micro_move handler ^^ n) e d" by (meson relpowp_Suc_D2)
  from e(1) have "\<exists>j<i. load k (fst e) j"
  proof cases
    case (1 x w s ob w' s' ob' F)
    then obtain u v where u: "left k w u" "load k F v" "i = u + v" using Suc.prems(2) by (auto simp: load_add)
    from left_micro [OF assms(1) u(1) 1(3)] obtain j where "j < u" "left k w' j" by blast
    then show ?thesis using u 1 by (intro exI [of _ "j + v"]) (auto simp: load_add)
  qed
  then obtain j where j: "j < i" "load k (fst e) j" by blast
  from Suc.IH [OF e(2) j(2)] j(1) show ?case by simp
qed simp

text \<open>From the start of a call there are ten points of the server and the application's instructions.\<close>

lemma load_start:
  assumes "\<And>x. within (handler x) k" and "micro_steps handler ({#}, s0, ob0) c"
  shows "\<exists>n \<le> (k + 10) * size (fst c). load k (fst c) n"
  using assms(2)
proof (induction "({#} :: (engine_call \<times> ('a, 'b) point) multiset, s0, ob0)" c rule: micro_steps.induct)
  case none
  then show ?case by (simp add: load_def)
next
  case (move x w F s ob w' s' ob')
  then obtain n where n: "n \<le> (k + 10) * (size F + 1)" "load k (add_mset (x, w) F) n" by auto
  then obtain u v where u: "left k w u" "load k F v" "n = u + v" by (auto simp: load_add)
  from left_micro [OF assms(1) u(1) move.hyps(3)] obtain j where "j < u" "left k w' j" by blast
  then show ?case using u n(1) by (intro exI [of _ "j + v"]) (auto simp: load_add)
next
  case (spawn F s ob x)
  then obtain n where "n \<le> (k + 10) * size F" "load k F n" by auto
  then show ?case by (intro exI [of _ "k + 10 + n"]) (auto simp: load_add)
qed

section \<open>No schedule gets stuck\<close>

lemma free_state:
  assumes "advance x p s = Some (p', s')" and "\<not> app_point p" and "\<not> holds p" and "reaches x p" and "\<not> is_handshake x"
  shows "g_state (s_guard s') = g_state (s_guard s)"
  using assms by (cases p; cases x) (auto simp: shared split: if_splits)

lemma owner_add [simp]: "owner (add_mset (x, p) M) \<longleftrightarrow> holds p \<or> owner M"
  by (auto simp: owner_def)

text \<open>
  An application that returns from its handlers, and from \<open>Commit\<close> when a block has been
  executed since the last one.
\<close>

locale answering_app = stacked_app handler app fields + live: live_app handler sequential may good bound
  for handler :: "engine_call \<Rightarrow> ('p, 'q, reply) prog" and app :: "'a Lifecycle" and fields :: "'a \<Rightarrow> 'p \<times> 'q"
    and may :: "engine_call \<Rightarrow> 'q \<Rightarrow> bool" and good :: "'p \<times> 'q \<Rightarrow> bool" and bound :: nat +
  assumes executes: "good (fields a) \<Longrightarrow> \<exists>out err. fst (handle app (ECExecuteBlock b) a) = RExecuteBlock (Ret (out, err)) \<and>
      (err = None \<longrightarrow> may ECCommit (snd (fields (snd (handle app (ECExecuteBlock b) a)))))"
    and commits: "good (fields a) \<Longrightarrow> may ECCommit (snd (fields a)) \<Longrightarrow> \<exists>res err. fst (handle app ECCommit a) = RCommit (Ret (res, err))"
    and may_execute: "may (ECExecuteBlock b) q"
    and finite: "never_hangs app"
begin

abbreviation staged :: "'a \<Rightarrow> bool" where
  "staged a \<equiv> may ECCommit (snd (fields a))"

abbreviation settled :: "'a \<Rightarrow> 'a Server \<Rightarrow> bool" where
  "settled a s \<equiv> g_state (s_guard s) = stateExecuted \<longrightarrow> staged a"

text \<open>What the goroutine with the server's mutex relies on.\<close>

fun fit :: "pc \<Rightarrow> 'a \<Rightarrow> 'a Server \<Rightarrow> bool" where
  "fit ExAcquired a s = True" | "fit ExApp a s = (g_state (s_guard s) \<noteq> stateExecuted)"
| "fit (ExHold out) a s = staged a" | "fit (ExCompleting out) a s = staged a" | "fit (ExFailing out e) a s = True"
| "fit CoAcquired a s = staged a" | "fit CoApp a s = staged a"
| "fit (CoClear res err) a s = True" | "fit (CoCompleting res err) a s = True"
| "fit p a s = settled a s"

lemma fit_kept: "fit p a s \<Longrightarrow> g_state (s_guard s') = g_state (s_guard s) \<Longrightarrow> (staged a \<Longrightarrow> staged a') \<Longrightarrow> fit p a' s'"
  by (cases p) auto

lemma fit_server:
  assumes "advance x p s = Some (p', s')" and "\<not> app_point p" and "holds p" and "fit p a s" and "reaches x p" and "\<not> is_handshake x"
  shows "if holds p' then fit p' a s' else settled a s' \<and> \<not> g_seqMu (s_guard s')"
  using assms by (cases p) (auto simp: shared guard_states split: if_splits engine_call.splits)

lemma simple_keeps_staged:
  assumes "\<not> sequential x" and "staged a"
  shows "staged (snd (handle app x a))"
proof -
  obtain P q where f: "fields a = (P, q)" by (cases "fields a")
  have "\<exists>m. keeps (handler x) False m" using discipline [of x] assms(1) by (auto simp: disciplined_def returned_iff intro: exI [of _ After])
  then have "snd (snd (run (handler x) False (fields a))) = q" using keeps_staged [of "handler x" _ False P q q] unfolding f by (metis snd_conv)
  then show ?thesis using alone [of x a] assms(2) f by auto
qed

lemma fit_effect:
  assumes "app_point p" and "fit p a s" and "good (fields a)" and "reaches x p" and "\<not> is_handshake x" and "holds p"
  shows "holds (app_returns_pc p (fst (handle app x a)))" and "fit (app_returns_pc p (fst (handle app x a))) (snd (handle app x a)) s"
proof -
  consider (execute) b where "p = ExApp" "x = ECExecuteBlock b" | (commit) "p = CoApp" "x = ECCommit"
    using assms(1,4-6) by (cases p) (auto simp: is_execute_iff)
  then have "holds (app_returns_pc p (fst (handle app x a))) \<and> fit (app_returns_pc p (fst (handle app x a))) (snd (handle app x a)) s"
  proof cases
    case execute
    then show ?thesis using executes [OF assms(3), of b] by (auto simp del: handle.simps split: option.splits)
  next
    case commit
    then show ?thesis using commits [OF assms(3)] assms(2) by (auto simp del: handle.simps)
  qed
  then show "holds (app_returns_pc p (fst (handle app x a)))" "fit (app_returns_pc p (fst (handle app x a))) (snd (handle app x a)) s"
    by blast+
qed

lemma effect_clean:
  assumes "app_point p" and "holds p \<Longrightarrow> fit p a s" and "good (fields a)" and "reaches x p" and "\<not> is_handshake x"
    and "run (handler x) False (fields a) = (r, fields (snd (handle app x a)))"
  shows "\<not> snd r" and "good (fields (snd (handle app x a)))"
proof -
  have "may x (snd (fields a))" if "sequential x"
    using that assms(1,2,4,5) may_execute by (cases p; cases x) auto
  from live.clean [OF assms(3) this] assms(6) show "\<not> snd r" "good (fields (snd (handle app x a)))" by simp_all
qed


text \<open>The whole: replies that leave no lock behind, and a block staged whenever a commit will need one.\<close>

definition committable :: "goroutine multiset \<Rightarrow> 'a \<Rightarrow> 'a Server \<Rightarrow> bool" where
  "committable M a s \<longleftrightarrow> (\<forall>t\<in>#M. holds (snd t) \<longrightarrow> fit (snd t) a s) \<and> (if g_seqMu (s_guard s) then owner M else settled a s)"

definition healthy :: "goroutine multiset \<Rightarrow> decision multiset \<Rightarrow> 'a \<Rightarrow> 'a Server \<Rightarrow> bool" where
  "healthy M E a s \<longleftrightarrow> good (fields a) \<and> (\<forall>(x, r, b)\<in>#E. \<not> b) \<and> committable M a s \<and> (\<forall>t\<in>#M. ends (snd t))"

text \<open>The others, when a goroutine with or without the mutex makes a step.\<close>

lemma committable_holder:
  assumes "\<forall>t\<in>#M. \<not> holds (snd t)" and "if holds p' then fit p' a' s' \<and> g_seqMu (s_guard s') else settled a' s' \<and> \<not> g_seqMu (s_guard s')"
  shows "committable (add_mset (x, p') M) a' s'"
  using assms by (auto simp: committable_def split: if_splits)

lemma committable_other:
  assumes "committable (add_mset (x, p) M) a s" and "\<not> holds p" and "g_state (s_guard s') = g_state (s_guard s)"
    and "staged a \<Longrightarrow> staged a'" and "g_seqMu (s_guard s') = (g_seqMu (s_guard s) \<or> holds p')" and "holds p' \<Longrightarrow> \<not> g_seqMu (s_guard s) \<and> fit p' a' s'"
  shows "committable (add_mset (x, p') M) a' s'"
proof -
  have "\<forall>t\<in>#M. holds (snd t) \<longrightarrow> fit (snd t) a' s'" using assms(1) fit_kept [OF _ assms(3,4)] by (auto simp: committable_def)
  then show ?thesis using assms by (auto simp: committable_def split: if_splits)
qed

lemma alone_in_server:
  assumes "coupled (add_mset (x, w, m, r) T) D a s ob" and "holds (snd (coarse (x, w, m, r)))"
  shows "g_seqMu (s_guard s)" and "\<forall>t\<in>#image_mset coarse T. \<not> holds (snd t)"
proof -
  have c: "placed s (x, w, m, r)" "all_placed s T" using assms(1) by (simp_all add: coupled_def)
  note al = coupled_alone [OF assms(1) placed_coarse(2) [OF c(1) assms(2)]]
  show "g_seqMu (s_guard s)" by (rule al(2))
  have "\<not> holds (snd (coarse t))" if t: "t \<in># T" for t
  proof -
    obtain y v k q where y: "t = (y, v, k, q)" by (cases t)
    have "placed s (y, v, k, q)" using c(2) t y by (auto simp: all_placed_def)
    from placed_coarse(2) [OF this] show ?thesis using holders_0 [OF al(1) t] y by blast
  qed
  then show "\<forall>t\<in>#image_mset coarse T. \<not> holds (snd t)" by simp
qed

text \<open>A step of the server, and the effect of a handler.\<close>

lemma committable_server:
  assumes "committable (add_mset (x, p) M) a s" and "holds p \<Longrightarrow> g_seqMu (s_guard s) \<and> (\<forall>t\<in>#M. \<not> holds (snd t))"
    and "\<not> app_point p" and "advance x p s = Some (p', s')" and "reaches x p" and "\<not> is_handshake x"
  shows "committable (add_mset (x, p') M) a s'"
proof -
  have mu: "g_seqMu (s_guard s)" if "holds p" using assms(2) [OF that] by blast
  note m = advance_mutex [OF assms(3-5) mu]
  show ?thesis
  proof (cases "holds p")
    case True
    then have "fit p a s" using assms(1) by (simp add: committable_def)
    from fit_server [OF assms(4,3) True this assms(5,6)] m True assms(2) show ?thesis
      by (intro committable_holder) (auto split: if_splits)
  next
    case False
    note st = free_state [OF assms(4,3) False assms(5,6)]
    have "settled a s" if "\<not> g_seqMu (s_guard s)" using assms(1) that by (simp add: committable_def)
    moreover have "p' = ExLocked \<or> p' = CoLocked" if "holds p'"
      using assms(3-6) that False by (cases p; cases x) (auto split: if_splits)
    ultimately show ?thesis
      by (intro committable_other [OF assms(1) False st]) (use m False st in \<open>auto split: if_splits\<close>)
  qed
qed

lemma committable_effect:
  assumes "committable (add_mset (x, p) M) a s" and "holds p \<Longrightarrow> g_seqMu (s_guard s) \<and> (\<forall>t\<in>#M. \<not> holds (snd t))"
    and "app_point p" and "good (fields a)" and "reaches x p" and "\<not> is_handshake x"
  shows "committable (add_mset (x, app_returns_pc p (fst (handle app x a))) M) (snd (handle app x a)) s"
proof (cases "holds p")
  case True
  then have "fit p a s" using assms(1) by (simp add: committable_def)
  from fit_effect [OF assms(3) this assms(4-6) True] assms(2) [OF True] show ?thesis
    by (intro committable_holder) simp_all
next
  case False
  have p: "p = InApp" "simple x" using False assms(3,5,6) by (cases p; simp)+
  then have "\<not> sequential x" by (cases x) simp_all
  then show ?thesis using simple_keeps_staged p(1) by (intro committable_other [OF assms(1) False]) auto
qed

lemma healthy_shift:
  assumes "coupled (add_mset (x, w, m, r) T) D a s ob" and "shift x (track (x, w, m, r) T D a s) (p', E', a', s')"
    and "healthy (image_mset coarse (add_mset (x, w, m, r) T)) (decisions (under_way (x, w, m, r) + inners T + D)) a s"
  shows "healthy (add_mset (x, p') (image_mset coarse T)) E' a' s'"
proof -
  obtain p where p: "coarse (x, w, m, r) = (x, p)" using coarse_call by blast
  have "placed s (x, w, m, r)" using assms(1) by (simp add: coupled_def)
  then have at: "reaches x p" "\<not> is_handshake x" using placed_coarse(1) p by fastforce+
  have alone: "g_seqMu (s_guard s) \<and> (\<forall>t\<in>#image_mset coarse T. \<not> holds (snd t))" if "holds p"
    using alone_in_server [OF assms(1)] that unfolding p snd_conv by blast
  have h: "good (fields a)" "\<forall>(x, r, b)\<in>#decisions (under_way (x, w, m, r) + inners T + D). \<not> b"
    "committable (add_mset (x, p) (image_mset coarse T)) a s" "\<forall>t\<in>#image_mset coarse T. ends (snd t)"
    using assms(3) p by (simp_all add: healthy_def)
  from assms(2) [unfolded track_def p snd_conv] show ?thesis
  proof cases
    case still
    then show ?thesis using assms(3) p by simp
  next
    case server
    have "s_app s = app" "own_interfaces s" using assms(1) by (simp_all add: coupled_def)
    then have "ends p'" using ends_advance [OF server(4) at(1)] finite by simp
    then show ?thesis using server h committable_server [OF h(3) alone server(3,4) at] by (simp add: healthy_def)
  next
    case (effect r)
    have "holds p \<Longrightarrow> fit p a s" using h(3) by (simp add: committable_def)
    note cl = effect_clean [OF effect(5) this h(1) at effect(6)]
    have "committable (add_mset (x, p') (image_mset coarse T)) a' s"
      using committable_effect [OF h(3) alone effect(5) h(1) at] run_handle(1) [OF effect(6)] effect(1,3) by simp
    moreover have "ends p'"
      using ends_returns [OF effect(5), of "fst r"] run_handle(1) [OF effect(6)] finite effect(1) by (simp add: never_hangs_def)
    ultimately show ?thesis using h(2,4) cl effect(2-4) by (cases r) (simp add: healthy_def)
  qed
qed

lemma healthy_steps:
  assumes "micro_steps handler c d" and "engine_calls (fst d)" and "c = ({#}, s0, ob0)" and "coupled {#} {#} a0 s0 ob0" and "healthy {#} {#} a0 s0"
  obtains T D a where "fst d = image_mset bare T" and "coupled T D a (fst (snd d)) (snd (snd d))"
    and "healthy (image_mset coarse T) (decisions (inners T + D)) a (fst (snd d))"
proof -
  have "\<exists>T D a. fst d = image_mset bare T \<and> coupled T D a (fst (snd d)) (snd (snd d)) \<and>
      healthy (image_mset coarse T) (decisions (inners T + D)) a (fst (snd d))"
    using assms(1-3)
  proof (induction rule: micro_steps.induct)
    case none
    then show ?case using assms(4,5)
      by (auto intro!: exI [of _ "{#}"] exI [of _ a0] simp: inners_def decisions_def)
  next
    case (move c x w F s ob w' s' ob')
    have "engine_calls (add_mset (x, w) F)" using move.prems(1) by (simp add: engine_calls_def)
    with move.IH [OF _ move.prems(2)] obtain T0 D a where T0: "add_mset (x, w) F = image_mset bare T0" "coupled T0 D a s ob"
      "healthy (image_mset coarse T0) (decisions (inners T0 + D)) a s" unfolding fst_conv snd_conv by blast
    obtain T m r m' r' D' a' where T: "T0 = add_mset (x, w, m, r) T" "F = image_mset bare T"
      and l: "coupled (add_mset (x, w', m', r') T) D' a' s' ob'" and sh: "shift x (track (x, w, m, r) T D a s) (track (x, w', m', r') T D' a' s')"
      by (rule coupled_micro [OF T0(1,2) move.hyps(2)])
    have "healthy (image_mset coarse (add_mset (x, w', m', r') T)) (decisions (inners (add_mset (x, w', m', r') T) + D')) a' s'"
      using healthy_shift [OF T0(2) [unfolded T(1)] sh [unfolded track_def [of "(x, w', m', r')"]]] T0(3) T(1)
      unfolding coarse_call [of x w' m' r', symmetric] by simp
    moreover have "add_mset (x, w') F = image_mset bare (add_mset (x, w', m', r') T)" unfolding T(2) by simp
    ultimately show ?case using l unfolding fst_conv snd_conv by blast
  next
    case (spawn c F s ob x)
    have "engine_calls F" using spawn.prems(1) by (simp add: engine_calls_def)
    with spawn.IH [OF _ spawn.prems(2)] obtain T D a where T: "F = image_mset bare T" "coupled T D a s ob"
      "healthy (image_mset coarse T) (decisions (inners T + D)) a s" unfolding fst_conv snd_conv by blast
    let ?t = "(x, At Start, Before, undefined)"
    have "coupled (add_mset ?t T) D a s ob" using coupled_spawn [OF T(2)] spawn.prems(1) by (simp add: engine_calls_def)
    moreover have "healthy (image_mset coarse (add_mset ?t T)) (decisions (inners (add_mset ?t T) + D)) a s"
      using T(3) by (simp add: healthy_def committable_def)
    moreover have "add_mset (x, At Start) F = image_mset bare (add_mset ?t T)" unfolding T(1) by simp
    ultimately show ?case unfolding fst_conv snd_conv by blast
  qed
  then show ?thesis using that by blast
qed

lemma shadow_moves: "(x, w, m, r) \<in># T \<Longrightarrow> micro handler x w s ob \<noteq> None \<Longrightarrow> \<exists>d. micro_move handler (image_mset bare T, s, ob) d"
  by (intro micro_moveI [of x w]) force+

lemma point_moves:
  assumes "(x, At p, m, r) \<in># T" and "placed s (x, At p, m, r)" and "\<not> app_point p" and "holds p \<longleftrightarrow> g_seqMu (s_guard s)"
    and "\<And>r. p \<noteq> Finished r" and "ends p"
  shows "\<exists>d. micro_move handler (image_mset bare T, s, ob) d"
proof -
  have "\<And>r. p \<noteq> Hung r" using assms(6) by auto
  then show ?thesis using can_advance [of x p s] assms by (intro shadow_moves [OF assms(1)]) auto
qed

text \<open>Some goroutine goes on: inside the application if one is there, at the server's mutex otherwise.\<close>

lemma program_goes_on:
  assumes "coupled T D a s ob" and "healthy (image_mset coarse T) (decisions (inners T + D)) a s"
    and "(x, Within p P, m, r) \<in># T" and "\<not> returned P"
  shows "\<exists>d. micro_move handler (image_mset bare T, s, ob) d"
proof -
  have G: "accords ob (inners T + D) (fields a)" "excludes ob (inners T + D)" "all_done D" using assms(1) by (simp_all add: coupled_def)
  have h: "\<forall>(x, r, b)\<in>#decisions (inners T + D). \<not> b" using assms(2) by (simp add: healthy_def)
  have "(x, P, m, r) \<in># inners T + D" using assms(3) by (auto dest!: multi_member_split)
  from unstuck [OF G(1,2) h this assms(4)] obtain y Q k q where g: "(y, Q, k, q) \<in># inners T + D" "instr Q ob \<noteq> None" by blast
  have live: "\<not> returned Q" using g(2) by (cases Q) simp_all
  then have "(y, Q, k, q) \<in># inners T" using g(1) G(3) by (auto simp: all_done_def)
  then obtain p' where "(y, Within p' Q, k, q) \<in># T" using inners_in by blast
  then show ?thesis by (rule shadow_moves) (use g(2) live in \<open>cases Q; auto\<close>)
qed

lemma server_goes_on:
  assumes "coupled T D a s ob" and "committable (image_mset coarse T) a s" and "\<not> all_replied (image_mset bare T)"
    and "\<forall>t\<in>#T. \<exists>x p m r. t = (x, At p, m, r) \<and> \<not> app_point p"
    and "\<forall>t\<in>#image_mset coarse T. ends (snd t)"
  shows "\<exists>d. micro_move handler (image_mset bare T, s, ob) d"
proof -
  have ends: "ends p" if "(x, At p, m, r) \<in># T" for x p m r using assms(5) that by force
  have placed: "\<And>t. t \<in># T \<Longrightarrow> placed s t" using assms(1) by (auto simp: coupled_def all_placed_def)
  show ?thesis
  proof (cases "g_seqMu (s_guard s)")
    case True
    then have "owner (image_mset coarse T)" using assms(2) by (simp add: committable_def)
    then obtain t where t: "t \<in># T" "holds (snd (coarse t))" unfolding owner_def set_image_mset by (metis imageE snd_conv)
    then obtain x p m r where x: "t = (x, At p, m, r)" "\<not> app_point p" using assms(4) by blast
    then show ?thesis using t True placed [OF t(1)] ends by (intro point_moves [of x p m r]) auto
  next
    case False
    obtain x w m r where t: "(x, w, m, r) \<in># T" "reply_at w = None" using assms(3) by (auto simp: all_replied_def)
    then obtain p where p: "w = At p" "\<not> app_point p" using assms(4) by force
    have "holders T = 0" using assms(1) False by (simp add: coupled_def)
    from holders_0 [OF this t(1)] have "\<not> holds p" by (simp add: p(1))
    then show ?thesis using t p False placed [OF t(1)] ends by (intro point_moves [of x p m r]) auto
  qed
qed

lemma healthy_goes_on:
  assumes "coupled T D a s ob" and "healthy (image_mset coarse T) (decisions (inners T + D)) a s" and "\<not> all_replied (image_mset bare T)"
  shows "\<exists>d. micro_move handler (image_mset bare T, s, ob) d"
proof -
  consider (busy) x p P m r where "(x, Within p P, m, r) \<in># T" "\<not> returned P" | (returning) x p v m r where "(x, Within p (Return v), m, r) \<in># T"
    | (enter) x p m r where "(x, At p, m, r) \<in># T" "app_point p"
    | (server) "\<forall>t\<in>#T. \<exists>x p m r. t = (x, At p, m, r) \<and> \<not> app_point p"
  proof (cases "\<forall>t\<in>#T. \<exists>x p m r. t = (x, At p, m, r) \<and> \<not> app_point p")
    case False
    then obtain x w m r where t: "(x, w, m, r) \<in># T" "\<forall>p. w = At p \<longrightarrow> app_point p" by fastforce
    then show ?thesis using that(1-3) unfolding returned_iff by (cases w) blast+
  qed (use that(4) in blast)
  then show ?thesis
  proof cases
    case busy
    then show ?thesis by (rule program_goes_on [OF assms(1,2)])
  next
    case returning
    then show ?thesis by (rule shadow_moves) (simp split: prod.splits)
  next
    case enter
    then show ?thesis by (intro shadow_moves [OF enter(1)]) simp
  next
    case server
    then show ?thesis using assms(2) by (intro server_goes_on [OF assms(1) _ assms(3)]) (simp_all add: healthy_def)
  qed
qed

lemma healthy_at_rest:
  assumes "coupled T D a s ob" and "healthy (image_mset coarse T) (decisions (inners T + D)) a s" and "all_replied (image_mset bare T)"
  shows "lk_mu ob = free_mutex" and "\<not> g_seqMu (s_guard s)"
proof -
  note fin = all_replied_coarse [OF assms(3)]
  have "\<forall>(x, P, m, r)\<in>#inners T + D. returned P" using assms(1) fin(3) by (auto simp: coupled_def all_done_def)
  then show "lk_mu ob = free_mutex" using assms(1,2) by (intro unlocked [of ob "inners T + D" "fields a"]) (auto simp: coupled_def healthy_def)
  have "\<not> owner (image_mset coarse T)" using fin(2) unfolding owner_def all_finished_def by (metis holds.simps)
  then show "\<not> g_seqMu (s_guard s)" using assms(2) by (auto simp: healthy_def committable_def)
qed

lemma stack_answers:
  assumes "s_app s0 = app" and "own_interfaces s0" and "lk_mu ob0 = free_mutex" and "now ob0 = fields (s_state s0)"
    and "good (fields (s_state s0))" and "\<not> g_seqMu (s_guard s0)" and "settled (s_state s0) s0"
    and "micro_steps handler ({#}, s0, ob0) c" and "engine_calls (fst c)" and "(micro_move handler ^^ n) c (F, s, ob)"
  shows "n \<le> (bound + 10) * size (fst c)"
    and "if all_replied F then lk_mu ob = free_mutex \<and> \<not> g_seqMu (s_guard s) else \<exists>d. micro_move handler (F, s, ob) d"
proof -
  obtain k where "k \<le> (bound + 10) * size (fst c)" "load bound (fst c) k" using load_start [OF live.short assms(8)] by blast
  then show "n \<le> (bound + 10) * size (fst c)" using load_moves [OF live.short assms(10)] by fastforce
  have "coupled {#} {#} (s_state s0) s0 ob0"
    using assms(1-4) explained_fresh [of ob0] by (simp add: coupled_def explained_def all_placed_def all_done_def holders_def inners_def)
  moreover have "healthy {#} {#} (s_state s0) s0" using assms(5-7) by (simp add: healthy_def committable_def)
  moreover have "engine_calls F" using assms(9) micro_moves_calls [OF assms(10)] by (simp add: engine_calls_iff)
  ultimately obtain T D a where "F = image_mset bare T" "coupled T D a s ob" "healthy (image_mset coarse T) (decisions (inners T + D)) a s"
    using healthy_steps [OF micro_moves_steps [OF assms(10,8)] _ refl] unfolding fst_conv snd_conv by blast
  then show "if all_replied F then lk_mu ob = free_mutex \<and> \<not> g_seqMu (s_guard s) else \<exists>d. micro_move handler (F, s, ob) d"
    using healthy_goes_on healthy_at_rest by auto
qed

end

section \<open>Order book and counter\<close>

lemma go_bind_Blocked: "go_bind m f = Blocked \<longleftrightarrow> m = Blocked \<or> (\<exists>v. m = Ret v \<and> f v = Blocked)"
  by (cases m) auto

lemma chunks_of_ends: "chunks_of data is \<noteq> Blocked"
  by (induction "is") (auto simp: go_bind_Blocked chunk_at_def go_slice_def Let_def split: if_splits)

lemma verify_proposal_ends: "verify_proposal proposal \<noteq> Blocked"
  by (auto simp: verify_proposal_def go_bind_Blocked go_index_def go_slice_def Let_def split: sum.splits if_splits)

lemma build_proposal_ends: "valid_order ord \<Longrightarrow> build_proposal ord pctx \<noteq> Blocked"
  by (rule build_proposal_eq [where pctx = pctx], assumption) (metis go.distinct(3))

lemma Dex_Simulate_ends: "valid_order ord \<Longrightarrow> fst (Dex_Simulate ord tx app) \<noteq> Blocked"
proof (cases "app_current app")
  case (Some c)
  assume "valid_order ord"
  moreover obtain out evs s where "executeTx (cloned c) 0 tx = Ret (out, evs, s)" by (rule executeTx_run [OF state_ok_cloned])
  ultimately show ?thesis using Some by (simp add: Dex_Simulate_def reading_def clone_eq)
qed (simp add: Dex_Simulate_def reading_def nil_deref_def)

lemma Dex_ExecuteBlock_ends: "valid_order ord \<Longrightarrow> fst (Dex_ExecuteBlock ord b app) \<noteq> Blocked"
  using Dex_ExecuteBlock_eq [of ord app _ b] by (cases "app_current app") (simp_all add: Dex_ExecuteBlock_def nil_deref_def)

lemma dex_never_hangs:
  assumes "valid_order ord"
  shows "never_hangs (dex_lifecycle ord)"
proof -
  have gate: "dex_gate tx \<noteq> Blocked" for tx using dex_gate_returns [of tx] by auto
  have "\<not> hung (fst (handle (dex_lifecycle ord) x a))" for x a
    using Dex_Simulate_ends [OF assms] Dex_ExecuteBlock_ends [OF assms] build_proposal_ends [OF assms] gate
    by (cases x) (auto simp: dex_lifecycle_def optional_def Dex_Handshake_def Dex_CheckTx_def Dex_Commit_def Dex_Query_def
        dex_query_returns Dex_BuildProposal_def Dex_VerifyProposal_def Dex_ExtendVote_def Dex_VerifyExtension_def
        Dex_AvailableSnapshots_def Dex_ExportSnapshot_def Dex_ImportSnapshot_def export_snapshot_def reading_def nil_deref_def
        go_bind_Blocked verify_proposal_ends chunks_of_ends Let_def split: option.splits prod.splits if_splits)
  then show ?thesis by (simp add: never_hangs_def)
qed

sublocale dex_app \<subseteq> in_stack: answering_app "dex_locked ord" "dex_lifecycle ord" dex_fields dex_may "\<lambda>s. fst s \<noteq> None" 8
proof (unfold_locales, goal_cases)
  case (1 a b)
  then show ?case using Dex_ExecuteBlock_eq [OF valid] by (auto simp: dex_fields_def dex_lifecycle_def)
next
  case 4
  show ?case by (rule dex_never_hangs [OF valid])
qed (auto simp: dex_fields_def dex_lifecycle_def Dex_Commit_def split: option.splits)

context dex_app
begin

lemmas dex_answers = in_stack.stack_answers

end

interpretation counter_in_stack: answering_app counter_locked counter_lifecycle counter_fields "\<lambda>_ _. True" "\<lambda>_. True" 9
  by unfold_locales (rule counter_never_hangs | simp add: counter_lifecycle_def Counter_ExecuteBlock_spec Counter_Commit_def)+

text \<open>A server after its handshake.\<close>

definition ready_dex :: "App Server" where
  "ready_dex = (New (dex_lifecycle (\<lambda>l ks. ks)) Dex_New)
     \<lparr>s_guard := \<lparr>g_state = stateReady, g_seqMu = False, g_handshakeDone = True\<rparr>\<rparr>"

section \<open>Properties\<close>

text \<open>
  C14. Server and order book together answer every call. However many goroutines call a server in
  front of the order book (handshakes apart), and however the single steps of server, guard
  and handlers interleave: a schedule has at most eighteen steps for each call that has
  started, some goroutine can go on until all calls have returned, and then neither the
  server's mutex nor the application's lock is left behind. It is enough that the server's
  mutex is free at the beginning, that the application has a committed state, and that a
  block is staged if the guard says that one has been executed.
\<close>

theorem dex_stack_answers:
  assumes "valid_order ord" and "s_app s0 = dex_lifecycle ord" and "own_interfaces s0"
    and "app_current (s_state s0) \<noteq> None" and "\<not> g_seqMu (s_guard s0)"
    and "g_state (s_guard s0) = stateExecuted \<longrightarrow> app_staged (s_state s0) \<noteq> None"
    and "micro_steps (dex_locked ord) ({#}, s0, dex_object (s_state s0)) (F, s, ob)" and "engine_calls F"
    and "(micro_move (dex_locked ord) ^^ n) (F, s, ob) (F', s', ob')"
  shows "n \<le> 18 * size F \<and>
    (if all_replied F' then lk_mu ob' = free_mutex \<and> \<not> g_seqMu (s_guard s')
     else \<exists>d. micro_move (dex_locked ord) (F', s', ob') d)"
proof -
  note dex = dex_app.dex_answers [OF dex_app.intro [OF assms(1)] assms(2,3) dex_object_fresh _ assms(5) _ assms(7) _ assms(9)]
  show ?thesis using dex assms(4,6,8) by (simp add: dex_fields_def)
qed

theorem dex_stack_answers_witness:
  "\<exists>d. micro_move (dex_locked (\<lambda>l ks. ks)) ({#(ECExecuteBlock block_1, At Start), (ECCommit, At Start)#}, ready_dex, dex_object Dex_New) d"
proof -
  let ?H = "dex_locked (\<lambda>l ks. ks)" and ?F = "{#(ECExecuteBlock block_1, At Start), (ECCommit, At Start)#}"
  have s0: "s_app ready_dex = dex_lifecycle (\<lambda>l ks. ks)" "own_interfaces ready_dex" "app_current (s_state ready_dex) \<noteq> None"
    "\<not> g_seqMu (s_guard ready_dex)" "g_state (s_guard ready_dex) = stateExecuted \<longrightarrow> app_staged (s_state ready_dex) \<noteq> None"
    and state: "s_state ready_dex = Dex_New"
    by (simp_all add: ready_dex_def New_def own_interfaces_def Dex_New_def guard_states)
  have "micro_steps ?H ({#}, ready_dex, dex_object Dex_New) (?F, ready_dex, dex_object Dex_New)"
    by (rule micro_steps.spawn [OF micro_steps.spawn [OF micro_steps.none]])
  from dex_stack_answers [OF _ s0, of ?F ready_dex "dex_object Dex_New" 0 ?F ready_dex "dex_object Dex_New"] this
  show ?thesis by (simp add: state valid_order_def engine_calls_def all_replied_def)
qed

end
